(* ===== verification/Xdp2_Prelude.thy ===== *)
theory Xdp2_Prelude
  imports Main "HOL-Library.Word"
begin

text \<open>
  Shared vocabulary of the development.

  \<^item> The C integer types as words: \<open>size_t\<close> and \<open>ssize_t\<close> are both 64-bit words, read
    with \<open>unat\<close> or \<open>sint\<close> depending on the comparison the source makes; C \<open>int\<close>
    values that are only compared (protocol numbers, return codes) are HOL \<open>int\<close>.
  \<^item> Results of C code that may go wrong: \<open>Ok\<close> of a value, or \<open>Err\<close> of a fault. A fault
    is undefined behaviour of the C program (a read outside the buffer, a NULL
    dereference, a cast to a structure the object is not, an undefined shift), a failed
    \<open>XDP2_ASSERT\<close>, or \<open>StillRunning\<close> for a loop whose fuel is used up.
  \<^item> Packet memory as a byte list; a pointer into it is an offset. Multi-byte loads are
    those of a little-endian host.
  \<^item> The weakest preconditions \<open>wp\<close> (the code returns, and with a good value) and \<open>wlp\<close>
    (the same, but it may still be running), with the rules that carry the component
    proofs.
\<close>

unbundle bit_operations_syntax

named_theorems xdp2_consts \<open>numeric constants of the C headers\<close>
named_theorems wp_intros \<open>weakest-precondition rules for component operations\<close>

type_synonym u8 = "8 word"
type_synonym u16 = "16 word"
type_synonym u32 = "32 word"
type_synonym u64 = "64 word"
type_synonym size_t = "64 word"
type_synonym ssize_t = "64 word"
type_synonym packet = "u8 list"

section \<open>Faults and results\<close>

datatype fault =
    OutOfBounds
  | NullPointer
  | BadCast
  | UndefinedShift
  | AssertFailed
  | StillRunning

datatype 'a res = Ok 'a | Err fault

primrec bind_res :: "'a res \<Rightarrow> ('a \<Rightarrow> 'b res) \<Rightarrow> 'b res" where
  "bind_res (Ok x) f = f x"
| "bind_res (Err e) f = Err e"

primrec map_res :: "('a \<Rightarrow> 'b) \<Rightarrow> 'a res \<Rightarrow> 'b res" where
  "map_res f (Ok x) = Ok (f x)"
| "map_res f (Err e) = Err e"

primrec wp :: "('a \<Rightarrow> bool) \<Rightarrow> 'a res \<Rightarrow> bool" where
  "wp P (Ok x) = P x"
| "wp P (Err e) = False"

primrec wlp :: "('a \<Rightarrow> bool) \<Rightarrow> 'a res \<Rightarrow> bool" where
  "wlp P (Ok x) = P x"
| "wlp P (Err e) = (e = StillRunning)"

primrec fault_of :: "'a res \<Rightarrow> fault option" where
  "fault_of (Ok x) = None"
| "fault_of (Err e) = Some e"

lemma fault_of_iff: "fault_of r = Some e \<longleftrightarrow> r = Err e"
  by (cases r) auto

lemma bind_res_assoc: "bind_res (bind_res m f) g = bind_res m (\<lambda>x. bind_res (f x) g)"
  by (cases m) simp_all

lemma map_res_bind: "map_res f m = bind_res m (\<lambda>x. Ok (f x))"
  by (cases m) simp_all

lemma bind_res_Ok_iff: "bind_res m f = Ok y \<longleftrightarrow> (\<exists>x. m = Ok x \<and> f x = Ok y)"
  by (cases m) simp_all

lemma bind_res_Err_iff:
  "bind_res m f = Err e \<longleftrightarrow> m = Err e \<or> (\<exists>x. m = Ok x \<and> f x = Err e)"
  by (cases m) simp_all

lemma wp_bind [simp]: "wp P (bind_res m f) \<longleftrightarrow> wp (\<lambda>x. wp P (f x)) m"
  by (cases m) simp_all

lemma wlp_bind [simp]: "wlp P (bind_res m f) \<longleftrightarrow> wlp (\<lambda>x. wlp P (f x)) m"
  by (cases m) simp_all

lemma wp_map [simp]: "wp P (map_res f m) \<longleftrightarrow> wp (\<lambda>x. P (f x)) m"
  by (cases m) simp_all

lemma wlp_map [simp]: "wlp P (map_res f m) \<longleftrightarrow> wlp (\<lambda>x. P (f x)) m"
  by (cases m) simp_all

lemma wp_mono: "wp P m \<Longrightarrow> (\<And>x. m = Ok x \<Longrightarrow> P x \<Longrightarrow> Q x) \<Longrightarrow> wp Q m"
  by (cases m) simp_all

lemma wlp_mono: "wlp P m \<Longrightarrow> (\<And>x. m = Ok x \<Longrightarrow> P x \<Longrightarrow> Q x) \<Longrightarrow> wlp Q m"
  by (cases m) simp_all

lemma wp_imp_wlp: "wp P m \<Longrightarrow> wlp P m"
  by (cases m) simp_all

lemma wp_iff: "wp P m \<longleftrightarrow> (\<exists>x. m = Ok x \<and> P x)"
  by (cases m) simp_all

lemma wlp_iff: "wlp P m \<longleftrightarrow> m = Err StillRunning \<or> (\<exists>x. m = Ok x \<and> P x)"
  by (cases m) simp_all

lemma wlp_not_running: "wlp P m \<Longrightarrow> m \<noteq> Err StillRunning \<Longrightarrow> wp P m"
  by (cases m) simp_all

section \<open>Packet memory\<close>

text \<open>Loads from a packet buffer. A load outside the buffer is a fault.\<close>

definition rd8 :: "packet \<Rightarrow> nat \<Rightarrow> u8 res" where
  "rd8 pkt off = (if off < length pkt then Ok (pkt ! off) else Err OutOfBounds)"

definition rd16 :: "packet \<Rightarrow> nat \<Rightarrow> u16 res" where
  "rd16 pkt off =
     (if off + 2 \<le> length pkt then Ok (word_cat (pkt ! (off + 1)) (pkt ! off))
      else Err OutOfBounds)"

definition rd32 :: "packet \<Rightarrow> nat \<Rightarrow> u32 res" where
  "rd32 pkt off =
     bind_res (rd16 pkt off) (\<lambda>lo. bind_res (rd16 pkt (off + 2)) (\<lambda>hi. Ok (word_cat hi lo)))"

definition rd64 :: "packet \<Rightarrow> nat \<Rightarrow> u64 res" where
  "rd64 pkt off =
     bind_res (rd32 pkt off) (\<lambda>lo. bind_res (rd32 pkt (off + 4)) (\<lambda>hi. Ok (word_cat hi lo)))"

text \<open>A run of bytes, as copied by a metadata extractor.\<close>

definition rd_bytes :: "packet \<Rightarrow> nat \<Rightarrow> nat \<Rightarrow> u8 list res" where
  "rd_bytes pkt off n =
     (if off + n \<le> length pkt then Ok (take n (drop off pkt)) else Err OutOfBounds)"

text \<open>Byte order conversions of a little-endian host.\<close>

definition bswap16 :: "u16 \<Rightarrow> u16" where
  "bswap16 x = word_cat (ucast x :: u8) (ucast (drop_bit 8 x) :: u8)"

definition bswap32 :: "u32 \<Rightarrow> u32" where
  "bswap32 x = word_cat (bswap16 (ucast x)) (bswap16 (ucast (drop_bit 16 x)))"

lemma wp_rd8 [simp]: "wp P (rd8 pkt off) \<longleftrightarrow> off < length pkt \<and> P (pkt ! off)"
  by (simp add: rd8_def)

lemma wp_rd16 [simp]:
  "wp P (rd16 pkt off) \<longleftrightarrow>
     off + 2 \<le> length pkt \<and> P (word_cat (pkt ! (off + 1)) (pkt ! off))"
  by (simp add: rd16_def)

lemma wp_rd32: "off + 4 \<le> length pkt \<Longrightarrow> (\<And>x. P x) \<Longrightarrow> wp P (rd32 pkt off)"
  by (simp add: rd32_def)

lemma wp_rd_bytes [simp]:
  "wp P (rd_bytes pkt off n) \<longleftrightarrow> off + n \<le> length pkt \<and> P (take n (drop off pkt))"
  by (simp add: rd_bytes_def)

section \<open>Words\<close>

lemma unat_sub_no_wrap: "b \<le> a \<Longrightarrow> unat (a - b) = unat a - unat (b :: 'a::len word)"
  by (simp add: unat_sub)

lemma unat_of_nat_lt: "n < 2 ^ LENGTH('a) \<Longrightarrow> unat (of_nat n :: 'a::len word) = n"
  by (simp add: unat_of_nat)

lemma unat_ucast_up:
  assumes "LENGTH('a) \<le> LENGTH('b)"
  shows "unat (ucast (x :: 'a::len word) :: 'b::len word) = unat x"
proof -
  have "unat x < 2 ^ LENGTH('a)" using unsigned_less [of x, where 'a = nat] by simp
  also have "\<dots> \<le> 2 ^ LENGTH('b)" using assms by simp
  finally show ?thesis by (simp add: unsigned_ucast_eq take_bit_nat_eq_self)
qed

lemmas unat_ucast_widths [simp] =
  unat_ucast_up [where 'a = 8 and 'b = 16, simplified]
  unat_ucast_up [where 'a = 8 and 'b = 32, simplified]
  unat_ucast_up [where 'a = 8 and 'b = 64, simplified]
  unat_ucast_up [where 'a = 16 and 'b = 32, simplified]
  unat_ucast_up [where 'a = 16 and 'b = 64, simplified]
  unat_ucast_up [where 'a = 32 and 'b = 64, simplified]

lemma uint_ge_iff: "2 ^ 63 \<le> uint (w :: 64 word) \<longleftrightarrow> 2 ^ 63 \<le> unat w"
proof -
  have "2 ^ 63 \<le> uint w \<longleftrightarrow> int (2 ^ 63) \<le> int (unat w)"
    by (simp only: uint_nat of_nat_power of_nat_numeral)
  then show ?thesis by (simp only: of_nat_le_iff)
qed

lemma sint_negative_iff: "sint (w :: 64 word) < 0 \<longleftrightarrow> 2 ^ 63 \<le> unat w"
proof -
  have b: "uint w < 2 ^ 64" using unsigned_less [of w, where 'a = int] by simp
  have "sint w < 0 \<longleftrightarrow> bit (uint w) 63"
    by (simp add: sint_uint signed_take_bit_negative_iff)
  also have "\<dots> \<longleftrightarrow> odd (uint w div 2 ^ 63)" by (simp add: bit_iff_odd)
  also have "\<dots> \<longleftrightarrow> 2 ^ 63 \<le> uint w"
  proof (cases "2 ^ 63 \<le> uint w")
    case True
    then have "uint w div 2 ^ 63 = 1" using b by (intro int_div_pos_eq [where r = "uint w - 2 ^ 63"]) auto
    with True show ?thesis by simp
  next
    case False
    then have "uint w div 2 ^ 63 = 0" by (simp add: div_pos_pos_trivial)
    with False show ?thesis by simp
  qed
  finally show ?thesis by (simp only: uint_ge_iff)
qed

lemma sint_nonneg_eq:
  assumes "unat (w :: 64 word) < 2 ^ 63" shows "sint w = int (unat w)"
proof -
  have "uint w < 2 ^ 63" using assms uint_ge_iff [of w] by linarith
  then have "signed_take_bit 63 (uint w) = uint w"
    using unsigned_greater_eq [of w, where 'a = int] by (intro signed_take_bit_int_eq_self) linarith+
  then show ?thesis by (simp add: sint_uint)
qed

lemma bswap16_involutive: "bswap16 (bswap16 x) = x"
proof -
  have "bit (bswap16 (bswap16 x)) n = bit x n" if "n < 16" for n
    using that by (auto simp: bswap16_def bit_word_cat_iff bit_ucast_iff bit_drop_bit_eq)
  then show ?thesis by (intro bit_word_eqI) simp
qed

end
