(* ===== verification/Parser_Types.thy ===== *)
theory Parser_Types
  imports Xdp2_Prelude
begin

text \<open>
  The data model of the parser: \<open>src/include/xdp2/parser_types.h\<close> with the structures of
  \<open>tlvs.h\<close>, \<open>flag_fields.h\<close> and \<open>arrays.h\<close>.

  A parse graph is cyclic (a GRE node can lead back to an IP node), so a pointer to a
  parse node or to a TLV parse node is a number, resolved by the \<open>nodes\<close> and \<open>tlv_nodes\<close>
  fields of the parser; \<open>None\<close> is the NULL pointer. The C code casts a parse node or a
  protocol definition to the larger structure it is embedded in. What the object really
  is, is the field \<open>pn_super\<close> or \<open>pd_super\<close>; the tag the code looks at is the field
  \<open>pn_node_type\<close> or \<open>pd_node_type\<close>, and nothing forces the two to agree.

  Callbacks get the packet buffer and an offset for their header pointer. What the
  application's callbacks may write (its metadata, the counters and the keys that
  \<open>struct xdp2_ctrl_key_data\<close> points to) is the record \<open>ustate\<close>; the type of the
  metadata is a parameter.
\<close>

section \<open>Return codes\<close>

definition XDP2_OKAY :: int where [xdp2_consts]: "XDP2_OKAY = 0"
definition XDP2_RET_OKAY :: int where [xdp2_consts]: "XDP2_RET_OKAY = -1"
definition XDP2_OKAY_USE_WILD :: int where [xdp2_consts]: "XDP2_OKAY_USE_WILD = -2"
definition XDP2_OKAY_USE_ALT_WILD :: int where [xdp2_consts]: "XDP2_OKAY_USE_ALT_WILD = -3"
definition XDP2_STOP_OKAY :: int where [xdp2_consts]: "XDP2_STOP_OKAY = -4"
definition XDP2_STOP_NODE_OKAY :: int where [xdp2_consts]: "XDP2_STOP_NODE_OKAY = -5"
definition XDP2_STOP_SUB_NODE_OKAY :: int where [xdp2_consts]: "XDP2_STOP_SUB_NODE_OKAY = -6"
definition XDP2_STOP_FAIL :: int where [xdp2_consts]: "XDP2_STOP_FAIL = -12"
definition XDP2_STOP_LENGTH :: int where [xdp2_consts]: "XDP2_STOP_LENGTH = -13"
definition XDP2_STOP_UNKNOWN_PROTO :: int where [xdp2_consts]: "XDP2_STOP_UNKNOWN_PROTO = -14"
definition XDP2_STOP_ENCAP_DEPTH :: int where [xdp2_consts]: "XDP2_STOP_ENCAP_DEPTH = -15"
definition XDP2_STOP_UNKNOWN_TLV :: int where [xdp2_consts]: "XDP2_STOP_UNKNOWN_TLV = -16"
definition XDP2_STOP_TLV_LENGTH :: int where [xdp2_consts]: "XDP2_STOP_TLV_LENGTH = -17"
definition XDP2_STOP_BAD_FLAG :: int where [xdp2_consts]: "XDP2_STOP_BAD_FLAG = -18"
definition XDP2_STOP_FAIL_CMP :: int where [xdp2_consts]: "XDP2_STOP_FAIL_CMP = -19"
definition XDP2_STOP_LOOP_CNT :: int where [xdp2_consts]: "XDP2_STOP_LOOP_CNT = -20"
definition XDP2_STOP_TLV_PADDING :: int where [xdp2_consts]: "XDP2_STOP_TLV_PADDING = -21"
definition XDP2_STOP_OPTION_LIMIT :: int where [xdp2_consts]: "XDP2_STOP_OPTION_LIMIT = -22"
definition XDP2_STOP_MAX_NODES :: int where [xdp2_consts]: "XDP2_STOP_MAX_NODES = -23"

text \<open>\<open>XDP2_CODE_IS_OKAY\<close> of \<open>parser.h\<close>.\<close>

definition XDP2_CODE_IS_OKAY :: "int \<Rightarrow> bool" where
  "XDP2_CODE_IS_OKAY code \<longleftrightarrow> code = XDP2_OKAY \<or> code = XDP2_STOP_OKAY"

section \<open>Node types and callbacks\<close>

datatype xdp2_parser_node_type =
    XDP2_NODE_TYPE_PLAIN
  | XDP2_NODE_TYPE_TLVS
  | XDP2_NODE_TYPE_FLAG_FIELDS
  | XDP2_NODE_TYPE_ARRAY

datatype xdp2_parser_type = XDP2_GENERIC | XDP2_OPTIMIZED | XDP2_XDP

type_synonym node_id = nat
type_synonym tlv_id = nat

type_synonym len_fn = "packet \<Rightarrow> nat \<Rightarrow> size_t \<Rightarrow> ssize_t res"
type_synonym type_fn = "packet \<Rightarrow> nat \<Rightarrow> int res"
type_synonym keyin_fn = "packet \<Rightarrow> nat \<Rightarrow> u32 \<Rightarrow> int res"
type_synonym offset_fn = "packet \<Rightarrow> nat \<Rightarrow> size_t res"
type_synonym nested_fn = "packet \<Rightarrow> nat \<Rightarrow> size_t \<Rightarrow> size_t res"
type_synonym num_els_fn = "packet \<Rightarrow> nat \<Rightarrow> size_t \<Rightarrow> u32 res"
type_synonym flags_fn = "packet \<Rightarrow> nat \<Rightarrow> u32 res"

record xdp2_ctrl_var_data =
  last_node :: "node_id option"
  ret_code :: "8 word"
  encaps :: u8
  node_cnt :: u8
  tlv_levels :: u8
  var_pkt_csum :: u16
  hdr_csum :: u16

record xdp2_ctrl_packet_data =
  start :: nat
  pkt_len :: size_t
  seqno :: u32
  timestamp :: u32
  in_port :: u32
  vrf_id :: u32
  pkt_csum :: u16
  pkt_flags :: u16

record xdp2_ctrl_data =
  var :: xdp2_ctrl_var_data
  pkt :: xdp2_ctrl_packet_data

text \<open>What callbacks can write: the metadata, and the arrays of \<open>xdp2_ctrl_key_data\<close>.\<close>

record 'm ustate =
  umeta :: 'm
  counters :: "u8 list"
  keys :: "u32 list"

type_synonym 'm extract_fn =
  "packet \<Rightarrow> nat option \<Rightarrow> size_t \<Rightarrow> nat \<Rightarrow> xdp2_ctrl_data \<Rightarrow> 'm ustate \<Rightarrow> 'm ustate res"
type_synonym 'm handler_fn =
  "packet \<Rightarrow> nat option \<Rightarrow> size_t \<Rightarrow> nat \<Rightarrow> xdp2_ctrl_data \<Rightarrow> 'm ustate \<Rightarrow> (int \<times> 'm ustate) res"

section \<open>Protocol definitions\<close>

record xdp2_parse_ops =
  op_len :: "len_fn option"
  op_next_proto :: "type_fn option"
  op_next_proto_keyin :: "keyin_fn option"

record xdp2_proto_tlvs_def =
  tlvs_len :: "len_fn option"
  tlvs_type :: type_fn
  tlvs_start_offset :: offset_fn
  pad1_val :: u8
  eol_val :: u8
  pad1_enable :: bool
  eol_enable :: bool
  tlvs_min_len :: size_t

record xdp2_proto_tlv_def =
  tlv_min_len :: size_t
  overlay_type :: "type_fn option"
  nested_offset :: "nested_fn option"

record xdp2_flag_field =
  ff_flag :: u32
  ff_mask :: u32
  ff_size :: size_t

record xdp2_proto_flag_fields_def =
  get_flags :: flags_fn
  start_fields_offset :: offset_fn
  flag_fields :: "xdp2_flag_field list"

record xdp2_proto_array_def =
  num_els :: num_els_fn
  el_type :: "type_fn option"
  array_start_offset :: offset_fn
  el_length :: size_t

datatype proto_super =
    PlainDef
  | TlvsDef xdp2_proto_tlvs_def
  | FlagFieldsDef xdp2_proto_flag_fields_def
  | ArrayDef xdp2_proto_array_def

record xdp2_proto_def =
  pd_node_type :: xdp2_parser_node_type
  pd_encap :: bool
  pd_overlay :: bool
  pd_min_len :: u16
  pd_name :: string
  pd_ops :: xdp2_parse_ops
  pd_super :: proto_super

section \<open>Parse nodes\<close>

type_synonym xdp2_proto_table = "(int \<times> node_id option) list"
type_synonym xdp2_proto_tlvs_table = "(int \<times> tlv_id option) list"

record 'm xdp2_parse_tlv_node =
  tlv_def :: "xdp2_proto_tlv_def option"
  tlv_extract_metadata :: "'m extract_fn option"
  tlv_handler :: "'m handler_fn option"
  overlay_table :: "xdp2_proto_tlvs_table option"
  overlay_wildcard_node :: "tlv_id option"
  nested_node :: "node_id option"
  unknown_overlay_ret :: int

record xdp2_parse_tlvs_node =
  tlv_proto_table :: "xdp2_proto_tlvs_table option"
  max_tlvs :: size_t
  max_tlv_len :: size_t
  unknown_tlv_type_ret :: int
  tlv_wildcard_node :: "tlv_id option"

text \<open>Flag-field and array-element nodes are the same pair of callbacks.\<close>

record 'm xdp2_parse_leaf_node =
  leaf_extract_metadata :: "'m extract_fn option"
  leaf_handler :: "'m handler_fn option"

type_synonym 'm xdp2_parse_flag_field_node = "'m xdp2_parse_leaf_node"
type_synonym 'm xdp2_parse_arrel_node = "'m xdp2_parse_leaf_node"
type_synonym 'm leaf_table = "(int \<times> 'm xdp2_parse_leaf_node option) list"

record 'm xdp2_parse_array_node =
  array_proto_table :: "'m leaf_table option"
  max_els :: u32
  unknown_array_type_ret :: int
  array_wildcard_node :: "'m xdp2_parse_arrel_node option"

datatype 'm node_super =
    UserNode
  | TlvsNode xdp2_parse_tlvs_node
  | FlagFieldsNode "'m leaf_table"
  | ArrayNode "'m xdp2_parse_array_node"

record 'm xdp2_parse_node =
  pn_node_type :: xdp2_parser_node_type
  pn_unknown_ret :: "8 word"
  pn_key_sel :: u8
  pn_flags :: u8
  pn_proto_def :: "xdp2_proto_def option"
  pn_extract_metadata :: "'m extract_fn option"
  pn_handler :: "'m handler_fn option"
  pn_post_handler :: "'m handler_fn option"
  pn_proto_table :: "xdp2_proto_table option"
  pn_wildcard_node :: "node_id option"
  pn_super :: "'m node_super"

definition XDP2_PARSE_NODE_F_ZERO_LEN_OK :: u8 where
  [xdp2_consts]: "XDP2_PARSE_NODE_F_ZERO_LEN_OK = 1"

section \<open>Parsers\<close>

record xdp2_parser_config =
  max_nodes :: u16
  max_encaps :: u16
  max_frames :: u16
  metameta_size :: size_t
  frame_size :: size_t
  num_counters :: u8
  num_keys :: u8
  okay_node :: "node_id option"
  fail_node :: "node_id option"
  atencap_node :: "node_id option"

record 'm xdp2_parser =
  parser_type :: xdp2_parser_type
  config :: xdp2_parser_config
  root_node :: node_id
  nodes :: "node_id \<Rightarrow> 'm xdp2_parse_node option"
  tlv_nodes :: "tlv_id \<Rightarrow> 'm xdp2_parse_tlv_node option"

text \<open>Following a pointer: NULL and a pointer to nothing are faults.\<close>

definition deref :: "('i \<Rightarrow> 'a option) \<Rightarrow> 'i option \<Rightarrow> 'a res" where
  "deref heap p =
     (case p of None \<Rightarrow> Err NullPointer
      | Some i \<Rightarrow> (case heap i of None \<Rightarrow> Err NullPointer | Some x \<Rightarrow> Ok x))"

text \<open>A callback that is only called when it is set.\<close>

definition call_extract ::
  "'m extract_fn option \<Rightarrow> packet \<Rightarrow> nat option \<Rightarrow> size_t \<Rightarrow> nat \<Rightarrow> xdp2_ctrl_data \<Rightarrow> 'm ustate
   \<Rightarrow> 'm ustate res" where
  "call_extract cb p hdr len frame ctrl us =
     (case cb of None \<Rightarrow> Ok us | Some f \<Rightarrow> f p hdr len frame ctrl us)"

definition call_handler ::
  "'m handler_fn option \<Rightarrow> packet \<Rightarrow> nat option \<Rightarrow> size_t \<Rightarrow> nat \<Rightarrow> xdp2_ctrl_data \<Rightarrow> 'm ustate
   \<Rightarrow> (int \<times> 'm ustate) res" where
  "call_handler cb p hdr len frame ctrl us =
     (case cb of None \<Rightarrow> Ok (XDP2_OKAY, us) | Some f \<Rightarrow> f p hdr len frame ctrl us)"

text \<open>The linear search of the lookup tables; the first matching entry wins.\<close>

fun lookup_entry :: "int \<Rightarrow> (int \<times> 'n option) list \<Rightarrow> 'n option" where
  "lookup_entry k [] = None"
| "lookup_entry k ((v, n) # es) = (if k = v then n else lookup_entry k es)"

text \<open>Running the two callbacks of a flag field or an array element: the handler's return
  code is dropped, as in \<open>xdp2_parse_flag_fields\<close> and \<open>xdp2_parse_array\<close>.\<close>

definition run_leaf ::
  "'m xdp2_parse_leaf_node \<Rightarrow> packet \<Rightarrow> nat \<Rightarrow> size_t \<Rightarrow> nat \<Rightarrow> xdp2_ctrl_data \<Rightarrow> 'm ustate
   \<Rightarrow> 'm ustate res" where
  "run_leaf nd p cp len frame ctrl us =
     bind_res (call_extract (leaf_extract_metadata nd) p (Some cp) len frame ctrl us) (\<lambda>us1.
     bind_res (call_handler (leaf_handler nd) p (Some cp) len frame ctrl us1) (\<lambda>(_, us2).
       Ok us2))"

section \<open>Contracts of the application's callbacks\<close>

text \<open>
  A callback is well behaved on a packet if, called with a header of at least \<open>m\<close> bytes
  that lies in the packet and with a frame the parser may hand out, it does not fault and
  keeps the application's invariant \<open>I\<close>.
\<close>

definition extract_ok ::
  "('m ustate \<Rightarrow> bool) \<Rightarrow> (nat \<Rightarrow> bool) \<Rightarrow> packet \<Rightarrow> nat \<Rightarrow> 'm extract_fn option \<Rightarrow> bool" where
  "extract_ok I Fr p m cb \<longleftrightarrow>
     (\<forall>f hdr len frame ctrl us. cb = Some f \<longrightarrow> m \<le> unat len \<longrightarrow> hdr + unat len \<le> length p \<longrightarrow>
        Fr frame \<longrightarrow> I us \<longrightarrow> wp I (f p (Some hdr) len frame ctrl us))"

definition handler_ok ::
  "('m ustate \<Rightarrow> bool) \<Rightarrow> (nat \<Rightarrow> bool) \<Rightarrow> packet \<Rightarrow> nat \<Rightarrow> 'm handler_fn option \<Rightarrow> bool" where
  "handler_ok I Fr p m cb \<longleftrightarrow>
     (\<forall>f hdr len frame ctrl us. cb = Some f \<longrightarrow> m \<le> unat len \<longrightarrow> hdr + unat len \<le> length p \<longrightarrow>
        Fr frame \<longrightarrow> I us \<longrightarrow> wp (\<lambda>(_, us'). I us') (f p (Some hdr) len frame ctrl us))"

definition leaf_ok ::
  "('m ustate \<Rightarrow> bool) \<Rightarrow> (nat \<Rightarrow> bool) \<Rightarrow> packet \<Rightarrow> nat \<Rightarrow> 'm xdp2_parse_leaf_node \<Rightarrow> bool" where
  "leaf_ok I Fr p m nd \<longleftrightarrow>
     extract_ok I Fr p m (leaf_extract_metadata nd) \<and> handler_ok I Fr p m (leaf_handler nd)"

section \<open>Properties of lookups and callbacks\<close>

lemma deref_Some [simp]: "heap i = Some x \<Longrightarrow> deref heap (Some i) = Ok x"
  by (simp add: deref_def)

lemma deref_None [simp]: "deref heap None = Err NullPointer"
  by (simp add: deref_def)

lemma deref_not_running [simp]: "deref heap p \<noteq> Err StillRunning"
  by (simp add: deref_def split: option.splits)

lemma wp_call_extract:
  "extract_ok I Fr p m cb \<Longrightarrow> m \<le> unat len \<Longrightarrow> hdr + unat len \<le> length p \<Longrightarrow> Fr frame \<Longrightarrow> I us \<Longrightarrow>
   wp I (call_extract cb p (Some hdr) len frame ctrl us)"
  by (cases cb) (auto simp: call_extract_def extract_ok_def)

lemma wp_call_handler:
  "handler_ok I Fr p m cb \<Longrightarrow> m \<le> unat len \<Longrightarrow> hdr + unat len \<le> length p \<Longrightarrow> Fr frame \<Longrightarrow> I us \<Longrightarrow>
   wp (\<lambda>(_, us'). I us') (call_handler cb p (Some hdr) len frame ctrl us)"
  by (cases cb) (auto simp: call_handler_def handler_ok_def)

lemma wp_run_leaf:
  assumes "leaf_ok I Fr p m nd" "m \<le> unat len" "cp + unat len \<le> length p" "Fr frame" "I us"
  shows "wp I (run_leaf nd p cp len frame ctrl us)"
proof -
  have e: "wp I (call_extract (leaf_extract_metadata nd) p (Some cp) len frame ctrl us)"
    using assms by (intro wp_call_extract [where m = m and Fr = Fr]) (auto simp: leaf_ok_def)
  have h: "wp (\<lambda>(_, us'). I us') (call_handler (leaf_handler nd) p (Some cp) len frame ctrl us1)"
    if "I us1" for us1
    using assms that by (intro wp_call_handler [where m = m and Fr = Fr]) (auto simp: leaf_ok_def)
  show ?thesis
    unfolding run_leaf_def wp_bind
    by (rule wp_mono [OF e]) (auto intro!: wp_mono [OF h])
qed

lemma extract_ok_mono: "extract_ok I Fr p m cb \<Longrightarrow> m \<le> m' \<Longrightarrow> extract_ok I Fr p m' cb"
  by (auto simp: extract_ok_def)

lemma handler_ok_mono: "handler_ok I Fr p m cb \<Longrightarrow> m \<le> m' \<Longrightarrow> handler_ok I Fr p m' cb"
  by (auto simp: handler_ok_def)

lemma extract_ok_None [simp]: "extract_ok I Fr p m None"
  by (simp add: extract_ok_def)

lemma handler_ok_None [simp]: "handler_ok I Fr p m None"
  by (simp add: handler_ok_def)

lemma lookup_entry_mem: "lookup_entry k es = Some n \<Longrightarrow> (k, Some n) \<in> set es"
  by (induction k es rule: lookup_entry.induct) (auto split: if_splits)

lemma lookup_entry_map_of: "lookup_entry k es = Option.bind (map_of es k) id"
  by (induction k es rule: lookup_entry.induct) auto

lemma lookup_entry_miss: "k \<notin> fst ` set es \<Longrightarrow> lookup_entry k es = None"
  by (induction k es rule: lookup_entry.induct) auto

end
