(* ===== verification/Tlvs.thy ===== *)
theory Tlvs
  imports Parser_Types
begin

text \<open>
  TLVs: \<open>src/include/xdp2/tlvs.h\<close>, and \<open>xdp2_parse_tlvs\<close> and \<open>xdp2_parse_one_tlv\<close> of
  \<open>src/lib/xdp2/parser.c\<close>.

  The two C functions call each other (a TLV may hold nested TLVs), and
  \<open>xdp2_parse_one_tlv\<close> jumps back to its label \<open>parse_again\<close>. Neither is bound to return:
  an overlay may lead back to itself and a TLV of length zero does not advance. The model
  takes fuel, one unit for every loop iteration and every jump to \<open>parse_again\<close>; without
  fuel the result is \<open>Err StillRunning\<close>. How much fuel is enough is part of
  the contract proved below.

  As in the source, \<open>proto_tlv_def\<close> is read once, when \<open>xdp2_parse_one_tlv\<close> is entered,
  and keeps its value when \<open>parse_tlv_node\<close> is replaced by a wildcard or overlay node.
\<close>

definition lookup_tlv_node :: "int \<Rightarrow> xdp2_proto_tlvs_table \<Rightarrow> tlv_id option" where
  "lookup_tlv_node type table = lookup_entry type table"

definition xdp2_parse_lookup_tlv :: "xdp2_parse_tlvs_node \<Rightarrow> u32 \<Rightarrow> tlv_id option res" where
  "xdp2_parse_lookup_tlv node type =
     (case tlv_proto_table node of None \<Rightarrow> Err NullPointer
      | Some t \<Rightarrow> Ok (lookup_tlv_node (sint type) t))"

text \<open>\<open>ctrl->var.tlv_levels++\<close> and \<open>--\<close>.\<close>

definition bump_tlv_levels :: "u8 \<Rightarrow> xdp2_ctrl_data \<Rightarrow> xdp2_ctrl_data" where
  "bump_tlv_levels d ctrl = ctrl\<lparr>var := (var ctrl)\<lparr>tlv_levels := tlv_levels (var ctrl) + d\<rparr>\<rparr>"

text \<open>\<open>size_t\<close> to \<open>int\<close>, for the overlay type that is the TLV length.\<close>

definition int_of_size :: "size_t \<Rightarrow> int" where
  "int_of_size n = sint (ucast n :: 32 word)"

text \<open>One-byte padding and the end-of-list mark: the byte is only read when the protocol
  enables the test.\<close>

definition tlv_byte_is :: "bool \<Rightarrow> u8 \<Rightarrow> packet \<Rightarrow> nat \<Rightarrow> bool res" where
  "tlv_byte_is enable v p cp = (if enable then map_res (\<lambda>b. b = v) (rd8 p cp) else Ok False)"

text \<open>The length of the TLV at \<open>cp\<close>: \<open>None\<close> is the \<open>XDP2_STOP_TLV_LENGTH\<close> return.\<close>

definition tlv_length :: "xdp2_proto_tlvs_def \<Rightarrow> packet \<Rightarrow> nat \<Rightarrow> size_t \<Rightarrow> size_t option res" where
  "tlv_length d p cp hlen =
     (if hlen < tlvs_min_len d then Ok None
      else (case tlvs_len d of
              None \<Rightarrow> Ok (Some (tlvs_min_len d))
            | Some f \<Rightarrow> bind_res (f p cp hlen) (\<lambda>n.
                if n = 0 \<or> hlen < n then Ok None else Ok (Some n))))"

type_synonym 'm tlv_result = "(int \<times> xdp2_ctrl_data \<times> 'm ustate) res"
type_synonym 'm nested_parser =
  "'m xdp2_parse_node \<Rightarrow> nat \<Rightarrow> size_t \<Rightarrow> nat \<Rightarrow> xdp2_ctrl_data \<Rightarrow> 'm ustate \<Rightarrow> 'm tlv_result"

text \<open>The step of \<open>xdp2_parse_one_tlv\<close> into nested TLVs; \<open>nested\<close> is \<open>xdp2_parse_tlvs\<close>.\<close>

definition parse_nested ::
  "'m nested_parser \<Rightarrow> 'm xdp2_parser \<Rightarrow> packet \<Rightarrow> xdp2_proto_tlv_def option
   \<Rightarrow> 'm xdp2_parse_tlv_node \<Rightarrow> nat \<Rightarrow> size_t \<Rightarrow> nat \<Rightarrow> xdp2_ctrl_data \<Rightarrow> 'm ustate \<Rightarrow> 'm tlv_result"
  where
  "parse_nested nested P p ptd nd hdr tlen frame ctrl us =
     (case nested_node nd of
        None \<Rightarrow> Ok (XDP2_OKAY, ctrl, us)
      | Some n \<Rightarrow>
          bind_res (case ptd of None \<Rightarrow> Err NullPointer
                    | Some d \<Rightarrow> (case nested_offset d of None \<Rightarrow> Ok 0
                                | Some f \<Rightarrow> f p hdr tlen)) (\<lambda>noff.
          bind_res (deref (nodes P) (Some n)) (\<lambda>nn.
          bind_res (nested nn (hdr + unat noff) (tlen - noff) frame
                      (bump_tlv_levels 1 ctrl) us) (\<lambda>(ret, ctrl', us').
          Ok (ret, bump_tlv_levels (- 1) ctrl', us')))))"

text \<open>The overlay node to parse next, if there is one: the last part of
  \<open>xdp2_parse_one_tlv\<close>. \<open>Inl\<close> is a return code, \<open>Inr\<close> the node of the next round.\<close>

definition next_overlay ::
  "packet \<Rightarrow> xdp2_proto_tlv_def option \<Rightarrow> 'm xdp2_parse_tlv_node \<Rightarrow> nat \<Rightarrow> size_t \<Rightarrow> (int + tlv_id) res"
  where
  "next_overlay p ptd nd hdr tlen =
     (case overlay_table nd of
        None \<Rightarrow> Ok (Inl XDP2_OKAY)
      | Some ot \<Rightarrow>
          bind_res (case ptd of None \<Rightarrow> Err NullPointer
                    | Some d \<Rightarrow> (case overlay_type d of
                                  None \<Rightarrow> Ok (int_of_size tlen)
                                | Some f \<Rightarrow> f p hdr)) (\<lambda>ty.
          Ok (case lookup_tlv_node ty ot of
                Some n \<Rightarrow> Inr n
              | None \<Rightarrow> (case overlay_wildcard_node nd of
                           Some n \<Rightarrow> Inr n
                         | None \<Rightarrow> Inl (unknown_overlay_ret nd)))))"

text \<open>\<open>xdp2_parse_one_tlv\<close> from its label \<open>parse_again\<close>.\<close>

primrec parse_again ::
  "nat \<Rightarrow> 'm nested_parser \<Rightarrow> 'm xdp2_parser \<Rightarrow> packet \<Rightarrow> xdp2_parse_tlvs_node
   \<Rightarrow> xdp2_proto_tlv_def option \<Rightarrow> tlv_id \<Rightarrow> nat \<Rightarrow> size_t \<Rightarrow> nat \<Rightarrow> xdp2_ctrl_data \<Rightarrow> 'm ustate
   \<Rightarrow> 'm tlv_result" where
  "parse_again 0 nested P p tn ptd nid hdr tlen frame ctrl us = Err StillRunning"
| "parse_again (Suc fuel) nested P p tn ptd nid hdr tlen frame ctrl us =
     (if (case ptd of None \<Rightarrow> False | Some d \<Rightarrow> tlen < tlv_min_len d) then
        (case tlv_wildcard_node tn of
           None \<Rightarrow> Ok (unknown_tlv_type_ret tn, ctrl, us)
         | Some w \<Rightarrow> parse_again fuel nested P p tn ptd w hdr tlen frame ctrl us)
      else
        bind_res (deref (tlv_nodes P) (Some nid)) (\<lambda>nd.
        bind_res (call_extract (tlv_extract_metadata nd) p (Some hdr) tlen frame ctrl us) (\<lambda>us1.
        bind_res (call_handler (tlv_handler nd) p (Some hdr) tlen frame ctrl us1) (\<lambda>(ret, us2).
        if ret \<noteq> XDP2_OKAY then Ok (ret, ctrl, us2)
        else
          bind_res (parse_nested nested P p ptd nd hdr tlen frame ctrl us2) (\<lambda>(ret, ctrl3, us3).
          if ret \<noteq> XDP2_OKAY then Ok (ret, ctrl3, us3)
          else
            bind_res (next_overlay p ptd nd hdr tlen) (\<lambda>nxt.
            (case nxt of
               Inl r \<Rightarrow> Ok (r, ctrl3, us3)
             | Inr n \<Rightarrow> parse_again fuel nested P p tn ptd n hdr tlen frame ctrl3 us3)))))))"

text \<open>\<open>xdp2_parse_one_tlv\<close>: \<open>proto_tlv_def\<close> is that of the node it is called with.\<close>

definition xdp2_parse_one_tlv ::
  "nat \<Rightarrow> 'm nested_parser \<Rightarrow> 'm xdp2_parser \<Rightarrow> packet \<Rightarrow> xdp2_parse_tlvs_node \<Rightarrow> tlv_id \<Rightarrow> nat
   \<Rightarrow> size_t \<Rightarrow> nat \<Rightarrow> xdp2_ctrl_data \<Rightarrow> 'm ustate \<Rightarrow> 'm tlv_result" where
  "xdp2_parse_one_tlv fuel nested P p tn nid hdr tlen frame ctrl us =
     bind_res (deref (tlv_nodes P) (Some nid)) (\<lambda>nd.
     parse_again fuel nested P p tn (tlv_def nd) nid hdr tlen frame ctrl us)"

text \<open>The part of \<open>xdp2_parse_tlvs\<close> before its loop; \<open>loop\<close> is the loop.\<close>

definition enter_tlvs ::
  "(xdp2_parse_tlvs_node \<Rightarrow> xdp2_proto_tlvs_def \<Rightarrow> nat \<Rightarrow> size_t \<Rightarrow> nat \<Rightarrow> xdp2_ctrl_data
    \<Rightarrow> 'm ustate \<Rightarrow> 'm tlv_result) \<Rightarrow> packet \<Rightarrow> 'm nested_parser" where
  "enter_tlvs loop p nn hdr hlen frame ctrl us =
     (case pn_proto_def nn of
        None \<Rightarrow> Err NullPointer
      | Some pd \<Rightarrow>
          (case (pn_super nn, pd_super pd) of
             (TlvsNode tn, TlvsDef d) \<Rightarrow>
               bind_res (tlvs_start_offset d p hdr) (\<lambda>off.
               loop tn d (hdr + unat off) (hlen - off) frame ctrl us)
           | _ \<Rightarrow> Err BadCast))"

text \<open>The node for a TLV: from the table, else the wildcard node.\<close>

definition find_tlv :: "xdp2_parse_tlvs_node \<Rightarrow> int \<Rightarrow> tlv_id option" where
  "find_tlv tn ty =
     (case (case tlv_proto_table tn of None \<Rightarrow> None | Some t \<Rightarrow> lookup_tlv_node ty t) of
        Some n \<Rightarrow> Some n
      | None \<Rightarrow> tlv_wildcard_node tn)"

text \<open>The \<open>while (hlen > 0)\<close> loop of \<open>xdp2_parse_tlvs\<close>.\<close>

primrec parse_tlvs_loop ::
  "nat \<Rightarrow> 'm xdp2_parser \<Rightarrow> packet \<Rightarrow> xdp2_parse_tlvs_node \<Rightarrow> xdp2_proto_tlvs_def \<Rightarrow> u32
   \<Rightarrow> nat \<Rightarrow> size_t \<Rightarrow> nat \<Rightarrow> xdp2_ctrl_data \<Rightarrow> 'm ustate \<Rightarrow> 'm tlv_result" where
  "parse_tlvs_loop 0 P p tn d cnt cp hlen frame ctrl us = Err StillRunning"
| "parse_tlvs_loop (Suc fuel) P p tn d cnt cp hlen frame ctrl us =
     (if hlen = 0 then Ok (XDP2_OKAY, ctrl, us)
      else
        bind_res (tlv_byte_is (pad1_enable d) (pad1_val d) p cp) (\<lambda>pad.
        if pad then parse_tlvs_loop fuel P p tn d cnt (cp + 1) (hlen - 1) frame ctrl us
        else
          bind_res (tlv_byte_is (eol_enable d) (eol_val d) p cp) (\<lambda>eol.
          if eol then Ok (XDP2_OKAY, ctrl, us)
          else if max_tlvs tn \<noteq> 0 \<and> unat (max_tlvs tn) < unat (cnt + 1)
          then Ok (XDP2_STOP_OPTION_LIMIT, ctrl, us)
          else
            bind_res (tlv_length d p cp hlen) (\<lambda>lenr.
            (case lenr of
               None \<Rightarrow> Ok (XDP2_STOP_TLV_LENGTH, ctrl, us)
             | Some tlen \<Rightarrow>
                 bind_res (tlvs_type d p cp) (\<lambda>ty.
                 (case find_tlv tn ty of
                    Some nid \<Rightarrow>
                      bind_res (xdp2_parse_one_tlv fuel
                                  (enter_tlvs (\<lambda>tn' d'. parse_tlvs_loop fuel P p tn' d' 0) p)
                                  P p tn nid cp tlen frame ctrl us)
                        (\<lambda>(ret, ctrl', us').
                         if ret \<noteq> XDP2_OKAY then Ok (ret, ctrl', us')
                         else parse_tlvs_loop fuel P p tn d (cnt + 1) (cp + unat tlen) (hlen - tlen)
                                frame ctrl' us')
                  | None \<Rightarrow>
                      if unknown_tlv_type_ret tn \<noteq> XDP2_OKAY
                      then Ok (unknown_tlv_type_ret tn, ctrl, us)
                      else parse_tlvs_loop fuel P p tn d (cnt + 1) (cp + unat tlen) (hlen - tlen)
                             frame ctrl us)))))))"

definition xdp2_parse_tlvs :: "nat \<Rightarrow> 'm xdp2_parser \<Rightarrow> packet \<Rightarrow> 'm nested_parser" where
  "xdp2_parse_tlvs fuel P p = enter_tlvs (\<lambda>tn d. parse_tlvs_loop fuel P p tn d 0) p"

section \<open>Contract of a graph of TLV nodes\<close>

text \<open>
  \<open>T\<close> are the TLV nodes in use. \<open>M i\<close> is the number of bytes the callbacks of node \<open>i\<close>
  may rely on: for a node reached from a table at most the minimal length of its own
  definition, for an overlay node at most that of the node it overlays, since the length
  check is not repeated; an overlay that is selected by the length of the TLV may rely on
  that length. \<open>rk\<close> ranks the nodes so that overlays and nested TLVs lead to a
  smaller rank.
\<close>

definition tlv_entries :: "xdp2_parse_tlvs_node \<Rightarrow> tlv_id set" where
  "tlv_entries tn =
     {n. \<exists>t k. tlv_proto_table tn = Some t \<and> (k, Some n) \<in> set t} \<union>
     {w. tlv_wildcard_node tn = Some w}"

text \<open>The operations of a protocol definition for TLVs read only the bytes they are given.\<close>

definition tlvs_def_ok :: "packet \<Rightarrow> nat \<Rightarrow> xdp2_proto_tlvs_def \<Rightarrow> bool" where
  "tlvs_def_ok p m d \<longleftrightarrow>
     (\<forall>hdr (hlen :: size_t). m \<le> unat hlen \<longrightarrow> hdr + unat hlen \<le> length p \<longrightarrow>
        wp (\<lambda>off. unat off \<le> unat hlen) (tlvs_start_offset d p hdr)) \<and>
     (\<forall>f cp hlen. tlvs_len d = Some f \<longrightarrow> tlvs_min_len d \<le> hlen \<longrightarrow> hlen \<noteq> 0 \<longrightarrow>
        cp + unat hlen \<le> length p \<longrightarrow> wp (\<lambda>_. True) (f p cp hlen)) \<and>
     (\<forall>cp hlen. tlvs_min_len d \<le> hlen \<longrightarrow> hlen \<noteq> 0 \<longrightarrow> cp + unat hlen \<le> length p \<longrightarrow>
        wp (\<lambda>_. True) (tlvs_type d p cp)) \<and>
     (tlvs_len d \<noteq> None \<or> tlvs_min_len d \<noteq> 0)"

text \<open>The operations of a single TLV's definition.\<close>

definition tlv_def_ok :: "packet \<Rightarrow> xdp2_proto_tlv_def \<Rightarrow> bool" where
  "tlv_def_ok p d \<longleftrightarrow>
     (\<forall>f hdr tlen. overlay_type d = Some f \<longrightarrow> tlv_min_len d \<le> tlen \<longrightarrow>
        hdr + unat tlen \<le> length p \<longrightarrow> wp (\<lambda>_. True) (f p hdr)) \<and>
     (\<forall>f hdr tlen. nested_offset d = Some f \<longrightarrow> tlv_min_len d \<le> tlen \<longrightarrow>
        hdr + unat tlen \<le> length p \<longrightarrow> wp (\<lambda>off. unat off \<le> unat tlen) (f p hdr tlen))"

text \<open>A TLV node that a table or a wildcard can select.\<close>

definition tlv_entry_ok ::
  "packet \<Rightarrow> (tlv_id \<Rightarrow> nat) \<Rightarrow> xdp2_parse_tlvs_node \<Rightarrow> tlv_id \<Rightarrow> 'm xdp2_parse_tlv_node \<Rightarrow> bool" where
  "tlv_entry_ok p M tn i nd \<longleftrightarrow>
     (case tlv_def nd of
        None \<Rightarrow> M i = 0 \<and> overlay_table nd = None \<and> nested_node nd = None
      | Some d \<Rightarrow> tlv_def_ok p d \<and> M i \<le> unat (tlv_min_len d) \<and>
                  (tlv_min_len d = 0 \<or> tlv_wildcard_node tn = None))"

definition tlvs_node_ok ::
  "'m xdp2_parser \<Rightarrow> packet \<Rightarrow> tlv_id set \<Rightarrow> (tlv_id \<Rightarrow> nat) \<Rightarrow> (tlv_id \<Rightarrow> nat) \<Rightarrow> nat
   \<Rightarrow> xdp2_parse_tlvs_node \<Rightarrow> bool" where
  "tlvs_node_ok P p T M rk R tn \<longleftrightarrow>
     (\<forall>i\<in>tlv_entries tn. i \<in> T \<and> rk i < R \<and>
        (\<exists>nd. tlv_nodes P i = Some nd \<and> tlv_entry_ok p M tn i nd))"

text \<open>A node with overlays whose definition has no \<open>overlay_type\<close>: the key is the length.\<close>

definition len_keyed :: "'m xdp2_parser \<Rightarrow> tlv_id \<Rightarrow> bool" where
  "len_keyed P i \<longleftrightarrow> (\<exists>nd d. tlv_nodes P i = Some nd \<and> overlay_table nd \<noteq> None \<and>
     tlv_def nd = Some d \<and> overlay_type d = None)"

text \<open>Every node in use: its callbacks, its overlays and its nested TLVs.\<close>

definition tlv_node_ok ::
  "'m xdp2_parser \<Rightarrow> packet \<Rightarrow> ('m ustate \<Rightarrow> bool) \<Rightarrow> (nat \<Rightarrow> bool) \<Rightarrow> tlv_id set
   \<Rightarrow> (tlv_id \<Rightarrow> nat) \<Rightarrow> (tlv_id \<Rightarrow> nat) \<Rightarrow> tlv_id \<Rightarrow> 'm xdp2_parse_tlv_node \<Rightarrow> bool" where
  "tlv_node_ok P p I Fr T M rk i nd \<longleftrightarrow>
     extract_ok I Fr p (M i) (tlv_extract_metadata nd) \<and>
     handler_ok I Fr p (M i) (tlv_handler nd) \<and>
     (\<forall>t k j. overlay_table nd = Some t \<longrightarrow> (k, Some j) \<in> set t \<longrightarrow>
        j \<in> T \<and> rk j < rk i \<and> (len_keyed P j \<longrightarrow> len_keyed P i) \<and>
        (M j \<le> M i \<or> len_keyed P i \<and> int (M j) \<le> k)) \<and>
     (\<forall>j. overlay_wildcard_node nd = Some j \<longrightarrow>
        j \<in> T \<and> rk j < rk i \<and> (len_keyed P j \<longrightarrow> len_keyed P i) \<and> M j \<le> M i) \<and>
     (\<forall>n. nested_node nd = Some n \<longrightarrow>
        (\<exists>nn pd tn d. nodes P n = Some nn \<and> pn_proto_def nn = Some pd \<and>
           pn_super nn = TlvsNode tn \<and> pd_super pd = TlvsDef d \<and>
           tlvs_def_ok p 0 d \<and> tlvs_node_ok P p T M rk (rk i) tn))"

locale tlv_graph =
  fixes P :: "'m xdp2_parser" and p :: packet
    and I :: "'m ustate \<Rightarrow> bool" and Fr :: "nat \<Rightarrow> bool"
    and T :: "tlv_id set" and M :: "tlv_id \<Rightarrow> nat" and rk :: "tlv_id \<Rightarrow> nat"
  assumes graph_node: "i \<in> T \<Longrightarrow> \<exists>nd. tlv_nodes P i = Some nd \<and> tlv_node_ok P p I Fr T M rk i nd"
begin

definition tlv_post :: "xdp2_ctrl_data \<Rightarrow> int \<times> xdp2_ctrl_data \<times> 'm ustate \<Rightarrow> bool" where
  "tlv_post ctrl = (\<lambda>(ret, ctrl', us'). ctrl' = ctrl \<and> I us')"

text \<open>What the parser of nested TLVs must do, for headers of the packet and small ranks.\<close>

definition nested_spec :: "'m nested_parser \<Rightarrow> nat \<Rightarrow> bool" where
  "nested_spec nested R \<longleftrightarrow>
     (\<forall>nn pd tn d hdr hlen frame ctrl us. pn_proto_def nn = Some pd \<longrightarrow>
        pn_super nn = TlvsNode tn \<longrightarrow> pd_super pd = TlvsDef d \<longrightarrow> tlvs_def_ok p 0 d \<longrightarrow>
        tlvs_node_ok P p T M rk R tn \<longrightarrow> hdr + unat hlen \<le> length p \<longrightarrow> Fr frame \<longrightarrow> I us \<longrightarrow>
        wp (tlv_post ctrl) (nested nn hdr hlen frame ctrl us))"

lemma bump_tlv_levels_inverse: "bump_tlv_levels (- 1) (bump_tlv_levels 1 ctrl) = ctrl"
  by (simp add: bump_tlv_levels_def)

lemma wp_parse_nested:
  assumes nd: "tlv_node_ok P p I Fr T M rk i nd" and nested: "nested_spec nested (rk i)"
    and ptd: "\<And>n. nested_node nd = Some n \<Longrightarrow> \<exists>d. ptd = Some d \<and> tlv_def_ok p d \<and> tlv_min_len d \<le> tlen"
    and fit: "hdr + unat tlen \<le> length p" and fr: "Fr frame" and us: "I us"
  shows "wp (tlv_post ctrl) (parse_nested nested P p ptd nd hdr tlen frame ctrl us)"
proof (cases "nested_node nd")
  case None
  then show ?thesis using us by (simp add: parse_nested_def tlv_post_def)
next
  case (Some n)
  obtain d where d: "ptd = Some d" "tlv_def_ok p d" "tlv_min_len d \<le> tlen"
    using ptd [OF Some] by blast
  obtain nn pd tn d' where nn: "nodes P n = Some nn" "pn_proto_def nn = Some pd"
    "pn_super nn = TlvsNode tn" "pd_super pd = TlvsDef d'" "tlvs_def_ok p 0 d'"
    "tlvs_node_ok P p T M rk (rk i) tn"
    using nd Some unfolding tlv_node_ok_def by blast
  have "wp (\<lambda>off. unat off \<le> unat tlen)
      (case nested_offset d of None \<Rightarrow> Ok 0 | Some f \<Rightarrow> f p hdr tlen)"
    using d(2,3) fit by (auto simp: tlv_def_ok_def split: option.split)
  then obtain noff where noff: "(case nested_offset d of None \<Rightarrow> Ok 0 | Some f \<Rightarrow> f p hdr tlen) = Ok noff"
    "unat noff \<le> unat tlen" by (auto simp: wp_iff)
  have "unat (tlen - noff) = unat tlen - unat noff"
    using noff(2) by (simp add: unat_sub word_le_nat_alt)
  then have "wp (tlv_post (bump_tlv_levels 1 ctrl))
      (nested nn (hdr + unat noff) (tlen - noff) frame (bump_tlv_levels 1 ctrl) us)"
    using nested nn fr us fit noff(2) by (auto simp: nested_spec_def)
  then show ?thesis
    using Some d(1) nn(1) noff(1)
    by (auto simp: parse_nested_def tlv_post_def bump_tlv_levels_inverse elim!: wp_mono)
qed

lemma tlvs_node_ok_mono: "tlvs_node_ok P p T M rk R tn \<Longrightarrow> R \<le> R' \<Longrightarrow> tlvs_node_ok P p T M rk R' tn"
  by (fastforce simp: tlvs_node_ok_def)

lemma nested_spec_antimono: "nested_spec nested R' \<Longrightarrow> R \<le> R' \<Longrightarrow> nested_spec nested R"
  unfolding nested_spec_def by (blast intro: tlvs_node_ok_mono)

lemma int_of_size_le:
  assumes "int m \<le> int_of_size n" shows "m \<le> unat n"
proof -
  let ?w = "ucast n :: 32 word"
  have "take_bit 32 (uint ?w) \<le> uint ?w" by (simp add: take_bit_int_less_eq_self_iff)
  then have "sint ?w \<le> uint ?w"
    by (auto simp: sint_uint signed_take_bit_eq_take_bit_minus)
  also have "uint ?w = int (unat ?w)" by simp
  also have "unat ?w = unat n mod 2 ^ 32" by (simp add: unsigned_ucast_eq take_bit_nat_def)
  finally have "int m \<le> int (unat n mod 2 ^ 32)" using assms unfolding int_of_size_def by linarith
  then have "m \<le> unat n mod 2 ^ 32" by (simp only: of_nat_le_iff)
  also have "\<dots> \<le> unat n" by (rule mod_less_eq_dividend)
  finally show ?thesis .
qed

text \<open>The overlay that comes next is a node of smaller rank that relies on bytes of the TLV.\<close>

definition overlay_post :: "tlv_id \<Rightarrow> size_t \<Rightarrow> tlv_id \<Rightarrow> bool" where
  "overlay_post i tlen j \<longleftrightarrow> j \<in> T \<and> M j \<le> unat tlen \<and> rk j < rk i \<and> (len_keyed P j \<longrightarrow> len_keyed P i)"

lemma wp_next_overlay:
  assumes nd: "tlv_node_ok P p I Fr T M rk i nd"
    and ptd: "\<And>t. overlay_table nd = Some t \<Longrightarrow> \<exists>d. ptd = Some d \<and> tlv_def_ok p d \<and> tlv_min_len d \<le> tlen"
    and key: "len_keyed P i \<Longrightarrow> \<exists>d. ptd = Some d \<and> overlay_type d = None"
    and fit: "hdr + unat tlen \<le> length p" and M: "M i \<le> unat tlen"
  shows "wp (\<lambda>nxt. \<forall>j. nxt = Inr j \<longrightarrow> ptd \<noteq> None \<and> overlay_post i tlen j)
           (next_overlay p ptd nd hdr tlen)"
proof (cases "overlay_table nd")
  case None
  then show ?thesis by (simp add: next_overlay_def)
next
  case (Some ot)
  obtain d where d: "ptd = Some d" "tlv_def_ok p d" "tlv_min_len d \<le> tlen"
    using ptd [OF Some] by blast
  have "wp (\<lambda>_. True) (case overlay_type d of None \<Rightarrow> Ok (int_of_size tlen) | Some f \<Rightarrow> f p hdr)"
    using d(2,3) fit by (auto simp: tlv_def_ok_def split: option.split)
  then obtain ty where
    ty: "(case overlay_type d of None \<Rightarrow> Ok (int_of_size tlen) | Some f \<Rightarrow> f p hdr) = Ok ty"
    by (auto simp: wp_iff)
  have "overlay_post i tlen j" if "lookup_tlv_node ty ot = Some j" for j
  proof -
    have "j \<in> T \<and> rk j < rk i \<and> (len_keyed P j \<longrightarrow> len_keyed P i) \<and>
        (M j \<le> M i \<or> len_keyed P i \<and> int (M j) \<le> ty)"
      using that nd Some lookup_entry_mem [of ty ot j]
      by (auto simp: lookup_tlv_node_def tlv_node_ok_def)
    moreover have "ty = int_of_size tlen" if "len_keyed P i" using key [OF that] d(1) ty by auto
    ultimately show ?thesis using M int_of_size_le [of "M j" tlen] by (auto simp: overlay_post_def)
  qed
  moreover have "overlay_post i tlen j" if "overlay_wildcard_node nd = Some j" for j
    using that nd M by (auto simp: tlv_node_ok_def overlay_post_def)
  ultimately show ?thesis
    using Some d(1) ty by (auto simp: next_overlay_def split: option.splits)
qed

definition chain_ok :: "xdp2_parse_tlvs_node \<Rightarrow> xdp2_proto_tlv_def option \<Rightarrow> tlv_id \<Rightarrow> size_t \<Rightarrow> bool" where
  "chain_ok tn ptd i tlen \<longleftrightarrow> i \<in> T \<and> (len_keyed P i \<longrightarrow> (\<exists>d. ptd = Some d \<and> overlay_type d = None)) \<and>
     (case ptd of
        None \<Rightarrow> M i = 0 \<and>
          (\<forall>nd. tlv_nodes P i = Some nd \<longrightarrow> overlay_table nd = None \<and> nested_node nd = None)
      | Some d \<Rightarrow> tlv_def_ok p d \<and> (tlen < tlv_min_len d \<longrightarrow> tlv_wildcard_node tn = None) \<and>
          (tlv_min_len d \<le> tlen \<longrightarrow> M i \<le> unat tlen))"

lemma wp_parse_again:
  assumes "chain_ok tn ptd i tlen" "rk i < fuel" "nested_spec nested (rk i)"
    "hdr + unat tlen \<le> length p" "Fr frame" "I us"
  shows "wp (tlv_post ctrl) (parse_again fuel nested P p tn ptd i hdr tlen frame ctrl us)"
  using assms
proof (induction fuel arbitrary: i us ptd)
  case 0
  then show ?case by simp
next
  case (Suc fuel)
  obtain nd where nd: "tlv_nodes P i = Some nd" "tlv_node_ok P p I Fr T M rk i nd"
    using graph_node Suc.prems(1) by (auto simp: chain_ok_def)
  show ?case
  proof (cases "case ptd of None \<Rightarrow> False | Some d \<Rightarrow> tlen < tlv_min_len d")
    case True
    then have "tlv_wildcard_node tn = None"
      using Suc.prems(1) by (auto simp: chain_ok_def split: option.splits)
    with True Suc.prems(6) show ?thesis by (simp add: tlv_post_def)
  next
    case False
    have ge: "\<exists>d. ptd = Some d \<and> tlv_def_ok p d \<and> tlv_min_len d \<le> tlen" if "ptd \<noteq> None"
      using that False Suc.prems(1) by (auto simp: chain_ok_def not_less)
    have M: "M i \<le> unat tlen"
      using False Suc.prems(1) by (auto simp: chain_ok_def not_less split: option.splits)
    have some: "ptd \<noteq> None" if "nested_node nd \<noteq> None \<or> overlay_table nd \<noteq> None"
      using that nd(1) Suc.prems(1) by (auto simp: chain_ok_def split: option.splits)
    have e: "wp I (call_extract (tlv_extract_metadata nd) p (Some hdr) tlen frame ctrl us)"
      using nd(2) M Suc.prems by (intro wp_call_extract [where m = "M i" and Fr = Fr])
        (auto simp: tlv_node_ok_def)
    have h: "wp (\<lambda>(_, us'). I us') (call_handler (tlv_handler nd) p (Some hdr) tlen frame ctrl us1)"
      if "I us1" for us1
      using that nd(2) M Suc.prems by (intro wp_call_handler [where m = "M i" and Fr = Fr])
        (auto simp: tlv_node_ok_def)
    have n: "wp (tlv_post ctrl) (parse_nested nested P p ptd nd hdr tlen frame ctrl us2)"
      if "I us2" for us2
      using that nd(2) ge some Suc.prems by (intro wp_parse_nested [where i = i]) auto
    have key: "\<exists>d. ptd = Some d \<and> overlay_type d = None" if "len_keyed P i"
      using that Suc.prems(1) by (simp add: chain_ok_def)
    have o: "wp (\<lambda>nxt. \<forall>j. nxt = Inr j \<longrightarrow> ptd \<noteq> None \<and> overlay_post i tlen j)
        (next_overlay p ptd nd hdr tlen)"
      using nd(2) ge some key M Suc.prems(4) by (intro wp_next_overlay) auto
    have again: "wp (tlv_post ctrl) (parse_again fuel nested P p tn (Some y) j hdr tlen frame ctrl us3)"
      if "ptd = Some y" "overlay_post i tlen j" "I us3" for y j us3
      using that Suc.prems
      by (intro Suc.IH) (auto simp: chain_ok_def overlay_post_def split: option.splits intro: nested_spec_antimono)
    show ?thesis
      using nd(1) False
      by (auto simp: tlv_post_def intro!: wp_mono [OF e] wp_mono [OF h] wp_mono [OF n] wp_mono [OF o]
          split: sum.split) (rule again [unfolded tlv_post_def]; assumption)
  qed
qed

text \<open>The fuel that is enough for TLVs in \<open>n\<close> bytes whose nodes have ranks below \<open>R\<close>.\<close>

definition tlv_fuel :: "nat \<Rightarrow> nat \<Rightarrow> nat" where
  "tlv_fuel n R = n + 1 + R * (length p + 2)"

lemma find_tlv_entries: "find_tlv tn ty = Some i \<Longrightarrow> i \<in> tlv_entries tn"
  using lookup_entry_mem
  by (fastforce simp: find_tlv_def tlv_entries_def lookup_tlv_node_def split: option.splits)

lemma entry_chain_ok:
  assumes "tlvs_node_ok P p T M rk R tn" "i \<in> tlv_entries tn"
  obtains nd where "tlv_nodes P i = Some nd" "chain_ok tn (tlv_def nd) i tlen" "rk i < R"
proof -
  obtain nd where nd: "tlv_nodes P i = Some nd" "tlv_entry_ok p M tn i nd" "i \<in> T" "rk i < R"
    using assms by (auto simp: tlvs_node_ok_def)
  have "chain_ok tn (tlv_def nd) i tlen"
    using nd by (auto simp: chain_ok_def tlv_entry_ok_def len_keyed_def word_le_nat_alt split: option.splits)
  with nd that show ?thesis by blast
qed

lemma tlvs_def_ok_start:
  "tlvs_def_ok p m d \<Longrightarrow> m \<le> unat (hlen :: size_t) \<Longrightarrow> hdr + unat hlen \<le> length p \<Longrightarrow>
   wp (\<lambda>off. unat off \<le> unat hlen) (tlvs_start_offset d p hdr)"
  by (simp add: tlvs_def_ok_def)

lemma wp_tlv_byte_is:
  "cp < length p \<Longrightarrow> wp (\<lambda>_. True) (tlv_byte_is enable v p cp)"
  by (simp add: tlv_byte_is_def)

lemma wp_tlv_length:
  assumes "tlvs_def_ok p m d" "hlen \<noteq> 0" "cp + unat hlen \<le> length p"
  shows "wp (\<lambda>r. \<forall>n. r = Some n \<longrightarrow> n \<noteq> 0 \<and> unat n \<le> unat hlen \<and> tlvs_min_len d \<le> hlen)
           (tlv_length d p cp hlen)"
proof (cases "hlen < tlvs_min_len d")
  case True
  then show ?thesis by (simp add: tlv_length_def)
next
  case False
  show ?thesis
  proof (cases "tlvs_len d")
    case None
    then show ?thesis using assms False
      by (auto simp: tlv_length_def tlvs_def_ok_def not_less word_le_nat_alt)
  next
    case (Some f)
    then have "wp (\<lambda>_. True) (f p cp hlen)"
      using assms False by (auto simp: tlvs_def_ok_def not_less)
    then show ?thesis
      using Some False by (auto simp: tlv_length_def not_less word_le_nat_alt elim!: wp_mono)
  qed
qed

lemma wp_parse_tlvs_loop:
  assumes "tlvs_def_ok p m d" "tlvs_node_ok P p T M rk R tn" "cp + unat hlen \<le> length p"
    "tlv_fuel (unat hlen) R \<le> fuel" "Fr frame" "I us"
  shows "wp (tlv_post ctrl) (parse_tlvs_loop fuel P p tn d cnt cp hlen frame ctrl us)"
  using assms
proof (induction fuel arbitrary: m d R tn cnt cp hlen frame ctrl us)
  case 0
  then show ?case by (simp add: tlv_fuel_def)
next
  case (Suc fuel)
  show ?case
  proof (cases "hlen = 0")
    case True
    then show ?thesis using Suc.prems by (simp add: tlv_post_def)
  next
    case False
    then have pos: "0 < unat hlen" by (simp add: unat_gt_0)
    have cp: "cp < length p" using pos Suc.prems(3) by simp
    have b: "wp (\<lambda>_. True) (tlv_byte_is e v p cp)" for e v
      using cp by (rule wp_tlv_byte_is)
    have step: "wp (tlv_post ctrl)
        (parse_tlvs_loop fuel P p tn d cnt' (cp + unat n) (hlen - n) frame ctrl us')"
      if "n \<noteq> 0" "unat n \<le> unat hlen" "I us'" for n cnt' us'
    proof -
      have "unat (hlen - n) = unat hlen - unat n" using that by (simp add: unat_sub word_le_nat_alt)
      moreover have "0 < unat n" using that by (simp add: unat_gt_0)
      ultimately show ?thesis
        using that Suc.prems by (intro Suc.IH [where m = m and R = R]) (auto simp: tlv_fuel_def)
    qed
    have pad: "wp (tlv_post ctrl) (parse_tlvs_loop fuel P p tn d cnt (Suc cp) (hlen - 1) frame ctrl us)"
      using step [of 1 us cnt] pos Suc.prems(6) by simp
    have l: "wp (\<lambda>r. \<forall>n. r = Some n \<longrightarrow> n \<noteq> 0 \<and> unat n \<le> unat hlen \<and> tlvs_min_len d \<le> hlen)
        (tlv_length d p cp hlen)"
      using Suc.prems False by (intro wp_tlv_length) auto
    have ty: "wp (\<lambda>_. True) (tlvs_type d p cp)" if "tlvs_min_len d \<le> hlen"
      using that Suc.prems False by (auto simp: tlvs_def_ok_def)
    let ?nested = "enter_tlvs (\<lambda>tn' d'. parse_tlvs_loop fuel P p tn' d' 0) p"
    have nested: "nested_spec ?nested (rk i)" if "rk i < R" for i
      unfolding nested_spec_def
    proof (intro allI impI)
      fix nn :: "'m xdp2_parse_node" and pd tn' d' hdr frame' ctrl' us' and hlen' :: size_t
      assume nn: "pn_proto_def nn = Some pd" "pn_super nn = TlvsNode tn'" "pd_super pd = TlvsDef d'"
        and ok: "tlvs_def_ok p 0 d'" "tlvs_node_ok P p T M rk (rk i) tn'"
        and fit: "hdr + unat hlen' \<le> length p" and fr: "Fr frame'" and us: "I us'"
      obtain off where off: "tlvs_start_offset d' p hdr = Ok off" "unat off \<le> unat hlen'"
        using tlvs_def_ok_start [OF ok(1) _ fit] by (auto simp: wp_iff)
      have sub: "unat (hlen' - off) = unat hlen' - unat off"
        using off(2) by (simp add: unat_sub word_le_nat_alt)
      have "Suc (rk i) * (length p + 2) \<le> R * (length p + 2)"
        using that by (intro mult_le_mono1) simp
      then have "tlv_fuel (unat (hlen' - off)) (rk i) \<le> fuel"
        using Suc.prems(4) sub fit by (simp add: tlv_fuel_def)
      then have "wp (tlv_post ctrl')
          (parse_tlvs_loop fuel P p tn' d' 0 (hdr + unat off) (hlen' - off) frame' ctrl' us')"
        using ok fr us sub off(2) fit by (intro Suc.IH [where m = 0 and R = "rk i"]) auto
      then show "wp (tlv_post ctrl') (?nested nn hdr hlen' frame' ctrl' us')"
        using nn off(1) by (simp add: enter_tlvs_def)
    qed
    have one: "wp (tlv_post ctrl) (xdp2_parse_one_tlv fuel ?nested P p tn i cp n frame ctrl us)"
      if fnd: "find_tlv tn ty = Some i" and le: "unat n \<le> unat hlen" for ty i n
    proof -
      obtain nd where nd: "tlv_nodes P i = Some nd" "chain_ok tn (tlv_def nd) i n" "rk i < R"
        using entry_chain_ok [OF Suc.prems(2) find_tlv_entries [OF fnd]] by blast
      have "R * 1 \<le> R * (length p + 2)" by (intro mult_le_mono) simp_all
      then have "rk i < fuel" using nd(3) pos Suc.prems(4) by (simp add: tlv_fuel_def)
      then show ?thesis
        using nd nested le Suc.prems
        by (auto simp: xdp2_parse_one_tlv_def intro!: wp_parse_again)
    qed
    show ?thesis
      using False Suc.prems(6) pad
      by (auto simp: tlv_post_def intro!: wp_mono [OF b] wp_mono [OF l] wp_mono [OF ty]
          wp_mono [OF one] step [unfolded tlv_post_def] split: option.split)
  qed
qed

lemma wp_xdp2_parse_tlvs:
  assumes "pn_proto_def nn = Some pd" "pn_super nn = TlvsNode tn" "pd_super pd = TlvsDef d"
    "tlvs_def_ok p m d" "tlvs_node_ok P p T M rk R tn" "m \<le> unat hlen"
    "hdr + unat hlen \<le> length p" "tlv_fuel (length p) R \<le> fuel" "Fr frame" "I us"
  shows "wp (tlv_post ctrl) (xdp2_parse_tlvs fuel P p nn hdr hlen frame ctrl us)"
proof -
  obtain off where off: "tlvs_start_offset d p hdr = Ok off" "unat off \<le> unat hlen"
    using tlvs_def_ok_start [OF assms(4,6,7)] by (auto simp: wp_iff)
  have "unat (hlen - off) = unat hlen - unat off"
    using off(2) by (simp add: unat_sub word_le_nat_alt)
  then have "wp (tlv_post ctrl)
      (parse_tlvs_loop fuel P p tn d 0 (hdr + unat off) (hlen - off) frame ctrl us)"
    using assms off(2) by (intro wp_parse_tlvs_loop [where m = m and R = R]) (auto simp: tlv_fuel_def)
  then show ?thesis
    using assms(1-3) off(1) by (simp add: xdp2_parse_tlvs_def enter_tlvs_def)
qed

end

end
