(* ===== verification/Flag_Fields.thy ===== *)
theory Flag_Fields
  imports Parser_Types
begin

text \<open>
  Flag-fields: \<open>src/include/xdp2/flag_fields.h\<close> and \<open>xdp2_parse_flag_fields\<close> of
  \<open>src/lib/xdp2/parser.c\<close>. The descriptor \<open>struct xdp2_flag_fields\<close> is the list of its
  \<open>fields\<close>; \<open>num_idx\<close> is the length of that list. Reading a descriptor beyond the list
  is a fault.
\<close>

section \<open>Offsets of flag fields\<close>

definition ff_mask_or_flag :: "xdp2_flag_field \<Rightarrow> u32" where
  "ff_mask_or_flag f = (if ff_mask f \<noteq> 0 then ff_mask f else ff_flag f)"

definition ff_present :: "u32 \<Rightarrow> xdp2_flag_field \<Rightarrow> bool" where
  "ff_present flags f \<longleftrightarrow> (flags AND ff_mask_or_flag f) = ff_flag f"

text \<open>The loop of \<open>__xdp2_flag_fields_offset\<close> from index \<open>i\<close>, with the offset so far. The index
  is an \<open>int\<close> in the source and does not wrap around for tables of less than \<open>2 ^ 31\<close> fields.\<close>

function ff_offset_loop ::
  "nat \<Rightarrow> nat \<Rightarrow> u32 \<Rightarrow> xdp2_flag_field list \<Rightarrow> size_t \<Rightarrow> size_t res" where
  "ff_offset_loop i targ flags ffs offset =
     (if i < targ then
        if i < length ffs then
          ff_offset_loop (Suc i) targ flags ffs
            (if ff_present flags (ffs ! i) then offset + ff_size (ffs ! i) else offset)
        else Err OutOfBounds
      else Ok offset)"
  by pat_completeness auto
termination by (relation "measure (\<lambda>(i, targ, _). targ - i)") auto

declare ff_offset_loop.simps [simp del]

definition xdp2_flag_fields_offset0 ::
  "u32 \<Rightarrow> u32 \<Rightarrow> xdp2_flag_field list \<Rightarrow> ssize_t res" where
  "xdp2_flag_fields_offset0 targ_idx flags ffs =
     ff_offset_loop 0 (unat targ_idx) flags ffs 0"

definition xdp2_flag_fields_length :: "u32 \<Rightarrow> xdp2_flag_field list \<Rightarrow> size_t res" where
  "xdp2_flag_fields_length flags ffs =
     xdp2_flag_fields_offset0 (of_nat (length ffs)) flags ffs"

definition xdp2_flag_fields_offset ::
  "u32 \<Rightarrow> u32 \<Rightarrow> xdp2_flag_field list \<Rightarrow> ssize_t res" where
  "xdp2_flag_fields_offset targ_idx flags ffs =
     (if unat targ_idx < length ffs then
        if \<not> ff_present flags (ffs ! unat targ_idx) then Ok (- 1)
        else xdp2_flag_fields_offset0 targ_idx flags ffs
      else Err OutOfBounds)"

definition xdp2_flag_fields_check_invalid :: "u32 \<Rightarrow> u32 \<Rightarrow> bool" where
  "xdp2_flag_fields_check_invalid flags msk \<longleftrightarrow> flags AND NOT msk \<noteq> 0"

text \<open>\<open>__XDP_FLAG_FIELDS_MAKE_GET\<close> at its four widths.\<close>

definition xdp2_flag_fields_get8 ::
  "packet \<Rightarrow> nat \<Rightarrow> u32 \<Rightarrow> u32 \<Rightarrow> xdp2_flag_field list \<Rightarrow> u8 res" where
  "xdp2_flag_fields_get8 p flds targ_idx flags ff =
     bind_res (xdp2_flag_fields_offset targ_idx flags ff) (\<lambda>offset.
       if sint offset < 0 then Ok (- 1) else rd8 p (flds + unat offset))"

definition xdp2_flag_fields_get16 ::
  "packet \<Rightarrow> nat \<Rightarrow> u32 \<Rightarrow> u32 \<Rightarrow> xdp2_flag_field list \<Rightarrow> u16 res" where
  "xdp2_flag_fields_get16 p flds targ_idx flags ff =
     bind_res (xdp2_flag_fields_offset targ_idx flags ff) (\<lambda>offset.
       if sint offset < 0 then Ok (- 1) else rd16 p (flds + unat offset))"

definition xdp2_flag_fields_get32 ::
  "packet \<Rightarrow> nat \<Rightarrow> u32 \<Rightarrow> u32 \<Rightarrow> xdp2_flag_field list \<Rightarrow> u32 res" where
  "xdp2_flag_fields_get32 p flds targ_idx flags ff =
     bind_res (xdp2_flag_fields_offset targ_idx flags ff) (\<lambda>offset.
       if sint offset < 0 then Ok (- 1) else rd32 p (flds + unat offset))"

definition xdp2_flag_fields_get64 ::
  "packet \<Rightarrow> nat \<Rightarrow> u32 \<Rightarrow> u32 \<Rightarrow> xdp2_flag_field list \<Rightarrow> u64 res" where
  "xdp2_flag_fields_get64 p flds targ_idx flags ff =
     bind_res (xdp2_flag_fields_offset targ_idx flags ff) (\<lambda>offset.
       if sint offset < 0 then Ok (- 1) else rd64 p (flds + unat offset))"

section \<open>Parsing flag fields\<close>

definition lookup_flag_field_node ::
  "int \<Rightarrow> 'm leaf_table \<Rightarrow> 'm xdp2_parse_flag_field_node option" where
  "lookup_flag_field_node idx table = lookup_entry idx table"

text \<open>The \<open>for\<close> loop of \<open>xdp2_parse_flag_fields\<close> over the remaining indices.\<close>

fun parse_flag_fields_loop ::
  "nat list \<Rightarrow> u32 \<Rightarrow> xdp2_flag_field list \<Rightarrow> 'm leaf_table \<Rightarrow> packet \<Rightarrow> nat \<Rightarrow> nat
   \<Rightarrow> xdp2_ctrl_data \<Rightarrow> 'm ustate \<Rightarrow> 'm ustate res" where
  "parse_flag_fields_loop [] flags ff table p hdr frame ctrl us = Ok us"
| "parse_flag_fields_loop (i # is) flags ff table p hdr frame ctrl us =
     bind_res (xdp2_flag_fields_offset (of_nat i) flags ff) (\<lambda>off.
     if sint off < 0 then parse_flag_fields_loop is flags ff table p hdr frame ctrl us
     else (case lookup_flag_field_node (int i) table of
             None \<Rightarrow> parse_flag_fields_loop is flags ff table p hdr frame ctrl us
           | Some nd \<Rightarrow>
               bind_res (run_leaf nd p (hdr + unat off) (ff_size (ff ! i)) frame ctrl us) (\<lambda>us'.
               parse_flag_fields_loop is flags ff table p hdr frame ctrl us')))"

definition xdp2_parse_flag_fields ::
  "'m xdp2_parse_node \<Rightarrow> xdp2_proto_def \<Rightarrow> packet \<Rightarrow> nat \<Rightarrow> size_t \<Rightarrow> nat
   \<Rightarrow> xdp2_ctrl_data \<Rightarrow> 'm ustate \<Rightarrow> (int \<times> 'm ustate) res" where
  "xdp2_parse_flag_fields parse_node proto_def p hdr hlen frame ctrl us =
     (case (pn_super parse_node, pd_super proto_def) of
        (FlagFieldsNode table, FlagFieldsDef d) \<Rightarrow>
          bind_res (get_flags d p hdr) (\<lambda>flags.
          bind_res (start_fields_offset d p hdr) (\<lambda>ioff.
          bind_res (parse_flag_fields_loop [0..<length (flag_fields d)] flags (flag_fields d)
                      table p (hdr + unat ioff) frame ctrl us) (\<lambda>us'.
          Ok (XDP2_OKAY, us'))))
      | _ \<Rightarrow> Err BadCast)"

section \<open>What the offsets are\<close>

text \<open>The reference: the sizes of the present fields, added up over a list.\<close>

fun present_size :: "u32 \<Rightarrow> xdp2_flag_field list \<Rightarrow> nat" where
  "present_size flags [] = 0"
| "present_size flags (f # fs) =
     (if ff_present flags f then unat (ff_size f) else 0) + present_size flags fs"

text \<open>A descriptor table whose fields fit an address space: what every table of the
  protocol headers satisfies, by far.\<close>

definition ff_table_ok :: "xdp2_flag_field list \<Rightarrow> bool" where
  "ff_table_ok ffs \<longleftrightarrow>
     length ffs < 2 ^ 32 \<and> (\<Sum>f\<leftarrow>ffs. unat (ff_size f)) < 2 ^ 63"

lemma present_size_append:
  "present_size flags (xs @ ys) = present_size flags xs + present_size flags ys"
  by (induction xs) auto

lemma present_size_le: "present_size flags fs \<le> (\<Sum>f\<leftarrow>fs. unat (ff_size f))"
  by (induction fs) auto

lemma present_size_take_le: "present_size flags (take n fs) \<le> present_size flags fs"
  by (metis append_take_drop_id le_add1 present_size_append)

lemma present_size_take_Suc:
  "i < length fs \<Longrightarrow> present_size flags (take (Suc i) fs) =
     present_size flags (take i fs) + (if ff_present flags (fs ! i) then unat (ff_size (fs ! i)) else 0)"
  by (simp add: take_Suc_conv_app_nth present_size_append)

lemma ff_offset_loop_eq:
  assumes "i \<le> targ" "targ \<le> length ffs"
  shows "ff_offset_loop i targ flags ffs offset =
    Ok (offset + of_nat (present_size flags (drop i (take targ ffs))))"
  using assms
proof (induction i targ flags ffs offset rule: ff_offset_loop.induct)
  case (1 i targ flags ffs offset)
  show ?case
  proof (cases "i < targ")
    case True
    then have "drop i (take targ ffs) = ffs ! i # drop (Suc i) (take targ ffs)"
      using 1(3) by (simp add: Cons_nth_drop_Suc [symmetric])
    with 1 True show ?thesis
      by (subst ff_offset_loop.simps) (auto simp: algebra_simps)
  next
    case False
    then have "drop i (take targ ffs) = []" using 1 by simp
    with False show ?thesis by (subst ff_offset_loop.simps) simp
  qed
qed

lemma offset0_eq:
  assumes "unat targ \<le> length ffs"
  shows "xdp2_flag_fields_offset0 targ flags ffs =
    Ok (of_nat (present_size flags (take (unat targ) ffs)))"
  using assms by (simp add: xdp2_flag_fields_offset0_def ff_offset_loop_eq)

lemma present_size_bound: "ff_table_ok ffs \<Longrightarrow> present_size flags ffs < 2 ^ 63"
  using present_size_le [of flags ffs] by (simp add: ff_table_ok_def)

lemma length_eq:
  assumes "ff_table_ok ffs"
  shows "xdp2_flag_fields_length flags ffs = Ok (of_nat (present_size flags ffs))"
proof -
  have "unat (of_nat (length ffs) :: u32) = length ffs"
    using assms by (intro unat_of_nat_lt) (simp add: ff_table_ok_def)
  then show ?thesis by (simp add: xdp2_flag_fields_length_def offset0_eq)
qed

text \<open>A present field: its offset is the size of the present fields before it.\<close>

lemma offset_eq:
  assumes "i < length ffs" "ff_table_ok ffs"
  shows "xdp2_flag_fields_offset (of_nat i) flags ffs =
    Ok (if ff_present flags (ffs ! i) then of_nat (present_size flags (take i ffs)) else - 1)"
proof -
  have "unat (of_nat i :: u32) = i"
    using assms by (intro unat_of_nat_lt) (simp add: ff_table_ok_def)
  then show ?thesis using assms by (simp add: xdp2_flag_fields_offset_def offset0_eq)
qed

lemma present_size_take_bound:
  "ff_table_ok ffs \<Longrightarrow> present_size flags (take i ffs) < 2 ^ 63"
  using present_size_bound present_size_take_le le_less_trans by blast

lemma offset_sint:
  assumes "i < length ffs" "ff_table_ok ffs" "ff_present flags (ffs ! i)"
  shows "\<exists>off. xdp2_flag_fields_offset (of_nat i) flags ffs = Ok off \<and>
           unat off = present_size flags (take i ffs) \<and> \<not> sint off < 0"
proof -
  let ?n = "present_size flags (take i ffs)"
  have n: "?n < 2 ^ 63" using assms(2) by (rule present_size_take_bound)
  then have u: "unat (of_nat ?n :: 64 word) = ?n" by (intro unat_of_nat_lt) simp
  have "\<not> sint (of_nat ?n :: 64 word) < 0" using n u by (simp add: sint_negative_iff)
  with u assms show ?thesis by (simp add: offset_eq)
qed

section \<open>Contract of a flag-fields node\<close>

definition ff_leaf_table_ok ::
  "('m ustate \<Rightarrow> bool) \<Rightarrow> (nat \<Rightarrow> bool) \<Rightarrow> packet \<Rightarrow> xdp2_flag_field list \<Rightarrow> 'm leaf_table \<Rightarrow> bool"
  where
  "ff_leaf_table_ok I Fr p ff table \<longleftrightarrow>
     (\<forall>k nd. (k, Some nd) \<in> set table \<longrightarrow> 0 \<le> k \<longrightarrow> nat k < length ff \<longrightarrow>
        leaf_ok I Fr p (unat (ff_size (ff ! nat k))) nd)"

text \<open>
  The protocol side: the flags and the start of the fields can be read from a header of
  \<open>hlen\<close> bytes, and the header is long enough for every field its flags announce.
\<close>

definition ff_def_ok :: "packet \<Rightarrow> nat \<Rightarrow> size_t \<Rightarrow> xdp2_proto_flag_fields_def \<Rightarrow> bool" where
  "ff_def_ok p hdr hlen d \<longleftrightarrow> ff_table_ok (flag_fields d) \<and>
     wp (\<lambda>flags. wp (\<lambda>ioff.
           unat ioff + present_size flags (flag_fields d) \<le> unat hlen)
         (start_fields_offset d p hdr)) (get_flags d p hdr)"

lemma wp_parse_flag_fields_loop:
  assumes "ff_table_ok ff" "\<forall>i\<in>set is. i < length ff"
    "hdr + present_size flags ff \<le> length p"
    "ff_leaf_table_ok I Fr p ff table" "Fr frame" "I us"
  shows "wp I (parse_flag_fields_loop is flags ff table p hdr frame ctrl us)"
  using assms(2,6)
proof (induction "is" arbitrary: us)
  case Nil
  then show ?case by simp
next
  case (Cons i "is")
  have i: "i < length ff" and rest: "\<And>us. I us \<Longrightarrow>
      wp I (parse_flag_fields_loop is flags ff table p hdr frame ctrl us)"
    using Cons by simp_all
  show ?case
  proof (cases "ff_present flags (ff ! i)")
    case False
    then have "xdp2_flag_fields_offset (of_nat i) flags ff = Ok (- 1)"
      using i assms(1) by (simp add: offset_eq)
    then show ?thesis using rest Cons.prems by simp
  next
    case True
    obtain off where off: "xdp2_flag_fields_offset (of_nat i) flags ff = Ok off"
      "unat off = present_size flags (take i ff)" "\<not> sint off < 0"
      using offset_sint [OF i assms(1) True] by blast
    have fit: "unat off + unat (ff_size (ff ! i)) \<le> present_size flags ff"
      using present_size_take_Suc [OF i, of flags] present_size_take_le [of flags "Suc i" ff]
        off(2) True by simp
    show ?thesis
    proof (cases "lookup_flag_field_node (int i) table")
      case None
      with off rest Cons.prems show ?thesis by simp
    next
      case (Some nd)
      then have "leaf_ok I Fr p (unat (ff_size (ff ! i))) nd"
        using i assms(4) lookup_entry_mem [of "int i" table nd]
        by (force simp: ff_leaf_table_ok_def lookup_flag_field_node_def)
      then have "wp I (run_leaf nd p (hdr + unat off) (ff_size (ff ! i)) frame ctrl us)"
        using Cons.prems assms fit by (intro wp_run_leaf [where Fr = Fr]) auto
      with off Some rest show ?thesis by (auto elim!: wp_mono)
    qed
  qed
qed

lemma wp_xdp2_parse_flag_fields:
  assumes "pn_super nd = FlagFieldsNode table" "pd_super pd = FlagFieldsDef d"
    "ff_def_ok p hdr hlen d" "hdr + unat hlen \<le> length p"
    "ff_leaf_table_ok I Fr p (flag_fields d) table" "Fr frame" "I us"
  shows "wp (\<lambda>(ret, us'). ret = XDP2_OKAY \<and> I us')
           (xdp2_parse_flag_fields nd pd p hdr hlen frame ctrl us)"
proof -
  obtain flags ioff where f: "get_flags d p hdr = Ok flags" "start_fields_offset d p hdr = Ok ioff"
    "unat ioff + present_size flags (flag_fields d) \<le> unat hlen" "ff_table_ok (flag_fields d)"
    using assms(3) by (auto simp: ff_def_ok_def wp_iff)
  have "wp I (parse_flag_fields_loop [0..<length (flag_fields d)] flags (flag_fields d) table p
          (hdr + unat ioff) frame ctrl us)"
    using f assms by (intro wp_parse_flag_fields_loop [where Fr = Fr]) auto
  with f assms(1,2) show ?thesis
    by (auto simp: xdp2_parse_flag_fields_def elim!: wp_mono)
qed

end
