(* ===== verification/Arrays.thy ===== *)
theory Arrays
  imports Parser_Types
begin

text \<open>
  Arrays: \<open>src/include/xdp2/arrays.h\<close> and \<open>xdp2_parse_array\<close> of
  \<open>src/lib/xdp2/parser.c\<close>. The header length left is a \<open>size_t\<close> and wraps around as in
  the source: the loop compares it with zero only, never with the element length.
\<close>

definition lookup_array_node :: "int \<Rightarrow> 'm leaf_table \<Rightarrow> 'm xdp2_parse_arrel_node option" where
  "lookup_array_node type table = lookup_entry type table"

text \<open>
  The \<open>for\<close> loop, with the number of elements that are left (\<open>num_els - i\<close>), the element
  pointer \<open>cp\<close> and the header length left. The result is the return code and the state.
\<close>

fun parse_array_loop ::
  "nat \<Rightarrow> 'm xdp2_parse_array_node \<Rightarrow> xdp2_proto_array_def \<Rightarrow> packet \<Rightarrow> nat \<Rightarrow> size_t \<Rightarrow> nat
   \<Rightarrow> xdp2_ctrl_data \<Rightarrow> 'm ustate \<Rightarrow> (int \<times> 'm ustate) res" where
  "parse_array_loop 0 an d p cp hlen frame ctrl us = Ok (XDP2_OKAY, us)"
| "parse_array_loop (Suc left) an d p cp hlen frame ctrl us =
     (if hlen = 0 then Ok (XDP2_STOP_LENGTH, us)
      else bind_res (case el_type d of None \<Rightarrow> Ok 0 | Some f \<Rightarrow> f p cp) (\<lambda>ty.
        if ty < 0 then Ok (ty, us)
        else
          (case (case array_proto_table an of None \<Rightarrow> None | Some t \<Rightarrow> lookup_array_node ty t) of
             Some nd \<Rightarrow>
               bind_res (run_leaf nd p cp (el_length d) frame ctrl us) (\<lambda>us'.
               parse_array_loop left an d p (cp + unat (el_length d)) (hlen - el_length d) frame ctrl us')
           | None \<Rightarrow>
               (case array_wildcard_node an of
                  Some nd \<Rightarrow>
                    bind_res (run_leaf nd p cp (el_length d) frame ctrl us) (\<lambda>us'.
                    parse_array_loop left an d p (cp + unat (el_length d)) (hlen - el_length d) frame ctrl us')
                | None \<Rightarrow>
                    if unknown_array_type_ret an \<noteq> XDP2_OKAY then Ok (unknown_array_type_ret an, us)
                    else parse_array_loop left an d p (cp + unat (el_length d)) (hlen - el_length d) frame ctrl us))))"

definition xdp2_parse_array ::
  "'m xdp2_parse_node \<Rightarrow> xdp2_proto_def \<Rightarrow> packet \<Rightarrow> nat \<Rightarrow> size_t \<Rightarrow> nat
   \<Rightarrow> xdp2_ctrl_data \<Rightarrow> 'm ustate \<Rightarrow> (int \<times> 'm ustate) res" where
  "xdp2_parse_array parse_node proto_def p hdr hlen frame ctrl us =
     (case (pn_super parse_node, pd_super proto_def) of
        (ArrayNode an, ArrayDef d) \<Rightarrow>
          bind_res (array_start_offset d p hdr) (\<lambda>off.
          bind_res (num_els d p hdr (hlen - off)) (\<lambda>n.
          parse_array_loop (unat n) an d p (hdr + unat off) (hlen - off) frame ctrl us))
      | _ \<Rightarrow> Err BadCast)"

section \<open>Contract of an array node\<close>

text \<open>
  The array loop never checks that a whole element is left, so a header whose array part
  is not a multiple of the element length makes it read past the header. The contract
  therefore asks for the multiple.
\<close>

definition array_node_ok ::
  "('m ustate \<Rightarrow> bool) \<Rightarrow> (nat \<Rightarrow> bool) \<Rightarrow> packet \<Rightarrow> xdp2_proto_array_def \<Rightarrow> 'm xdp2_parse_array_node \<Rightarrow> bool"
  where
  "array_node_ok I Fr p d an \<longleftrightarrow>
     (\<forall>t k nd. array_proto_table an = Some t \<longrightarrow> (k, Some nd) \<in> set t \<longrightarrow>
        leaf_ok I Fr p (unat (el_length d)) nd) \<and>
     (\<forall>nd. array_wildcard_node an = Some nd \<longrightarrow> leaf_ok I Fr p (unat (el_length d)) nd)"

definition el_type_ok :: "packet \<Rightarrow> xdp2_proto_array_def \<Rightarrow> bool" where
  "el_type_ok p d \<longleftrightarrow>
     (\<forall>f cp. el_type d = Some f \<longrightarrow> cp + unat (el_length d) \<le> length p \<longrightarrow> wp (\<lambda>_. True) (f p cp))"

definition array_def_ok :: "packet \<Rightarrow> nat \<Rightarrow> size_t \<Rightarrow> xdp2_proto_array_def \<Rightarrow> bool" where
  "array_def_ok p hdr hlen d \<longleftrightarrow> el_type_ok p d \<and>
     wp (\<lambda>off. unat off \<le> unat hlen \<and> unat (el_length d) dvd (unat hlen - unat off) \<and>
           wp (\<lambda>_. True) (num_els d p hdr (hlen - off))) (array_start_offset d p hdr)"

lemma wp_parse_array_loop:
  assumes "array_node_ok I Fr p d an" "el_type_ok p d" "unat (el_length d) dvd unat hlen"
    "cp + unat hlen \<le> length p" "Fr frame" "I us"
  shows "wp (\<lambda>(_, us'). I us') (parse_array_loop left an d p cp hlen frame ctrl us)"
  using assms(3,4,6)
proof (induction left arbitrary: cp hlen us)
  case 0
  then show ?case by simp
next
  case (Suc left)
  show ?case
  proof (cases "hlen = 0")
    case True
    then show ?thesis using Suc.prems by simp
  next
    case False
    let ?el = "el_length d"
    have fit: "unat ?el \<le> unat hlen"
      using Suc.prems(1) False by (intro dvd_imp_le) (simp_all add: unat_gt_0)
    then have sub: "unat (hlen - ?el) = unat hlen - unat ?el"
      by (simp add: unat_sub word_le_nat_alt)
    have elin: "cp + unat ?el \<le> length p" using Suc.prems(2) fit by simp
    have rest: "wp (\<lambda>(_, us'). I us')
        (parse_array_loop left an d p (cp + unat ?el) (hlen - ?el) frame ctrl us1)"
      if "I us1" for us1
      using that Suc.prems sub fit by (intro Suc.IH) auto
    have leaf: "wp (\<lambda>us1. wp (\<lambda>(_, us'). I us')
        (parse_array_loop left an d p (cp + unat ?el) (hlen - ?el) frame ctrl us1))
        (run_leaf nd p cp ?el frame ctrl us)"
      if "leaf_ok I Fr p (unat ?el) nd" for nd
      by (rule wp_mono [OF wp_run_leaf [OF that order.refl elin assms(5) Suc.prems(3)]])
         (rule rest)
    have "wp (\<lambda>_. True) (case el_type d of None \<Rightarrow> Ok 0 | Some f \<Rightarrow> f p cp)"
      using assms(2) elin by (auto simp: el_type_ok_def split: option.split)
    then obtain ty where ty: "(case el_type d of None \<Rightarrow> Ok 0 | Some f \<Rightarrow> f p cp) = Ok ty"
      by (auto simp: wp_iff)
    have nd: "leaf_ok I Fr p (unat ?el) nd"
      if "array_proto_table an = Some t" "lookup_array_node ty t = Some nd" for t ty nd
      using that assms(1) lookup_entry_mem [of ty t nd]
      by (auto simp: array_node_ok_def lookup_array_node_def)
    have wild: "leaf_ok I Fr p (unat ?el) nd" if "array_wildcard_node an = Some nd" for nd
      using that assms(1) by (simp add: array_node_ok_def)
    show ?thesis
      using False rest Suc.prems(3) leaf nd wild
      by (simp only: parse_array_loop.simps ty bind_res.simps) (auto split: option.split)
  qed
qed

lemma wp_xdp2_parse_array:
  assumes "pn_super nd = ArrayNode an" "pd_super pd = ArrayDef d"
    "array_def_ok p hdr hlen d" "hdr + unat hlen \<le> length p"
    "array_node_ok I Fr p d an" "Fr frame" "I us"
  shows "wp (\<lambda>(_, us'). I us') (xdp2_parse_array nd pd p hdr hlen frame ctrl us)"
proof -
  obtain off n where f: "array_start_offset d p hdr = Ok off" "unat off \<le> unat hlen"
    "unat (el_length d) dvd (unat hlen - unat off)" "num_els d p hdr (hlen - off) = Ok n"
    "el_type_ok p d"
    using assms(3) by (auto simp: array_def_ok_def wp_iff)
  have "unat (hlen - off) = unat hlen - unat off"
    using f(2) by (simp add: unat_sub word_le_nat_alt)
  then have "wp (\<lambda>(_, us'). I us')
      (parse_array_loop (unat n) an d p (hdr + unat off) (hlen - off) frame ctrl us)"
    using f assms by (intro wp_parse_array_loop [where Fr = Fr]) auto
  with f assms(1,2) show ?thesis by (simp add: xdp2_parse_array_def)
qed

end
