(* ===== verification/Parser.thy ===== *)
theory Parser
  imports Tlvs Flag_Fields Arrays
begin

text \<open>
  The parser engine: \<open>__xdp2_parse\<close>, \<open>__xdp2_parse_fast\<close> and the validation of parsers for
  the fast engine in \<open>src/lib/xdp2/parser.c\<close>, and the inline functions of
  \<open>src/include/xdp2/parser.h\<close> around them.

  One iteration of the main loop of \<open>__xdp2_parse\<close> is \<open>parse_step\<close>. It ends with \<open>Out\<close>
  (the \<open>goto out\<close> of the source, with the return code) or with \<open>Continue\<close> (the bottom of the
  loop is reached with the next parse node, which may be NULL). The loop counts down
  \<open>nodes\<close>, so it is a primitive recursion; only the TLV parser needs fuel.

  A frame is its offset from the start of the metadata.
\<close>

record 'm pstate =
  ps_node :: "node_id option"
  ps_hdr :: nat
  ps_len :: size_t
  ps_frame :: nat
  ps_frame_num :: nat
  ps_ctrl :: xdp2_ctrl_data
  ps_us :: "'m ustate"

datatype 'm step_result = Out int "'m pstate" | Continue "'m pstate"

definition lookup_node :: "int \<Rightarrow> xdp2_proto_table \<Rightarrow> node_id option" where
  "lookup_node type table = lookup_entry type table"

text \<open>The length checks at the top of the loop. \<open>Inl\<close> is the return code of a \<open>goto out\<close>.
  \<open>len < hlen\<close> compares a \<open>size_t\<close> with a \<open>ssize_t\<close>, that is, unsigned; \<open>hlen < min_len\<close>
  is signed.\<close>

definition header_length ::
  "xdp2_proto_def \<Rightarrow> packet \<Rightarrow> nat \<Rightarrow> size_t \<Rightarrow> (int + ssize_t) res" where
  "header_length pd p hdr len =
     (if len < ucast (pd_min_len pd) then Ok (Inl XDP2_STOP_LENGTH)
      else (case op_len (pd_ops pd) of
              None \<Rightarrow> Ok (Inr (ucast (pd_min_len pd)))
            | Some f \<Rightarrow> bind_res (f p hdr len) (\<lambda>hlen.
                if len < hlen then Ok (Inl XDP2_STOP_LENGTH)
                else if sint hlen < int (unat (pd_min_len pd))
                then Ok (Inl (if sint hlen < 0 then int_of_size hlen else XDP2_STOP_LENGTH))
                else Ok (Inr hlen))))"

text \<open>The \<open>switch\<close> over the node type.\<close>

definition parse_super ::
  "nat \<Rightarrow> 'm xdp2_parser \<Rightarrow> packet \<Rightarrow> 'm xdp2_parse_node \<Rightarrow> xdp2_proto_def \<Rightarrow> nat \<Rightarrow> size_t \<Rightarrow> nat
   \<Rightarrow> xdp2_ctrl_data \<Rightarrow> 'm ustate \<Rightarrow> (int \<times> xdp2_ctrl_data \<times> 'm ustate) res" where
  "parse_super fuel P p nd pd hdr hlen frame ctrl us =
     (case pn_node_type nd of
        XDP2_NODE_TYPE_PLAIN \<Rightarrow> Ok (XDP2_OKAY, ctrl, us)
      | XDP2_NODE_TYPE_TLVS \<Rightarrow>
          if pd_node_type pd = XDP2_NODE_TYPE_TLVS
          then xdp2_parse_tlvs fuel P p nd hdr hlen frame ctrl us
          else Ok (XDP2_OKAY, ctrl, us)
      | XDP2_NODE_TYPE_FLAG_FIELDS \<Rightarrow>
          if pd_node_type pd = XDP2_NODE_TYPE_FLAG_FIELDS
          then bind_res (xdp2_parse_flag_fields nd pd p hdr hlen frame ctrl us)
                 (\<lambda>(ret, us'). Ok (ret, ctrl, us'))
          else Ok (XDP2_OKAY, ctrl, us)
      | XDP2_NODE_TYPE_ARRAY \<Rightarrow>
          if pd_node_type pd = XDP2_NODE_TYPE_ARRAY
          then bind_res (xdp2_parse_array nd pd p hdr hlen frame ctrl us)
                 (\<lambda>(ret, us'). Ok (ret, ctrl, us'))
          else Ok (XDP2_OKAY, ctrl, us))"

definition xdp2_parse_run_exit_node ::
  "'m xdp2_parser \<Rightarrow> packet \<Rightarrow> node_id \<Rightarrow> nat \<Rightarrow> xdp2_ctrl_data \<Rightarrow> 'm ustate \<Rightarrow> (int \<times> 'm ustate) res"
  where
  "xdp2_parse_run_exit_node P p n frame ctrl us =
     bind_res (deref (nodes P) (Some n)) (\<lambda>nd.
     bind_res (call_extract (pn_extract_metadata nd) p None 0 frame ctrl us) (\<lambda>us1.
     bind_res (call_handler (pn_handler nd) p None 0 frame ctrl us1) (\<lambda>(_, us2).
     Ok (0, us2))))"

definition set_last_node :: "node_id option \<Rightarrow> xdp2_ctrl_data \<Rightarrow> xdp2_ctrl_data" where
  "set_last_node n ctrl = ctrl\<lparr>var := (var ctrl)\<lparr>last_node := n\<rparr>\<rparr>"

definition set_ret_code :: "int \<Rightarrow> xdp2_ctrl_data \<Rightarrow> xdp2_ctrl_data" where
  "set_ret_code r ctrl = ctrl\<lparr>var := (var ctrl)\<lparr>ret_code := word_of_int r\<rparr>\<rparr>"

definition inc_encaps :: "xdp2_ctrl_data \<Rightarrow> xdp2_ctrl_data" where
  "inc_encaps ctrl = ctrl\<lparr>var := (var ctrl)\<lparr>encaps := encaps (var ctrl) + 1\<rparr>\<rparr>"

text \<open>The encapsulation limit and the choice of the metadata frame.\<close>

definition bump_encap :: "xdp2_parser_config \<Rightarrow> 'm pstate \<Rightarrow> 'm step_result" where
  "bump_encap cfg st =
     (let st1 = st\<lparr>ps_ctrl := inc_encaps (ps_ctrl st)\<rparr>
      in if unat (max_encaps cfg) < unat (encaps (var (ps_ctrl st1)))
         then Out XDP2_STOP_ENCAP_DEPTH st1
         else if ps_frame_num st1 < unat (max_frames cfg)
         then Continue (st1\<lparr>ps_frame := ps_frame st1 + unat (frame_size cfg),
                            ps_frame_num := ps_frame_num st1 + 1\<rparr>)
         else Continue st1)"

definition encap_step :: "'m xdp2_parser \<Rightarrow> packet \<Rightarrow> xdp2_proto_def \<Rightarrow> 'm pstate \<Rightarrow> 'm step_result res" where
  "encap_step P p pd st =
     (if \<not> pd_encap pd then Ok (Continue st)
      else
        (case atencap_node (config P) of
           None \<Rightarrow> Ok (bump_encap (config P) st)
         | Some n \<Rightarrow>
             bind_res (xdp2_parse_run_exit_node P p n (ps_frame st) (ps_ctrl st) (ps_us st))
               (\<lambda>(ret, us').
                if ret \<noteq> XDP2_OKAY then Ok (Out ret (st\<lparr>ps_us := us'\<rparr>))
                else Ok (bump_encap (config P) (st\<lparr>ps_us := us'\<rparr>)))))"

definition read_key :: "'m ustate \<Rightarrow> u8 \<Rightarrow> u32 res" where
  "read_key us sel =
     (if unat sel < length (keys us) then Ok (keys us ! unat sel) else Err OutOfBounds)"

text \<open>The choice of the next node: \<open>Inl\<close> a return code, \<open>Inr\<close> the value of
  \<open>next_parse_node\<close> at the label \<open>found_next\<close>.\<close>

definition next_type ::
  "'m xdp2_parse_node \<Rightarrow> xdp2_proto_def \<Rightarrow> packet \<Rightarrow> nat \<Rightarrow> 'm ustate \<Rightarrow> int option res" where
  "next_type nd pd p hdr us =
     (case op_next_proto_keyin (pd_ops pd) of
        Some f \<Rightarrow> bind_res (read_key us (pn_key_sel nd)) (\<lambda>k. map_res Some (f p hdr k))
      | None \<Rightarrow> (case op_next_proto (pd_ops pd) of
                   Some f \<Rightarrow> map_res Some (f p hdr)
                 | None \<Rightarrow> Ok None))"

definition wildcard_next ::
  "'m xdp2_parse_node \<Rightarrow> xdp2_proto_def \<Rightarrow> packet \<Rightarrow> nat \<Rightarrow> (int + node_id option) res" where
  "wildcard_next nd pd p hdr =
     (case pn_wildcard_node nd of
        None \<Rightarrow> Ok (Inl (sint (pn_unknown_ret nd)))
      | Some w \<Rightarrow>
          (case (pn_proto_table nd, op_next_proto (pd_ops pd)) of
             (Some t, Some f) \<Rightarrow>
               bind_res (f p hdr) (\<lambda>type.
               if type < 0 then Ok (Inl type) else Ok (Inr (lookup_node type t)))
           | _ \<Rightarrow> Ok (Inr (Some w))))"

definition find_next ::
  "'m xdp2_parse_node \<Rightarrow> xdp2_proto_def \<Rightarrow> packet \<Rightarrow> nat \<Rightarrow> 'm ustate \<Rightarrow> (int + node_id option) res" where
  "find_next nd pd p hdr us =
     (case pn_proto_table nd of
        None \<Rightarrow> wildcard_next nd pd p hdr
      | Some t \<Rightarrow>
          bind_res (next_type nd pd p hdr us) (\<lambda>ty.
          (case ty of
             None \<Rightarrow> wildcard_next nd pd p hdr
           | Some type \<Rightarrow>
               if type < 0 then Ok (Inl type)
               else (case lookup_node type t of
                       Some n \<Rightarrow> Ok (Inr (Some n))
                     | None \<Rightarrow> wildcard_next nd pd p hdr))))"

text \<open>From \<open>found_next\<close> to the \<open>XDP2_PARSE_NODE_F_ZERO_LEN_OK\<close> test.\<close>

definition advance :: "'m xdp2_parse_node \<Rightarrow> xdp2_proto_def \<Rightarrow> ssize_t \<Rightarrow> node_id option \<Rightarrow> 'm pstate
   \<Rightarrow> 'm step_result" where
  "advance nd pd hlen nxt st =
     (let st1 = (if pd_overlay pd then st
                 else st\<lparr>ps_hdr := ps_hdr st + unat hlen, ps_len := ps_len st - hlen\<rparr>)
      in if ps_len st1 = 0 \<and> pn_flags nd AND XDP2_PARSE_NODE_F_ZERO_LEN_OK \<noteq> 0
         then Out XDP2_STOP_OKAY st1
         else Continue (st1\<lparr>ps_node := nxt\<rparr>))"

text \<open>The part of an iteration after the header has been processed.\<close>

definition to_next ::
  "'m xdp2_parser \<Rightarrow> packet \<Rightarrow> 'm xdp2_parse_node \<Rightarrow> xdp2_proto_def \<Rightarrow> ssize_t \<Rightarrow> 'm pstate
   \<Rightarrow> 'm step_result res" where
  "to_next P p nd pd hlen st =
     (if pn_proto_table nd = None \<and> pn_wildcard_node nd = None then Ok (Out XDP2_STOP_OKAY st)
      else
        bind_res (encap_step P p pd st) (\<lambda>r.
        (case r of
           Out ret st1 \<Rightarrow> Ok (Out ret st1)
         | Continue st1 \<Rightarrow>
             bind_res (find_next nd pd p (ps_hdr st1) (ps_us st1)) (\<lambda>r.
             (case r of
                Inl ret \<Rightarrow> Ok (Out ret st1)
              | Inr nxt \<Rightarrow> Ok (advance nd pd hlen nxt st1))))))"

definition parse_step ::
  "nat \<Rightarrow> 'm xdp2_parser \<Rightarrow> packet \<Rightarrow> 'm pstate \<Rightarrow> 'm step_result res" where
  "parse_step fuel P p st =
     bind_res (deref (nodes P) (ps_node st)) (\<lambda>nd.
     (case pn_proto_def nd of
        None \<Rightarrow> Err NullPointer
      | Some pd \<Rightarrow>
          (let st0 = st\<lparr>ps_ctrl := set_last_node (ps_node st) (ps_ctrl st)\<rparr>;
               hdr = ps_hdr st; frame = ps_frame st; ctrl = ps_ctrl st0
           in
           bind_res (header_length pd p hdr (ps_len st)) (\<lambda>r.
           (case r of
              Inl ret \<Rightarrow> Ok (Out ret st0)
            | Inr hlen \<Rightarrow>
                bind_res (call_extract (pn_extract_metadata nd) p (Some hdr) hlen frame ctrl (ps_us st)) (\<lambda>us1.
                bind_res (call_handler (pn_handler nd) p (Some hdr) hlen frame ctrl us1) (\<lambda>(_, us2).
                bind_res (parse_super fuel P p nd pd hdr hlen frame ctrl us2) (\<lambda>(ret, ctrl3, us3).
                if ret \<noteq> XDP2_OKAY then Ok (Out ret (st0\<lparr>ps_ctrl := ctrl3, ps_us := us3\<rparr>))
                else
                  bind_res (call_handler (pn_post_handler nd) p (Some hdr) hlen frame ctrl3 us3) (\<lambda>(_, us4).
                  to_next P p nd pd hlen (st0\<lparr>ps_ctrl := ctrl3, ps_us := us4\<rparr>))))))))))"

text \<open>The label \<open>out\<close>.\<close>

definition parse_out :: "'m xdp2_parser \<Rightarrow> packet \<Rightarrow> int \<Rightarrow> 'm pstate \<Rightarrow> (int \<times> 'm pstate) res" where
  "parse_out P p ret st =
     (let st1 = st\<lparr>ps_ctrl := set_ret_code ret (ps_ctrl st)\<rparr>
      in case (if XDP2_CODE_IS_OKAY ret then okay_node (config P) else fail_node (config P)) of
           None \<Rightarrow> Ok (ret, st1)
         | Some n \<Rightarrow>
             bind_res (xdp2_parse_run_exit_node P p n (ps_frame st1) (ps_ctrl st1) (ps_us st1))
               (\<lambda>(_, us'). Ok (ret, st1\<lparr>ps_us := us'\<rparr>)))"

text \<open>The main loop, with the value of the variable \<open>nodes\<close>.\<close>

primrec parse_loop ::
  "nat \<Rightarrow> nat \<Rightarrow> 'm xdp2_parser \<Rightarrow> packet \<Rightarrow> 'm pstate \<Rightarrow> (int \<times> 'm pstate) res" where
  "parse_loop 0 fuel P p st =
     bind_res (parse_step fuel P p st) (\<lambda>r.
     (case r of
        Out ret st' \<Rightarrow> parse_out P p ret st'
      | Continue st' \<Rightarrow> Ok (XDP2_STOP_MAX_NODES, st')))"
| "parse_loop (Suc nds) fuel P p st =
     bind_res (parse_step fuel P p st) (\<lambda>r.
     (case r of
        Out ret st' \<Rightarrow> parse_out P p ret st'
      | Continue st' \<Rightarrow> parse_loop nds fuel P p st'))"

definition parse_init :: "'m xdp2_parser \<Rightarrow> nat \<Rightarrow> size_t \<Rightarrow> xdp2_ctrl_data \<Rightarrow> 'm ustate \<Rightarrow> 'm pstate" where
  "parse_init P hdr len ctrl us =
     \<lparr>ps_node = Some (root_node P), ps_hdr = hdr, ps_len = len,
      ps_frame = unat (metameta_size (config P)), ps_frame_num = 0, ps_ctrl = ctrl, ps_us = us\<rparr>"

definition xdp2_parse_generic ::
  "nat \<Rightarrow> 'm xdp2_parser \<Rightarrow> packet \<Rightarrow> nat \<Rightarrow> size_t \<Rightarrow> xdp2_ctrl_data \<Rightarrow> 'm ustate
   \<Rightarrow> (int \<times> 'm pstate) res" where
  "xdp2_parse_generic fuel P p hdr len ctrl us =
     parse_loop (unat (max_nodes (config P))) fuel P p (parse_init P hdr len ctrl us)"

section \<open>Contract of a parse graph\<close>

text \<open>The operations of a protocol definition read only the header they are given.\<close>

definition proto_def_ok :: "packet \<Rightarrow> xdp2_proto_def \<Rightarrow> bool" where
  "proto_def_ok p pd \<longleftrightarrow>
     (\<forall>f hdr len. op_len (pd_ops pd) = Some f \<longrightarrow> unat (pd_min_len pd) \<le> unat len \<longrightarrow>
        hdr + unat len \<le> length p \<longrightarrow> wp (\<lambda>_. True) (f p hdr len)) \<and>
     (\<forall>f hdr. op_next_proto (pd_ops pd) = Some f \<longrightarrow> hdr + unat (pd_min_len pd) \<le> length p \<longrightarrow>
        wp (\<lambda>_. True) (f p hdr)) \<and>
     (\<forall>f hdr k. op_next_proto_keyin (pd_ops pd) = Some f \<longrightarrow> hdr + unat (pd_min_len pd) \<le> length p \<longrightarrow>
        wp (\<lambda>_. True) (f p hdr k))"

text \<open>The super structure of a node, for every header that passes the length checks.\<close>

definition super_ok ::
  "'m xdp2_parser \<Rightarrow> packet \<Rightarrow> ('m ustate \<Rightarrow> bool) \<Rightarrow> (nat \<Rightarrow> bool) \<Rightarrow> tlv_id set \<Rightarrow> (tlv_id \<Rightarrow> nat)
   \<Rightarrow> (tlv_id \<Rightarrow> nat) \<Rightarrow> nat \<Rightarrow> 'm xdp2_parse_node \<Rightarrow> xdp2_proto_def \<Rightarrow> bool" where
  "super_ok P p I Fr T M rk R nd pd \<longleftrightarrow>
     (case (pn_node_type nd, pd_node_type pd) of
        (XDP2_NODE_TYPE_TLVS, XDP2_NODE_TYPE_TLVS) \<Rightarrow>
          (\<exists>tn d. pn_super nd = TlvsNode tn \<and> pd_super pd = TlvsDef d \<and>
             tlvs_def_ok p (unat (pd_min_len pd)) d \<and> tlvs_node_ok P p T M rk R tn)
      | (XDP2_NODE_TYPE_FLAG_FIELDS, XDP2_NODE_TYPE_FLAG_FIELDS) \<Rightarrow>
          (\<exists>table d. pn_super nd = FlagFieldsNode table \<and> pd_super pd = FlagFieldsDef d \<and>
             ff_leaf_table_ok I Fr p (flag_fields d) table \<and>
             (\<forall>hdr len hlen. hdr + unat len \<le> length p \<longrightarrow> header_length pd p hdr len = Ok (Inr hlen) \<longrightarrow>
                ff_def_ok p hdr hlen d))
      | (XDP2_NODE_TYPE_ARRAY, XDP2_NODE_TYPE_ARRAY) \<Rightarrow>
          (\<exists>an d. pn_super nd = ArrayNode an \<and> pd_super pd = ArrayDef d \<and>
             array_node_ok I Fr p d an \<and>
             (\<forall>hdr len hlen. hdr + unat len \<le> length p \<longrightarrow> header_length pd p hdr len = Ok (Inr hlen) \<longrightarrow>
                array_def_ok p hdr hlen d))
      | _ \<Rightarrow> True)"

text \<open>The successors of a node: all of them are nodes in use. A node with a table, a
  \<open>next_proto\<close> operation and a wildcard is excluded: there the source replaces the
  wildcard by the result of the failed lookup, which is NULL.\<close>

definition next_ok :: "node_id set \<Rightarrow> ('m ustate \<Rightarrow> bool) \<Rightarrow> 'm xdp2_parse_node \<Rightarrow> xdp2_proto_def \<Rightarrow> bool" where
  "next_ok N I nd pd \<longleftrightarrow>
     (\<forall>t k n. pn_proto_table nd = Some t \<longrightarrow> (k, Some n) \<in> set t \<longrightarrow> n \<in> N) \<and>
     (\<forall>w. pn_wildcard_node nd = Some w \<longrightarrow> w \<in> N \<and>
        (pn_proto_table nd = None \<or> op_next_proto (pd_ops pd) = None)) \<and>
     (op_next_proto_keyin (pd_ops pd) = None \<or> pn_proto_table nd = None \<or>
        (\<forall>us. I us \<longrightarrow> unat (pn_key_sel nd) < length (keys us)))"

definition parse_node_ok ::
  "'m xdp2_parser \<Rightarrow> packet \<Rightarrow> ('m ustate \<Rightarrow> bool) \<Rightarrow> (nat \<Rightarrow> bool) \<Rightarrow> tlv_id set \<Rightarrow> (tlv_id \<Rightarrow> nat)
   \<Rightarrow> (tlv_id \<Rightarrow> nat) \<Rightarrow> nat \<Rightarrow> node_id set \<Rightarrow> 'm xdp2_parse_node \<Rightarrow> xdp2_proto_def \<Rightarrow> bool" where
  "parse_node_ok P p I Fr T M rk R N nd pd \<longleftrightarrow>
     proto_def_ok p pd \<and> super_ok P p I Fr T M rk R nd pd \<and> next_ok N I nd pd \<and>
     extract_ok I Fr p (unat (pd_min_len pd)) (pn_extract_metadata nd) \<and>
     handler_ok I Fr p (unat (pd_min_len pd)) (pn_handler nd) \<and>
     handler_ok I Fr p (unat (pd_min_len pd)) (pn_post_handler nd)"

text \<open>The exit nodes are called without a header.\<close>

definition exit_node_ok ::
  "'m xdp2_parser \<Rightarrow> packet \<Rightarrow> ('m ustate \<Rightarrow> bool) \<Rightarrow> (nat \<Rightarrow> bool) \<Rightarrow> node_id option \<Rightarrow> bool" where
  "exit_node_ok P p I Fr e \<longleftrightarrow>
     (\<forall>n frame ctrl us. e = Some n \<longrightarrow> Fr frame \<longrightarrow> I us \<longrightarrow>
        wp (\<lambda>(_, us'). I us') (xdp2_parse_run_exit_node P p n frame ctrl us))"

locale parse_graph = tlv_graph P p I Fr T M rk
  for P :: "'m xdp2_parser" and p :: packet and I :: "'m ustate \<Rightarrow> bool" and Fr :: "nat \<Rightarrow> bool"
    and T :: "tlv_id set" and M :: "tlv_id \<Rightarrow> nat" and rk :: "tlv_id \<Rightarrow> nat" +
  fixes N :: "node_id set" and R :: nat
  assumes root: "root_node P \<in> N"
    and parse_node: "n \<in> N \<Longrightarrow>
      \<exists>nd pd. nodes P n = Some nd \<and> pn_proto_def nd = Some pd \<and> parse_node_ok P p I Fr T M rk R N nd pd"
    and frames: "k \<le> unat (max_frames (config P)) \<Longrightarrow> k \<le> unat (max_encaps (config P)) \<Longrightarrow>
      Fr (unat (metameta_size (config P)) + k * unat (frame_size (config P)))"
    and encaps_limit: "unat (max_encaps (config P)) < 255"
    and okay_exit: "exit_node_ok P p I Fr (okay_node (config P))"
    and fail_exit: "exit_node_ok P p I Fr (fail_node (config P))"
    and atencap_exit: "exit_node_ok P p I Fr (atencap_node (config P))"
begin

definition data_ok :: "'m pstate \<Rightarrow> bool" where
  "data_ok st \<longleftrightarrow> ps_hdr st + unat (ps_len st) \<le> length p \<and>
     ps_frame_num st \<le> unat (max_frames (config P)) \<and>
     ps_frame_num st \<le> unat (max_encaps (config P)) \<and>
     ps_frame st = unat (metameta_size (config P)) + ps_frame_num st * unat (frame_size (config P)) \<and>
     I (ps_us st)"

text \<open>While the parser runs there are at least as many encapsulations as extra frames, and
  the limit has not been passed. The counter is a byte; below 255 it does not wrap.\<close>

definition enc_ok :: "'m pstate \<Rightarrow> bool" where
  "enc_ok st \<longleftrightarrow> ps_frame_num st \<le> unat (encaps (var (ps_ctrl st))) \<and>
     unat (encaps (var (ps_ctrl st))) \<le> unat (max_encaps (config P))"

primrec step_ok :: "'m step_result \<Rightarrow> bool" where
  "step_ok (Out ret st) = data_ok st"
| "step_ok (Continue st) = (data_ok st \<and> enc_ok st \<and> (\<exists>n\<in>N. ps_node st = Some n))"

lemma data_ok_frame: "data_ok st \<Longrightarrow> Fr (ps_frame st)"
  using frames by (simp add: data_ok_def)

lemma wp_run_exit_node:
  "exit_node_ok P p I Fr (Some n) \<Longrightarrow> Fr frame \<Longrightarrow> I us \<Longrightarrow>
   wp (\<lambda>(_, us'). I us') (xdp2_parse_run_exit_node P p n frame ctrl us)"
  by (simp add: exit_node_ok_def)

lemma run_exit_node_ret:
  "xdp2_parse_run_exit_node P p n frame ctrl us = Ok (ret, us') \<Longrightarrow> ret = 0"
  by (auto simp: xdp2_parse_run_exit_node_def bind_res_Ok_iff split: prod.splits)

lemma wp_header_length:
  assumes "proto_def_ok p pd" "hdr + unat len \<le> length p"
  shows "wp (\<lambda>r. \<forall>hlen. r = Inr hlen \<longrightarrow> unat (pd_min_len pd) \<le> unat hlen \<and> unat hlen \<le> unat len)
           (header_length pd p hdr len)"
proof (cases "len < ucast (pd_min_len pd)")
  case True
  then show ?thesis by (simp add: header_length_def)
next
  case False
  then have le: "unat (pd_min_len pd) \<le> unat len"
    by (simp add: not_less word_le_nat_alt)
  show ?thesis
  proof (cases "op_len (pd_ops pd)")
    case None
    then show ?thesis using le by (simp add: header_length_def)
  next
    case (Some f)
    then have w: "wp (\<lambda>_. True) (f p hdr len)" using assms le by (simp add: proto_def_ok_def)
    have "unat (pd_min_len pd) \<le> unat hlen" if "\<not> sint hlen < int (unat (pd_min_len pd))" for hlen :: ssize_t
    proof -
      have "unat hlen < 2 ^ 63" using that sint_negative_iff [of hlen] by linarith
      then show ?thesis using that sint_nonneg_eq [of hlen] by linarith
    qed
    then show ?thesis
      using Some False by (auto simp: header_length_def not_less word_le_nat_alt intro!: wp_mono [OF w])
  qed
qed

lemma data_ok_us: "data_ok st \<Longrightarrow> I us \<Longrightarrow> data_ok (st\<lparr>ps_us := us\<rparr>)"
  by (simp add: data_ok_def)

lemma data_ok_ctrl: "data_ok st \<Longrightarrow> data_ok (st\<lparr>ps_ctrl := ctrl\<rparr>)"
  by (simp add: data_ok_def)

lemma data_ok_node: "data_ok st \<Longrightarrow> data_ok (st\<lparr>ps_node := n\<rparr>)"
  by (simp add: data_ok_def)

lemma data_ok_I: "data_ok st \<Longrightarrow> I (ps_us st)"
  by (simp add: data_ok_def)

lemmas data_ok_intros = data_ok_us data_ok_ctrl data_ok_node

definition encap_post :: "'m pstate \<Rightarrow> 'm step_result \<Rightarrow> bool" where
  "encap_post st r \<longleftrightarrow> (case r of Out _ st' \<Rightarrow> data_ok st'
     | Continue st' \<Rightarrow> data_ok st' \<and> enc_ok st' \<and> ps_hdr st' = ps_hdr st \<and> ps_len st' = ps_len st)"

lemma encaps_inc:
  assumes "enc_ok st"
  shows "unat (encaps (var (ps_ctrl st)) + 1) = Suc (unat (encaps (var (ps_ctrl st))))"
proof -
  have "unat (encaps (var (ps_ctrl st))) < 255" using assms encaps_limit by (simp add: enc_ok_def)
  then show ?thesis by (simp add: unat_word_ariths)
qed

lemma encap_post_bump: "data_ok st \<Longrightarrow> enc_ok st \<Longrightarrow> encap_post st (bump_encap (config P) st)"
  using encaps_inc [of st]
  by (auto simp: encap_post_def bump_encap_def Let_def data_ok_def enc_ok_def inc_encaps_def)

lemma enc_ok_simps [simp]:
  "enc_ok (st\<lparr>ps_us := us\<rparr>) = enc_ok st"
  "enc_ok (st\<lparr>ps_node := n\<rparr>) = enc_ok st"
  "enc_ok (st\<lparr>ps_hdr := h\<rparr>) = enc_ok st"
  "enc_ok (st\<lparr>ps_len := l\<rparr>) = enc_ok st"
  "enc_ok (st\<lparr>ps_ctrl := set_last_node n (ps_ctrl st)\<rparr>) = enc_ok st"
  by (simp_all add: enc_ok_def set_last_node_def)

lemma wp_encap_step:
  assumes "data_ok st" "enc_ok st"
  shows "wp (encap_post st) (encap_step P p pd st)"
proof (cases "pd_encap pd")
  case False
  then show ?thesis using assms by (simp add: encap_step_def encap_post_def)
next
  case True
  show ?thesis
  proof (cases "atencap_node (config P)")
    case None
    then show ?thesis using assms True by (simp add: encap_step_def encap_post_bump)
  next
    case (Some n)
    have "wp (\<lambda>(_, us'). I us')
        (xdp2_parse_run_exit_node P p n (ps_frame st) (ps_ctrl st) (ps_us st))"
      using atencap_exit Some assms by (intro wp_run_exit_node) (auto intro: data_ok_frame data_ok_I)
    moreover have "encap_post st (bump_encap (config P) (st\<lparr>ps_us := us'\<rparr>))" if "I us'" for us'
      using encap_post_bump [of "st\<lparr>ps_us := us'\<rparr>"] data_ok_us [OF assms(1) that] assms(2)
      by (simp add: encap_post_def split: step_result.splits)
    ultimately show ?thesis
      using True Some assms
      by (auto simp: encap_step_def XDP2_OKAY_def dest: run_exit_node_ret elim!: wp_mono)
  qed
qed

lemma wp_wildcard_next:
  assumes "next_ok N I nd pd"
  shows "wp (\<lambda>r. \<forall>x. r = Inr x \<longrightarrow> (\<exists>n\<in>N. x = Some n)) (wildcard_next nd pd p hdr)"
  using assms by (auto simp: wildcard_next_def next_ok_def split: option.split)

lemma wp_next_type:
  assumes "next_ok N I nd pd" "proto_def_ok p pd" "hdr + unat (pd_min_len pd) \<le> length p" "I us"
    "pn_proto_table nd \<noteq> None"
  shows "wp (\<lambda>_. True) (next_type nd pd p hdr us)"
  using assms by (auto simp: next_type_def next_ok_def proto_def_ok_def read_key_def split: option.split)

lemma wp_find_next:
  assumes "next_ok N I nd pd" "proto_def_ok p pd" "hdr + unat (pd_min_len pd) \<le> length p" "I us"
  shows "wp (\<lambda>r. \<forall>x. r = Inr x \<longrightarrow> (\<exists>n\<in>N. x = Some n)) (find_next nd pd p hdr us)"
proof (cases "pn_proto_table nd")
  case None
  then show ?thesis using wp_wildcard_next [OF assms(1)] by (simp add: find_next_def)
next
  case (Some t)
  have "n \<in> N" if "lookup_node ty t = Some n" for ty n
    using that assms(1) Some lookup_entry_mem [of ty t n]
    by (auto simp: lookup_node_def next_ok_def)
  moreover have "wp (\<lambda>_. True) (next_type nd pd p hdr us)"
    using assms Some by (intro wp_next_type) auto
  ultimately show ?thesis
    using Some wp_wildcard_next [OF assms(1)]
    by (auto simp: find_next_def elim!: wp_mono split: option.split)
qed

lemma step_ok_advance:
  assumes "data_ok st" "enc_ok st" "unat hlen \<le> unat (ps_len st)" "n \<in> N"
  shows "step_ok (advance nd pd hlen (Some n) st)"
proof -
  have "unat (ps_len st - hlen) = unat (ps_len st) - unat hlen"
    using assms(3) by (simp add: unat_sub word_le_nat_alt)
  with assms show ?thesis by (auto simp: advance_def Let_def data_ok_def)
qed

lemma wp_to_next:
  assumes "data_ok st" "next_ok N I nd pd" "proto_def_ok p pd"
    "unat (pd_min_len pd) \<le> unat hlen" "unat hlen \<le> unat (ps_len st)" "enc_ok st"
  shows "wp step_ok (to_next P p nd pd hlen st)"
proof -
  have nxt: "wp (\<lambda>r. \<forall>x. r = Inr x \<longrightarrow> (\<exists>n\<in>N. x = Some n)) (find_next nd pd p (ps_hdr st1) (ps_us st1))"
    if "data_ok st1" "ps_hdr st1 = ps_hdr st" "ps_len st1 = ps_len st" for st1
    using that assms by (intro wp_find_next) (auto simp: data_ok_def)
  have "wp step_ok
      (bind_res (find_next nd pd p (ps_hdr st1) (ps_us st1))
         (\<lambda>r. case r of Inl ret \<Rightarrow> Ok (Out ret st1) | Inr nxt \<Rightarrow> Ok (advance nd pd hlen nxt st1)))"
    if "data_ok st1" "ps_hdr st1 = ps_hdr st" "ps_len st1 = ps_len st" "enc_ok st1" for st1
    unfolding wp_bind
    by (rule wp_mono [OF nxt [OF that(1-3)]]) (use that assms(5) in \<open>auto intro!: step_ok_advance split: sum.split\<close>)
  then show ?thesis
    using assms(1,6) unfolding to_next_def
    by (auto intro!: wp_mono [OF wp_encap_step] simp: encap_post_def split: step_result.splits)
qed

lemma wp_parse_super:
  assumes "super_ok P p I Fr T M rk R nd pd" "pn_proto_def nd = Some pd" "hdr + unat len \<le> length p"
    "header_length pd p hdr len = Ok (Inr hlen)" "unat (pd_min_len pd) \<le> unat hlen"
    "unat hlen \<le> unat len" "tlv_fuel (length p) R \<le> fuel" "Fr frame" "I us"
  shows "wp (tlv_post ctrl) (parse_super fuel P p nd pd hdr hlen frame ctrl us)"
proof (cases "pn_node_type nd = pd_node_type pd")
  case False
  then show ?thesis using assms(9)
    by (auto simp: parse_super_def tlv_post_def split: xdp2_parser_node_type.splits)
next
  case same: True
  have fit: "hdr + unat hlen \<le> length p" using assms by simp
  show ?thesis
  proof (cases "pn_node_type nd")
    case XDP2_NODE_TYPE_PLAIN
    then show ?thesis using assms(9) by (simp add: parse_super_def tlv_post_def)
  next
    case XDP2_NODE_TYPE_TLVS
    then obtain tn d where "pn_super nd = TlvsNode tn" "pd_super pd = TlvsDef d"
      "tlvs_def_ok p (unat (pd_min_len pd)) d" "tlvs_node_ok P p T M rk R tn"
      using assms(1) same by (auto simp: super_ok_def)
    then have "wp (tlv_post ctrl) (xdp2_parse_tlvs fuel P p nd hdr hlen frame ctrl us)"
      using assms fit by (intro wp_xdp2_parse_tlvs) auto
    then show ?thesis using XDP2_NODE_TYPE_TLVS same by (simp add: parse_super_def)
  next
    case XDP2_NODE_TYPE_FLAG_FIELDS
    then obtain table d where ff: "pn_super nd = FlagFieldsNode table" "pd_super pd = FlagFieldsDef d"
      "ff_leaf_table_ok I Fr p (flag_fields d) table" "ff_def_ok p hdr hlen d"
      using assms(1,3,4) same by (auto simp: super_ok_def)
    have "wp (\<lambda>(ret, us'). ret = XDP2_OKAY \<and> I us') (xdp2_parse_flag_fields nd pd p hdr hlen frame ctrl us)"
      using ff fit assms(8,9) by (intro wp_xdp2_parse_flag_fields [where Fr = Fr])
    then show ?thesis
      using XDP2_NODE_TYPE_FLAG_FIELDS same by (auto simp: parse_super_def tlv_post_def elim!: wp_mono)
  next
    case XDP2_NODE_TYPE_ARRAY
    then obtain an d where ar: "pn_super nd = ArrayNode an" "pd_super pd = ArrayDef d"
      "array_def_ok p hdr hlen d" "array_node_ok I Fr p d an"
      using assms(1,3,4) same by (auto simp: super_ok_def)
    have "wp (\<lambda>(_, us'). I us') (xdp2_parse_array nd pd p hdr hlen frame ctrl us)"
      using ar fit assms(8,9) by (intro wp_xdp2_parse_array [where Fr = Fr])
    then show ?thesis
      using XDP2_NODE_TYPE_ARRAY same by (auto simp: parse_super_def tlv_post_def elim!: wp_mono)
  qed
qed

lemma wp_parse_step:
  assumes "data_ok st" "ps_node st = Some n" "n \<in> N" "tlv_fuel (length p) R \<le> fuel" "enc_ok st"
  shows "wp step_ok (parse_step fuel P p st)"
proof -
  obtain nd pd where nd: "nodes P n = Some nd" "pn_proto_def nd = Some pd"
    and ok: "parse_node_ok P p I Fr T M rk R N nd pd"
    using parse_node [OF assms(3)] by blast
  note okd = ok [unfolded parse_node_ok_def]
  have fit: "ps_hdr st + unat (ps_len st) \<le> length p" using assms(1) by (simp add: data_ok_def)
  have fr: "Fr (ps_frame st)" using assms(1) by (rule data_ok_frame)
  note hl = wp_header_length [OF conjunct1 [OF okd] fit]
  let ?hdr = "ps_hdr st" and ?fr = "ps_frame st"
  have e: "wp I (call_extract (pn_extract_metadata nd) p (Some ?hdr) hlen ?fr ctrl us)"
    if "unat (pd_min_len pd) \<le> unat hlen" "unat hlen \<le> unat (ps_len st)" "I us" for hlen ctrl us
    using okd that fit fr by (intro wp_call_extract [where m = "unat (pd_min_len pd)" and Fr = Fr]) auto
  have h: "wp (\<lambda>(_, us'). I us') (call_handler cb p (Some ?hdr) hlen ?fr ctrl us)"
    if "cb = pn_handler nd \<or> cb = pn_post_handler nd"
      "unat (pd_min_len pd) \<le> unat hlen" "unat hlen \<le> unat (ps_len st)" "I us" for cb hlen ctrl us
    using okd that fit fr by (intro wp_call_handler [where m = "unat (pd_min_len pd)" and Fr = Fr]) auto
  have sp: "wp (tlv_post ctrl) (parse_super fuel P p nd pd ?hdr hlen ?fr ctrl us)"
    if "header_length pd p ?hdr (ps_len st) = Ok (Inr hlen)"
      "unat (pd_min_len pd) \<le> unat hlen" "unat hlen \<le> unat (ps_len st)" "I us" for hlen ctrl us
    using okd nd(2) that fit fr assms(4) by (intro wp_parse_super [where len = "ps_len st"]) auto
  have tn: "wp step_ok (to_next P p nd pd hlen st')"
    if "data_ok st'" "ps_len st' = ps_len st" "enc_ok st'"
      "unat (pd_min_len pd) \<le> unat hlen" "unat hlen \<le> unat (ps_len st)" for hlen st'
    using okd that by (intro wp_to_next) auto
  note dI = data_ok_intros [OF assms(1)] data_ok_us [OF data_ok_ctrl [OF assms(1)]] data_ok_I [OF assms(1)]
  let ?ctrl = "set_last_node (Some n) (ps_ctrl st)"
  have "wp step_ok (bind_res (call_handler (pn_post_handler nd) p (Some ?hdr) hlen ?fr ?ctrl us)
      (\<lambda>(_, us'). to_next P p nd pd hlen (st\<lparr>ps_ctrl := ?ctrl, ps_us := us'\<rparr>)))"
    if "unat (pd_min_len pd) \<le> unat hlen" "unat hlen \<le> unat (ps_len st)" "I us" for hlen us
    unfolding wp_bind by (rule wp_mono [OF h]) (use that dI assms(5) in \<open>auto intro!: tn\<close>)
  note post = this [simplified]
  show ?thesis
    using assms(1,2) nd
    by (auto simp: parse_step_def Let_def tlv_post_def dI
        intro!: wp_mono [OF hl] wp_mono [OF e] wp_mono [OF h [OF disjI1 [OF refl]]] wp_mono [OF sp] post
        split: sum.split)
qed

lemma wp_parse_out:
  assumes "data_ok st"
  shows "wp (\<lambda>(ret', st'). data_ok st') (parse_out P p ret st)"
proof -
  let ?e = "if XDP2_CODE_IS_OKAY ret then okay_node (config P) else fail_node (config P)"
  have e: "exit_node_ok P p I Fr ?e" using okay_exit fail_exit by simp
  show ?thesis
  proof (cases ?e)
    case None
    then show ?thesis using assms by (simp add: parse_out_def Let_def data_ok_intros)
  next
    case (Some n)
    have "wp (\<lambda>(_, us'). I us')
        (xdp2_parse_run_exit_node P p n (ps_frame st) (set_ret_code ret (ps_ctrl st)) (ps_us st))"
      using e assms unfolding Some by (intro wp_run_exit_node) (auto intro: data_ok_frame data_ok_I)
    then show ?thesis
      using Some assms by (auto simp: parse_out_def Let_def data_ok_intros elim!: wp_mono)
  qed
qed

theorem wp_parse_loop:
  assumes "data_ok st" "enc_ok st" "ps_node st = Some n" "n \<in> N" "tlv_fuel (length p) R \<le> fuel"
  shows "wp (\<lambda>(ret, st'). data_ok st') (parse_loop nds fuel P p st)"
  using assms
proof (induction nds arbitrary: st n)
  case 0
  then show ?case
    by (auto intro!: wp_mono [OF wp_parse_step] intro: wp_parse_out split: step_result.split)
next
  case (Suc nds)
  then show ?case
    by (auto intro!: wp_mono [OF wp_parse_step] intro: wp_parse_out Suc.IH split: step_result.split)
qed

theorem wp_xdp2_parse_generic:
  assumes "hdr + unat len \<le> length p" "I us" "tlv_fuel (length p) R \<le> fuel" "encaps (var ctrl) = 0"
  shows "wp (\<lambda>(ret, st'). data_ok st') (xdp2_parse_generic fuel P p hdr len ctrl us)"
  unfolding xdp2_parse_generic_def
  using assms root frames [of 0]
  by (intro wp_parse_loop) (auto simp: data_ok_def enc_ok_def parse_init_def)

end

end
