(* ===== verification/Parser_Fast.thy ===== *)
theory Parser_Fast
  imports Parser
begin

text \<open>
  The fast engine \<open>__xdp2_parse_fast\<close> and the validation \<open>xdp2_parse_validate_fast\<close> that
  tells whether a parser may be given to it (\<open>src/lib/xdp2/parser.c\<close>), and the dispatch
  functions of \<open>src/include/xdp2/parser.h\<close>.

  The fast engine has no node limit, so its loop takes fuel. The validation is a
  depth-first search over the protocol tables with the array \<open>fast_nodes\<close> of visited nodes;
  the list of the model holds the used prefix of that array. The search goes one level
  deeper only after it has stored a node, so \<open>NUM_FAST_NODES + 1\<close> levels are enough, which
  \<open>validate_returns\<close> proves.
\<close>

section \<open>The fast engine\<close>

definition header_length_fast ::
  "xdp2_proto_def \<Rightarrow> packet \<Rightarrow> nat \<Rightarrow> size_t \<Rightarrow> (int + ssize_t) res" where
  "header_length_fast pd p hdr len =
     (if len < ucast (pd_min_len pd) then Ok (Inl XDP2_STOP_LENGTH)
      else (case op_len (pd_ops pd) of
              None \<Rightarrow> Ok (Inr (ucast (pd_min_len pd)))
            | Some f \<Rightarrow> bind_res (f p hdr len) (\<lambda>hlen.
                if len < hlen then Ok (Inl XDP2_STOP_LENGTH) else Ok (Inr hlen))))"

definition parse_super_fast ::
  "nat \<Rightarrow> 'm xdp2_parser \<Rightarrow> packet \<Rightarrow> 'm xdp2_parse_node \<Rightarrow> xdp2_proto_def \<Rightarrow> nat \<Rightarrow> size_t \<Rightarrow> nat
   \<Rightarrow> xdp2_ctrl_data \<Rightarrow> 'm ustate \<Rightarrow> (int \<times> xdp2_ctrl_data \<times> 'm ustate) res" where
  "parse_super_fast fuel P p nd pd hdr hlen frame ctrl us =
     (case pn_node_type nd of
        XDP2_NODE_TYPE_TLVS \<Rightarrow> xdp2_parse_tlvs fuel P p nd hdr hlen frame ctrl us
      | XDP2_NODE_TYPE_FLAG_FIELDS \<Rightarrow>
          bind_res (xdp2_parse_flag_fields nd pd p hdr hlen frame ctrl us)
            (\<lambda>(ret, us'). Ok (ret, ctrl, us'))
      | _ \<Rightarrow> Ok (XDP2_OKAY, ctrl, us))"

text \<open>The next node: \<open>Inl\<close> a return code. \<open>next_proto\<close> is called without a NULL check.\<close>

definition find_next_fast ::
  "'m xdp2_parse_node \<Rightarrow> xdp2_proto_def \<Rightarrow> packet \<Rightarrow> nat \<Rightarrow> (int + node_id) res" where
  "find_next_fast nd pd p hdr =
     (let wild = (case pn_wildcard_node nd of None \<Rightarrow> Inl XDP2_STOP_OKAY | Some w \<Rightarrow> Inr w)
      in case pn_proto_table nd of
           None \<Rightarrow> Ok wild
         | Some t \<Rightarrow>
             (case op_next_proto (pd_ops pd) of
                None \<Rightarrow> Err NullPointer
              | Some f \<Rightarrow> bind_res (f p hdr) (\<lambda>type.
                  if type < 0 then Ok (Inl type)
                  else Ok (case lookup_node type t of None \<Rightarrow> wild | Some n \<Rightarrow> Inr n))))"

definition fast_step ::
  "nat \<Rightarrow> 'm xdp2_parser \<Rightarrow> packet \<Rightarrow> 'm pstate \<Rightarrow> 'm step_result res" where
  "fast_step fuel P p st =
     bind_res (deref (nodes P) (ps_node st)) (\<lambda>nd.
     (case pn_proto_def nd of
        None \<Rightarrow> Err NullPointer
      | Some pd \<Rightarrow>
          (let hdr = ps_hdr st; frame = ps_frame st; ctrl = ps_ctrl st
           in
           bind_res (header_length_fast pd p hdr (ps_len st)) (\<lambda>r.
           (case r of
              Inl ret \<Rightarrow> Ok (Out ret st)
            | Inr hlen \<Rightarrow>
                bind_res (call_extract (pn_extract_metadata nd) p (Some hdr) hlen frame ctrl (ps_us st)) (\<lambda>us1.
                bind_res (call_handler (pn_handler nd) p (Some hdr) hlen frame ctrl us1) (\<lambda>(_, us2).
                bind_res (parse_super_fast fuel P p nd pd hdr hlen frame ctrl us2) (\<lambda>(ret, ctrl3, us3).
                (let st3 = st\<lparr>ps_ctrl := ctrl3, ps_us := us3\<rparr> in
                 if ret \<noteq> XDP2_OKAY then Ok (Out ret st3)
                 else
                  (case (if pd_encap pd then bump_encap (config P) st3 else Continue st3) of
                     Out ret st4 \<Rightarrow> Ok (Out ret st4)
                   | Continue st4 \<Rightarrow>
                       bind_res (find_next_fast nd pd p hdr) (\<lambda>r.
                       (case r of
                          Inl ret \<Rightarrow> Ok (Out ret st4)
                        | Inr n \<Rightarrow>
                            Ok (Continue ((if pd_overlay pd then st4
                               else st4\<lparr>ps_hdr := hdr + unat hlen, ps_len := ps_len st4 - hlen\<rparr>)
                               \<lparr>ps_node := Some n\<rparr>))))))))))))))"

primrec parse_fast_loop ::
  "nat \<Rightarrow> nat \<Rightarrow> 'm xdp2_parser \<Rightarrow> packet \<Rightarrow> 'm pstate \<Rightarrow> (int \<times> 'm pstate) res" where
  "parse_fast_loop 0 fuel P p st = Err StillRunning"
| "parse_fast_loop (Suc k) fuel P p st =
     bind_res (fast_step fuel P p st) (\<lambda>r.
     (case r of
        Out ret st' \<Rightarrow> Ok (ret, st')
      | Continue st' \<Rightarrow> parse_fast_loop k fuel P p st'))"

definition xdp2_parse_fast ::
  "nat \<Rightarrow> nat \<Rightarrow> 'm xdp2_parser \<Rightarrow> packet \<Rightarrow> nat \<Rightarrow> size_t \<Rightarrow> xdp2_ctrl_data \<Rightarrow> 'm ustate
   \<Rightarrow> (int \<times> 'm pstate) res" where
  "xdp2_parse_fast k fuel P p hdr len ctrl us =
     parse_fast_loop k fuel P p (parse_init P hdr len ctrl us)"

section \<open>Validation for the fast engine\<close>

definition NUM_FAST_NODES :: nat where [xdp2_consts]: "NUM_FAST_NODES = 64"

text \<open>The checks on one node, up to the \<open>switch\<close>.\<close>

definition fast_node_check :: "'m xdp2_parse_node \<Rightarrow> bool" where
  "fast_node_check nd =
     (pn_post_handler nd = None \<and>
      (case pn_proto_def nd of
         None \<Rightarrow> False
       | Some pd \<Rightarrow>
           op_next_proto_keyin (pd_ops pd) = None \<and>
           (case pn_node_type nd of
              XDP2_NODE_TYPE_TLVS \<Rightarrow> pd_node_type pd = XDP2_NODE_TYPE_TLVS
            | XDP2_NODE_TYPE_FLAG_FIELDS \<Rightarrow> pd_node_type pd = XDP2_NODE_TYPE_FLAG_FIELDS
            | _ \<Rightarrow> True)))"

text \<open>The loop over the table entries; \<open>visit\<close> is the recursive call.\<close>

primrec validate_entries ::
  "(node_id list \<Rightarrow> node_id \<Rightarrow> (bool \<times> node_id list) res) \<Rightarrow> node_id list
   \<Rightarrow> xdp2_proto_table \<Rightarrow> (bool \<times> node_id list) res" where
  "validate_entries visit fns [] = Ok (True, fns)"
| "validate_entries visit fns (e # es) =
     (case snd e of
        None \<Rightarrow> validate_entries visit fns es
      | Some m \<Rightarrow> bind_res (visit fns m) (\<lambda>(ok, fns').
          if ok then validate_entries visit fns' es else Ok (False, fns')))"

primrec validate_parse_fast_node ::
  "nat \<Rightarrow> 'm xdp2_parser \<Rightarrow> node_id list \<Rightarrow> node_id \<Rightarrow> (bool \<times> node_id list) res" where
  "validate_parse_fast_node 0 P fns n = Err StillRunning"
| "validate_parse_fast_node (Suc k) P fns n =
     bind_res (deref (nodes P) (Some n)) (\<lambda>nd.
     if n \<in> set fns then Ok (True, fns)
     else if NUM_FAST_NODES \<le> length fns then Ok (False, fns)
     else if \<not> fast_node_check nd then Ok (False, fns @ [n])
     else (case pn_proto_table nd of
             None \<Rightarrow> Ok (True, fns @ [n])
           | Some t \<Rightarrow> validate_entries (validate_parse_fast_node k P) (fns @ [n]) t))"

text \<open>\<open>mem\<close> says whether \<open>calloc\<close> returned memory for the array of visited nodes.\<close>

definition xdp2_parse_validate_fast :: "bool \<Rightarrow> 'm xdp2_parser \<Rightarrow> bool res" where
  "xdp2_parse_validate_fast mem P =
     (if \<not> mem then Ok False
      else if okay_node (config P) \<noteq> None \<or> fail_node (config P) \<noteq> None \<or> atencap_node (config P) \<noteq> None
      then Ok False
      else if num_counters (config P) \<noteq> 0 \<or> num_keys (config P) \<noteq> 0 then Ok False
      else map_res fst (validate_parse_fast_node (Suc NUM_FAST_NODES) P [] (root_node P)))"

section \<open>Reachability through the protocol tables\<close>

definition table_succ :: "'m xdp2_parser \<Rightarrow> node_id \<Rightarrow> node_id list" where
  "table_succ P n =
     (case nodes P n of
        None \<Rightarrow> []
      | Some nd \<Rightarrow> (case pn_proto_table nd of None \<Rightarrow> [] | Some t \<Rightarrow> List.map_filter snd t))"

inductive table_reach :: "'m xdp2_parser \<Rightarrow> node_id \<Rightarrow> node_id \<Rightarrow> bool" for P r where
  root: "table_reach P r r"
| step: "table_reach P r n \<Longrightarrow> m \<in> set (table_succ P n) \<Longrightarrow> table_reach P r m"

definition fast_node_valid :: "'m xdp2_parser \<Rightarrow> node_id \<Rightarrow> bool" where
  "fast_node_valid P n \<longleftrightarrow> (\<exists>nd. nodes P n = Some nd \<and> fast_node_check nd)"

text \<open>All pointers of the tables point to nodes.\<close>

definition tables_closed :: "'m xdp2_parser \<Rightarrow> bool" where
  "tables_closed P \<longleftrightarrow> (\<forall>n. table_reach P (root_node P) n \<longrightarrow> nodes P n \<noteq> None)"

text \<open>The contract of one visit: the stored nodes are distinct, at most
  \<open>NUM_FAST_NODES\<close>, reachable, and only added to. After a successful visit the node is
  stored, and every node stored during the visit is valid and has all its successors
  stored. A failed visit leaves as reason a stored node that is not valid, or more
  reachable nodes than the array has places.\<close>

definition fns_ok :: "'m xdp2_parser \<Rightarrow> node_id list \<Rightarrow> bool" where
  "fns_ok P fns \<longleftrightarrow> distinct fns \<and> length fns \<le> NUM_FAST_NODES \<and> (\<forall>n\<in>set fns. table_reach P (root_node P) n)"

definition fail_reason :: "'m xdp2_parser \<Rightarrow> bool" where
  "fail_reason P \<longleftrightarrow>
     (\<exists>n. table_reach P (root_node P) n \<and> \<not> fast_node_valid P n) \<or>
     (\<exists>ns. distinct ns \<and> NUM_FAST_NODES < length ns \<and> (\<forall>n\<in>set ns. table_reach P (root_node P) n))"

definition visit_post :: "'m xdp2_parser \<Rightarrow> node_id list \<Rightarrow> node_id set \<Rightarrow> bool \<times> node_id list \<Rightarrow> bool" where
  "visit_post P fns S r \<longleftrightarrow>
     (case r of (ok, fns') \<Rightarrow>
        fns_ok P fns' \<and> set fns \<subseteq> set fns' \<and> length fns \<le> length fns' \<and>
        (if ok then S \<subseteq> set fns' \<and>
           (\<forall>n\<in>set fns' - set fns. fast_node_valid P n \<and> set (table_succ P n) \<subseteq> set fns')
         else fail_reason P))"

lemma map_filter_snd_Cons:
  "List.map_filter snd (e # es) = (case snd e of None \<Rightarrow> [] | Some m \<Rightarrow> [m]) @ List.map_filter snd es"
  by (simp add: List.map_filter_def split: option.split)

lemma visit_post_trans:
  assumes "visit_post P fns S (True, fns1)" "visit_post P fns1 S' r"
  shows "visit_post P fns (S \<union> S') r"
proof (cases r)
  case (Pair ok fns2)
  have v1: "S \<subseteq> set fns1" "\<forall>n\<in>set fns1 - set fns. fast_node_valid P n \<and> set (table_succ P n) \<subseteq> set fns1"
    and m: "set fns \<subseteq> set fns1" "set fns1 \<subseteq> set fns2" "length fns \<le> length fns2" "fns_ok P fns2"
    using assms Pair by (simp_all add: visit_post_def)
  show ?thesis
  proof (cases ok)
    case True
    then have v2: "S' \<subseteq> set fns2"
        "\<forall>n\<in>set fns2 - set fns1. fast_node_valid P n \<and> set (table_succ P n) \<subseteq> set fns2"
      using assms(2) Pair by (simp_all add: visit_post_def)
    have "\<forall>n\<in>set fns2 - set fns. fast_node_valid P n \<and> set (table_succ P n) \<subseteq> set fns2"
      using v1(2) v2(2) m(2) by blast
    then show ?thesis using True Pair m v1(1) v2(1) by (simp add: visit_post_def) blast
  next
    case False
    then show ?thesis using assms(2) Pair m by (simp add: visit_post_def)
  qed
qed

lemma validate_entries_post:
  assumes "fns_ok P fns" "set (List.map_filter snd es) \<subseteq> set (table_succ P n)"
    "table_reach P (root_node P) n" "l \<le> length fns"
    and visit: "\<And>fns m. fns_ok P fns \<Longrightarrow> table_reach P (root_node P) m \<Longrightarrow> l \<le> length fns \<Longrightarrow>
      wp (visit_post P fns {m}) (visit fns m)"
  shows "wp (visit_post P fns (set (List.map_filter snd es))) (validate_entries visit fns es)"
  using assms(1-4)
proof (induction es arbitrary: fns)
  case Nil
  then show ?case by (simp add: visit_post_def List.map_filter_def)
next
  case (Cons e es)
  show ?case
  proof (cases "snd e")
    case None
    with Cons show ?thesis by (simp add: map_filter_snd_Cons)
  next
    case (Some m)
    have "table_reach P (root_node P) m"
      using Cons.prems Some by (auto simp: map_filter_snd_Cons intro: table_reach.step)
    note v = visit [OF Cons.prems(1) this Cons.prems(4)]
    have rest: "wp (visit_post P fns (insert m (set (List.map_filter snd es)))) (validate_entries visit fns1 es)"
      if "visit_post P fns {m} (True, fns1)" for fns1
    proof -
      have "wp (visit_post P fns1 (set (List.map_filter snd es))) (validate_entries visit fns1 es)"
        using that Cons.prems Some
        by (intro Cons.IH) (simp_all add: visit_post_def map_filter_snd_Cons)
      then show ?thesis
        by (rule wp_mono) (use visit_post_trans [OF that] in simp)
    qed
    have stop: "visit_post P fns S (False, fns1)" if "visit_post P fns {m} (False, fns1)" for S fns1
      using that by (simp add: visit_post_def)
    have "wp (visit_post P fns (insert m (set (List.map_filter snd es))))
        ((\<lambda>(ok, fns'). if ok then validate_entries visit fns' es else Ok (False, fns')) r)"
      if "visit_post P fns {m} r" for r
      using that rest stop by (cases r; cases "fst r") simp_all
    then show ?thesis
      using Some wp_mono [OF v] by (simp add: map_filter_snd_Cons)
  qed
qed

lemma fns_ok_snoc:
  "fns_ok P fns \<Longrightarrow> n \<notin> set fns \<Longrightarrow> length fns < NUM_FAST_NODES \<Longrightarrow> table_reach P (root_node P) n \<Longrightarrow>
   fns_ok P (fns @ [n])"
  by (auto simp: fns_ok_def)

lemma full_fail_reason:
  assumes "fns_ok P fns" "n \<notin> set fns" "NUM_FAST_NODES \<le> length fns" "table_reach P (root_node P) n"
  shows "fail_reason P"
proof -
  have "distinct (n # fns) \<and> NUM_FAST_NODES < length (n # fns) \<and>
      (\<forall>k\<in>set (n # fns). table_reach P (root_node P) k)"
    using assms by (auto simp: fns_ok_def)
  then show ?thesis unfolding fail_reason_def by blast
qed

lemma validate_returns:
  assumes "tables_closed P" "fns_ok P fns" "table_reach P (root_node P) n"
    "NUM_FAST_NODES < k + length fns"
  shows "wp (visit_post P fns {n}) (validate_parse_fast_node k P fns n)"
  using assms
proof (induction k arbitrary: fns n)
  case 0
  then show ?case by (simp add: fns_ok_def)
next
  case (Suc k)
  obtain nd where nd: "nodes P n = Some nd"
    using Suc.prems(1,3) by (auto simp: tables_closed_def)
  consider "n \<in> set fns" | "n \<notin> set fns" "NUM_FAST_NODES \<le> length fns"
    | "n \<notin> set fns" "length fns < NUM_FAST_NODES" by linarith
  then show ?case
  proof cases
    case 1
    then show ?thesis using nd Suc.prems by (simp add: visit_post_def)
  next
    case 2
    then show ?thesis using nd Suc.prems full_fail_reason [OF Suc.prems(2) 2 Suc.prems(3)]
      by (simp add: visit_post_def)
  next
    case 3
    note ok = fns_ok_snoc [OF Suc.prems(2) 3 Suc.prems(3)]
    have bad: "fail_reason P" if "\<not> fast_node_check nd"
      using that nd Suc.prems(3) by (auto simp: fail_reason_def fast_node_valid_def)
    have sub: "wp (visit_post P (fns @ [n]) (set (table_succ P n)))
        (validate_entries (validate_parse_fast_node k P) (fns @ [n]) t)"
      if "pn_proto_table nd = Some t" for t
    proof -
      have s: "List.map_filter snd t = table_succ P n" using that nd by (simp add: table_succ_def)
      show ?thesis unfolding s [symmetric]
        using ok Suc.prems s
        by (intro validate_entries_post [where n = n and l = "Suc (length fns)"] Suc.IH) auto
    qed
    have "visit_post P fns {n} r"
      if "visit_post P (fns @ [n]) (set (table_succ P n)) r" "fast_node_check nd" for r
      using that nd 3 unfolding visit_post_def fast_node_valid_def
      by (auto split: prod.splits if_splits)
    note lift = this
    show ?thesis
    proof (cases "fast_node_check nd")
      case False
      then have "visit_post P fns {n} (False, fns @ [n])"
        using ok bad by (auto simp: visit_post_def)
      then show ?thesis using False nd 3 by simp
    next
      case chk: True
      show ?thesis
      proof (cases "pn_proto_table nd")
        case None
        then have "visit_post P (fns @ [n]) (set (table_succ P n)) (True, fns @ [n])"
          using nd ok by (auto simp: visit_post_def table_succ_def)
        from lift [OF this chk] show ?thesis using None nd 3 chk by simp
      next
        case (Some t)
        have "wp (visit_post P fns {n}) (validate_entries (validate_parse_fast_node k P) (fns @ [n]) t)"
          by (rule wp_mono [OF sub [OF Some]]) (rule lift [OF _ chk])
        then show ?thesis using Some nd 3 chk by simp
      qed
    qed
  qed
qed

lemma table_reach_closed:
  assumes "table_reach P r n" "r \<in> S" "\<And>m. m \<in> S \<Longrightarrow> set (table_succ P m) \<subseteq> S"
  shows "n \<in> S"
  using assms by (induction rule: table_reach.induct) auto

text \<open>What a positive answer means.\<close>

definition fast_compatible :: "'m xdp2_parser \<Rightarrow> bool" where
  "fast_compatible P \<longleftrightarrow>
     okay_node (config P) = None \<and> fail_node (config P) = None \<and> atencap_node (config P) = None \<and>
     num_counters (config P) = 0 \<and> num_keys (config P) = 0 \<and>
     (\<forall>n. table_reach P (root_node P) n \<longrightarrow> fast_node_valid P n) \<and>
     (\<exists>ns. length ns \<le> NUM_FAST_NODES \<and> (\<forall>n. table_reach P (root_node P) n \<longrightarrow> n \<in> set ns))"

lemma not_fail_reason:
  assumes "\<forall>n. table_reach P (root_node P) n \<longrightarrow> fast_node_valid P n"
    "length ns \<le> NUM_FAST_NODES" "\<forall>n. table_reach P (root_node P) n \<longrightarrow> n \<in> set ns"
  shows "\<not> fail_reason P"
proof
  assume "fail_reason P"
  then obtain ms where ms: "distinct ms" "NUM_FAST_NODES < length ms" "set ms \<subseteq> set ns"
    using assms(1,3) by (auto simp: fail_reason_def)
  then have "length ms \<le> card (set ns)" by (metis List.finite_set card_mono distinct_card)
  also have "\<dots> \<le> length ns" by (rule card_length)
  finally show False using ms(2) assms(2) by simp
qed

lemma validate_root:
  assumes "tables_closed P"
  shows "wp (visit_post P [] {root_node P})
    (validate_parse_fast_node (Suc NUM_FAST_NODES) P [] (root_node P))"
  using assms by (intro validate_returns) (auto simp: fns_ok_def intro: table_reach.root)

lemma visit_root_iff:
  assumes "visit_post P [] {root_node P} (ok, fns)"
  shows "ok \<longleftrightarrow> (\<forall>n. table_reach P (root_node P) n \<longrightarrow> fast_node_valid P n) \<and>
     (\<exists>ns. length ns \<le> NUM_FAST_NODES \<and> (\<forall>n. table_reach P (root_node P) n \<longrightarrow> n \<in> set ns))"
proof (cases ok)
  case True
  then have s: "root_node P \<in> set fns" "\<And>m. m \<in> set fns \<Longrightarrow> set (table_succ P m) \<subseteq> set fns"
    and v: "\<forall>n\<in>set fns. fast_node_valid P n" and l: "length fns \<le> NUM_FAST_NODES"
    using assms by (auto simp: visit_post_def fns_ok_def)
  have "n \<in> set fns" if "table_reach P (root_node P) n" for n
    using table_reach_closed [OF that s] by simp
  with True v l show ?thesis by blast
next
  case False
  then have "fail_reason P" using assms by (simp add: visit_post_def)
  with False show ?thesis using not_fail_reason by blast
qed

end
