(* ===== verification/Proto_Base.thy ===== *)
theory Proto_Base
  imports Parser
begin

text \<open>
  What the protocol definitions under \<open>src/include/xdp2/proto_defs/\<close> share: the
  zero-initialised structures that a C designated initialiser starts from, byte order
  conversions, and the NULL protocol definitions of \<open>parser.h\<close> and \<open>tlvs.h\<close>. Field offsets
  and sizes of \<open>struct ethhdr\<close>, \<open>struct iphdr\<close> and so on are those of the wire formats.

  The collection \<open>proto_simps\<close> holds the definitions of the protocol operations, and
  \<open>proto_ok\<close> the proofs that a definition keeps the contract of the engine.
\<close>

named_theorems proto_simps \<open>definitions of protocol operations\<close>
named_theorems proto_ok \<open>protocol definitions that keep the contract of the engine\<close>

definition htons :: "u16 \<Rightarrow> u16" where [proto_simps]: "htons x = bswap16 x"
definition ntohs :: "u16 \<Rightarrow> u16" where [proto_simps]: "ntohs x = bswap16 x"
definition htonl :: "u32 \<Rightarrow> u32" where [proto_simps]: "htonl x = bswap32 x"
definition ntohl :: "u32 \<Rightarrow> u32" where [proto_simps]: "ntohl x = bswap32 x"

text \<open>A return code in place of a length.\<close>

definition ret_len :: "int \<Rightarrow> ssize_t" where [proto_simps]: "ret_len r = word_of_int r"

definition parse_ops0 :: xdp2_parse_ops where [proto_simps]:
  "parse_ops0 = \<lparr>op_len = None, op_next_proto = None, op_next_proto_keyin = None\<rparr>"

definition proto_def0 :: xdp2_proto_def where [proto_simps]:
  "proto_def0 = \<lparr>pd_node_type = XDP2_NODE_TYPE_PLAIN, pd_encap = False, pd_overlay = False,
     pd_min_len = 0, pd_name = '''', pd_ops = parse_ops0, pd_super = PlainDef\<rparr>"

definition tlv_def0 :: xdp2_proto_tlv_def where [proto_simps]:
  "tlv_def0 = \<lparr>tlv_min_len = 0, overlay_type = None, nested_offset = None\<rparr>"

definition xdp2_parse_null :: xdp2_proto_def where [proto_simps]:
  "xdp2_parse_null = proto_def0\<lparr>pd_name := ''NULL-proto''\<rparr>"

definition xdp2_parse_null_overlay :: xdp2_proto_def where [proto_simps]:
  "xdp2_parse_null_overlay = proto_def0\<lparr>pd_name := ''NULL-proto'', pd_overlay := True\<rparr>"

definition xdp2_parse_tlv_null :: xdp2_proto_tlv_def where [proto_simps]:
  "xdp2_parse_tlv_null = tlv_def0"

lemma wp_rd32_iff [simp]: "wp (\<lambda>_. True) (rd32 p off) \<longleftrightarrow> off + 4 \<le> length p"
  by (auto simp: rd32_def)

lemma htons_ntohs [simp]: "htons (ntohs x) = x" "ntohs (htons x) = x"
  by (simp_all add: htons_def ntohs_def bswap16_involutive)

lemma null_ok [proto_ok]: "proto_def_ok p xdp2_parse_null" "proto_def_ok p xdp2_parse_null_overlay"
  by (simp_all add: proto_def_ok_def proto_simps)

lemma tlv_null_ok [proto_ok]: "tlv_def_ok p xdp2_parse_tlv_null"
  by (simp add: tlv_def_ok_def proto_simps)

end
