(* ===== verification/Parser_Api.thy ===== *)
theory Parser_Api
  imports Parser_Fast Proto_Base
begin

text \<open>
  The interface of \<open>src/include/xdp2/parser.h\<close> (with \<open>tlvs.h\<close> and \<open>flag_fields.h\<close>) that
  applications use: the macros that make parse nodes and parsers, the initialisation of
  the control data, parser tables, and the dispatch \<open>xdp2_parse\<close>. The entry point of an
  optimized parser is code the xdp2 compiler generates; it is a parameter of \<open>xdp2_parse\<close>.
\<close>

section \<open>Making parse nodes\<close>

text \<open>\<open>__XDP2_MAKE_PARSE_NODE_COMMON\<close>; the only extra option that the parsers of the library
  set is the metadata extractor.\<close>

definition make_parse_node_common ::
  "xdp2_proto_def \<Rightarrow> xdp2_proto_table option \<Rightarrow> 'm extract_fn option \<Rightarrow> 'm xdp2_parse_node" where
  "make_parse_node_common pd table extract =
     \<lparr>pn_node_type = XDP2_NODE_TYPE_PLAIN, pn_unknown_ret = word_of_int XDP2_STOP_UNKNOWN_PROTO,
      pn_key_sel = 0, pn_flags = 0, pn_proto_def = Some pd, pn_extract_metadata = extract,
      pn_handler = None, pn_post_handler = None, pn_proto_table = table, pn_wildcard_node = None,
      pn_super = UserNode\<rparr>"

definition XDP2_MAKE_PARSE_NODE ::
  "xdp2_proto_def \<Rightarrow> xdp2_proto_table \<Rightarrow> 'm extract_fn option \<Rightarrow> 'm xdp2_parse_node" where
  "XDP2_MAKE_PARSE_NODE pd table extract = make_parse_node_common pd (Some table) extract"

definition XDP2_MAKE_AUTONEXT_PARSE_NODE ::
  "xdp2_proto_def \<Rightarrow> node_id \<Rightarrow> 'm extract_fn option \<Rightarrow> 'm xdp2_parse_node" where
  "XDP2_MAKE_AUTONEXT_PARSE_NODE pd nxt extract =
     (make_parse_node_common pd None extract)\<lparr>pn_wildcard_node := Some nxt\<rparr>"

definition XDP2_MAKE_LEAF_PARSE_NODE ::
  "xdp2_proto_def \<Rightarrow> 'm extract_fn option \<Rightarrow> 'm xdp2_parse_node" where
  "XDP2_MAKE_LEAF_PARSE_NODE pd extract = make_parse_node_common pd None extract"

text \<open>\<open>__XDP2_MAKE_TLVS_PARSE_NODE_COMMON\<close> and the macros on top of it.\<close>

definition make_tlvs_parse_node_common ::
  "xdp2_proto_def \<Rightarrow> xdp2_proto_tlvs_table \<Rightarrow> 'm extract_fn option \<Rightarrow> 'm xdp2_parse_node" where
  "make_tlvs_parse_node_common pd tlv_table extract =
     (make_parse_node_common pd None extract)\<lparr>pn_node_type := XDP2_NODE_TYPE_TLVS,
       pn_super := TlvsNode \<lparr>tlv_proto_table = Some tlv_table, max_tlvs = 0, max_tlv_len = 0,
                             unknown_tlv_type_ret = XDP2_OKAY, tlv_wildcard_node = None\<rparr>\<rparr>"

definition XDP2_MAKE_TLVS_PARSE_NODE ::
  "xdp2_proto_def \<Rightarrow> xdp2_proto_table \<Rightarrow> xdp2_proto_tlvs_table \<Rightarrow> 'm extract_fn option
   \<Rightarrow> 'm xdp2_parse_node" where
  "XDP2_MAKE_TLVS_PARSE_NODE pd table tlv_table extract =
     (make_tlvs_parse_node_common pd tlv_table extract)\<lparr>pn_proto_table := Some table\<rparr>"

definition XDP2_MAKE_LEAF_TLVS_PARSE_NODE ::
  "xdp2_proto_def \<Rightarrow> xdp2_proto_tlvs_table \<Rightarrow> 'm extract_fn option \<Rightarrow> 'm xdp2_parse_node" where
  "XDP2_MAKE_LEAF_TLVS_PARSE_NODE pd tlv_table extract =
     make_tlvs_parse_node_common pd tlv_table extract"

definition XDP2_MAKE_TLV_PARSE_NODE ::
  "xdp2_proto_tlv_def \<Rightarrow> 'm extract_fn option \<Rightarrow> 'm xdp2_parse_tlv_node" where
  "XDP2_MAKE_TLV_PARSE_NODE d extract =
     \<lparr>tlv_def = Some d, tlv_extract_metadata = extract, tlv_handler = None, overlay_table = None,
      overlay_wildcard_node = None, nested_node = None, unknown_overlay_ret = XDP2_OKAY\<rparr>"

definition XDP2_MAKE_TLV_OVERLAY_PARSE_NODE ::
  "xdp2_proto_tlv_def \<Rightarrow> xdp2_proto_tlvs_table \<Rightarrow> 'm extract_fn option \<Rightarrow> 'm xdp2_parse_tlv_node" where
  "XDP2_MAKE_TLV_OVERLAY_PARSE_NODE d table extract =
     (XDP2_MAKE_TLV_PARSE_NODE d extract)\<lparr>overlay_table := Some table\<rparr>"

text \<open>Flag-fields nodes: the common macro does not set \<open>unknown_ret\<close>, which is then zero.\<close>

definition make_flag_fields_parse_node_common ::
  "xdp2_proto_def \<Rightarrow> 'm leaf_table \<Rightarrow> 'm extract_fn option \<Rightarrow> 'm xdp2_parse_node" where
  "make_flag_fields_parse_node_common pd table extract =
     (make_parse_node_common pd None extract)\<lparr>pn_node_type := XDP2_NODE_TYPE_FLAG_FIELDS,
       pn_unknown_ret := 0, pn_super := FlagFieldsNode table\<rparr>"

definition XDP2_MAKE_FLAG_FIELDS_PARSE_NODE ::
  "xdp2_proto_def \<Rightarrow> xdp2_proto_table \<Rightarrow> 'm leaf_table \<Rightarrow> 'm extract_fn option \<Rightarrow> 'm xdp2_parse_node" where
  "XDP2_MAKE_FLAG_FIELDS_PARSE_NODE pd table ff_table extract =
     (make_flag_fields_parse_node_common pd ff_table extract)\<lparr>pn_proto_table := Some table\<rparr>"

definition XDP2_MAKE_FLAG_FIELDS_AUTONEXT_PARSE_NODE ::
  "xdp2_proto_def \<Rightarrow> node_id \<Rightarrow> 'm leaf_table \<Rightarrow> 'm extract_fn option \<Rightarrow> 'm xdp2_parse_node" where
  "XDP2_MAKE_FLAG_FIELDS_AUTONEXT_PARSE_NODE pd nxt ff_table extract =
     (make_flag_fields_parse_node_common pd ff_table extract)\<lparr>pn_wildcard_node := Some nxt\<rparr>"

definition XDP2_MAKE_LEAF_FLAG_FIELDS_PARSE_NODE ::
  "xdp2_proto_def \<Rightarrow> 'm leaf_table \<Rightarrow> 'm extract_fn option \<Rightarrow> 'm xdp2_parse_node" where
  "XDP2_MAKE_LEAF_FLAG_FIELDS_PARSE_NODE pd ff_table extract =
     make_flag_fields_parse_node_common pd ff_table extract"

definition XDP2_MAKE_FLAG_FIELD_PARSE_NODE :: "'m extract_fn option \<Rightarrow> 'm xdp2_parse_flag_field_node" where
  "XDP2_MAKE_FLAG_FIELD_PARSE_NODE extract = \<lparr>leaf_extract_metadata = extract, leaf_handler = None\<rparr>"

definition XDP2_FLAG_NODE_NULL :: "'m xdp2_parse_flag_field_node" where
  "XDP2_FLAG_NODE_NULL = XDP2_MAKE_FLAG_FIELD_PARSE_NODE None"

lemmas make_node_simps = make_parse_node_common_def XDP2_MAKE_PARSE_NODE_def
  XDP2_MAKE_AUTONEXT_PARSE_NODE_def XDP2_MAKE_LEAF_PARSE_NODE_def make_tlvs_parse_node_common_def
  XDP2_MAKE_TLVS_PARSE_NODE_def XDP2_MAKE_LEAF_TLVS_PARSE_NODE_def XDP2_MAKE_TLV_PARSE_NODE_def
  XDP2_MAKE_TLV_OVERLAY_PARSE_NODE_def make_flag_fields_parse_node_common_def
  XDP2_MAKE_FLAG_FIELDS_PARSE_NODE_def XDP2_MAKE_FLAG_FIELDS_AUTONEXT_PARSE_NODE_def
  XDP2_MAKE_LEAF_FLAG_FIELDS_PARSE_NODE_def XDP2_MAKE_FLAG_FIELD_PARSE_NODE_def XDP2_FLAG_NODE_NULL_def

section \<open>Making parsers\<close>

definition XDP2_PARSER_CONFIG_DEFAULTS :: xdp2_parser_config where
  "XDP2_PARSER_CONFIG_DEFAULTS = \<lparr>max_nodes = 255, max_encaps = 4, max_frames = 4,
     metameta_size = 64, frame_size = 256, num_counters = 0, num_keys = 0,
     okay_node = None, fail_node = None, atencap_node = None\<rparr>"

definition XDP2_PARSER ::
  "node_id \<Rightarrow> xdp2_parser_config \<Rightarrow> (node_id \<Rightarrow> 'm xdp2_parse_node option)
   \<Rightarrow> (tlv_id \<Rightarrow> 'm xdp2_parse_tlv_node option) \<Rightarrow> 'm xdp2_parser" where
  "XDP2_PARSER root cfg nds tlvs = \<lparr>parser_type = XDP2_GENERIC, config = cfg, root_node = root,
     nodes = nds, tlv_nodes = tlvs\<rparr>"

section \<open>Control data\<close>

definition ctrl_var0 :: xdp2_ctrl_var_data where
  "ctrl_var0 = \<lparr>last_node = None, ret_code = 0, encaps = 0, node_cnt = 0, tlv_levels = 0,
     var_pkt_csum = 0, hdr_csum = 0\<rparr>"

definition XDP2_CTRL_RESET_VAR_DATA :: "xdp2_ctrl_data \<Rightarrow> xdp2_ctrl_data" where
  "XDP2_CTRL_RESET_VAR_DATA ctrl = ctrl\<lparr>var := ctrl_var0\<rparr>"

definition ctrl_pkt0 :: xdp2_ctrl_packet_data where
  "ctrl_pkt0 = \<lparr>start = 0, pkt_len = 0, seqno = 0, timestamp = 0, in_port = 0, vrf_id = 0,
     pkt_csum = 0, pkt_flags = 0\<rparr>"

definition XDP2_CTRL_SET_BASIC_PKT_DATA ::
  "xdp2_ctrl_data \<Rightarrow> nat \<Rightarrow> size_t \<Rightarrow> u32 \<Rightarrow> xdp2_ctrl_data" where
  "XDP2_CTRL_SET_BASIC_PKT_DATA ctrl pkt_start len sn =
     ctrl\<lparr>pkt := ctrl_pkt0\<lparr>start := pkt_start, pkt_len := len, seqno := sn\<rparr>\<rparr>"

text \<open>\<open>XDP2_CTRL_INIT_KEY_DATA\<close> clears the whole control structure and allocates the zeroed
  counters and keys; \<open>XDP2_CTRL_RESET_KEY_DATA\<close> zeroes them again.\<close>

definition XDP2_CTRL_INIT_KEY_DATA ::
  "'m xdp2_parser \<Rightarrow> 'm ustate \<Rightarrow> xdp2_ctrl_data \<times> 'm ustate" where
  "XDP2_CTRL_INIT_KEY_DATA P us =
     (\<lparr>var = ctrl_var0, pkt = ctrl_pkt0\<rparr>,
      us\<lparr>counters := replicate (unat (num_counters (config P))) 0,
         keys := replicate (unat (num_keys (config P))) 0\<rparr>)"

definition XDP2_CTRL_RESET_KEY_DATA :: "'m xdp2_parser \<Rightarrow> 'm ustate \<Rightarrow> 'm ustate res" where
  "XDP2_CTRL_RESET_KEY_DATA P us =
     (let nc = unat (num_counters (config P)); nk = unat (num_keys (config P))
      in if nc \<le> length (counters us) \<and> nk \<le> length (keys us)
         then Ok (us\<lparr>counters := replicate nc 0 @ drop nc (counters us),
                     keys := replicate nk 0 @ drop nk (keys us)\<rparr>)
         else Err OutOfBounds)"

section \<open>Running parsers\<close>

type_synonym 'm parse_result = "(int \<times> xdp2_ctrl_data \<times> 'm ustate) res"
type_synonym 'm entry_point =
  "'m xdp2_parser \<Rightarrow> packet \<Rightarrow> nat \<Rightarrow> size_t \<Rightarrow> xdp2_ctrl_data \<Rightarrow> 'm ustate \<Rightarrow> 'm parse_result"

definition parse_result :: "(int \<times> 'm pstate) res \<Rightarrow> 'm parse_result" where
  "parse_result = map_res (\<lambda>(ret, st). (ret, ps_ctrl st, ps_us st))"

definition xdp2_parse :: "'m entry_point \<Rightarrow> nat \<Rightarrow> 'm entry_point" where
  "xdp2_parse entry_point fuel P p hdr len ctrl us =
     (case parser_type P of
        XDP2_GENERIC \<Rightarrow> parse_result (xdp2_parse_generic fuel P p hdr len ctrl us)
      | XDP2_OPTIMIZED \<Rightarrow> entry_point P p hdr len ctrl us
      | _ \<Rightarrow> Ok (XDP2_STOP_FAIL, ctrl, us))"

fun xdp2_lookup_parser_table :: "(int \<times> 'm xdp2_parser) list \<Rightarrow> int \<Rightarrow> 'm xdp2_parser option" where
  "xdp2_lookup_parser_table [] key = None"
| "xdp2_lookup_parser_table ((v, P) # es) key = (if v = key then Some P else xdp2_lookup_parser_table es key)"

text \<open>\<open>xdp2_parse_from_table\<close> hands a NULL header of length zero to the parser: the empty
  packet.\<close>

definition xdp2_parse_from_table ::
  "'m entry_point \<Rightarrow> nat \<Rightarrow> (int \<times> 'm xdp2_parser) list \<Rightarrow> int \<Rightarrow> xdp2_ctrl_data \<Rightarrow> 'm ustate
   \<Rightarrow> 'm parse_result" where
  "xdp2_parse_from_table entry_point fuel table key ctrl us =
     (case xdp2_lookup_parser_table table key of
        None \<Rightarrow> Ok (XDP2_STOP_FAIL, ctrl, us)
      | Some P \<Rightarrow> xdp2_parse entry_point fuel P [] 0 0 ctrl us)"

lemma reset_encaps [simp]: "encaps (var (XDP2_CTRL_RESET_VAR_DATA ctrl)) = 0"
  by (simp add: XDP2_CTRL_RESET_VAR_DATA_def ctrl_var0_def)

section \<open>Contracts of made nodes\<close>

definition table_in :: "node_id set \<Rightarrow> xdp2_proto_table \<Rightarrow> bool" where
  "table_in N t \<longleftrightarrow> (\<forall>e\<in>set t. case snd e of None \<Rightarrow> True | Some n \<Rightarrow> n \<in> N)"

lemma table_in_mem: "table_in N t \<Longrightarrow> (k, Some n) \<in> set t \<Longrightarrow> n \<in> N"
  by (force simp: table_in_def)

lemma make_node_ok:
  assumes "proto_def_ok p pd" "op_next_proto_keyin (pd_ops pd) = None" "table_in N table"
    "extract_ok I Fr p (unat (pd_min_len pd)) ext"
  shows "parse_node_ok P p I Fr T M rk R N (XDP2_MAKE_PARSE_NODE pd table ext) pd"
  using assms by (auto simp: parse_node_ok_def super_ok_def next_ok_def make_node_simps dest: table_in_mem)

lemma make_autonext_node_ok:
  assumes "proto_def_ok p pd" "nxt \<in> N" "extract_ok I Fr p (unat (pd_min_len pd)) ext"
  shows "parse_node_ok P p I Fr T M rk R N (XDP2_MAKE_AUTONEXT_PARSE_NODE pd nxt ext) pd"
  using assms by (auto simp: parse_node_ok_def super_ok_def next_ok_def make_node_simps)

lemma make_leaf_node_ok:
  assumes "proto_def_ok p pd" "extract_ok I Fr p (unat (pd_min_len pd)) ext"
  shows "parse_node_ok P p I Fr T M rk R N (XDP2_MAKE_LEAF_PARSE_NODE pd ext) pd"
  using assms by (auto simp: parse_node_ok_def super_ok_def next_ok_def make_node_simps)

lemma make_leaf_tlvs_node_ok:
  assumes "proto_def_ok p pd" "extract_ok I Fr p (unat (pd_min_len pd)) ext"
    "pd_super pd = TlvsDef d" "tlvs_def_ok p (unat (pd_min_len pd)) d"
    "\<And>tn. tlv_proto_table tn = Some table \<Longrightarrow> tlv_wildcard_node tn = None \<Longrightarrow> tlvs_node_ok P p T M rk R tn"
  shows "parse_node_ok P p I Fr T M rk R N (XDP2_MAKE_LEAF_TLVS_PARSE_NODE pd table ext) pd"
  using assms
  by (simp add: parse_node_ok_def super_ok_def next_ok_def make_node_simps
      split: xdp2_parser_node_type.split)

lemma flag_fields_super_ok:
  assumes "pn_node_type nd = XDP2_NODE_TYPE_FLAG_FIELDS" "pn_super nd = FlagFieldsNode ffs"
    "pd_super pd = FlagFieldsDef d" "ff_leaf_table_ok I Fr p (flag_fields d) ffs"
    "\<And>hdr len hlen. header_length pd p hdr len = Ok (Inr hlen) \<Longrightarrow> ff_def_ok p hdr hlen d"
  shows "super_ok P p I Fr T M rk R nd pd"
proof (cases "pd_node_type pd = XDP2_NODE_TYPE_FLAG_FIELDS")
  case True
  then show ?thesis unfolding super_ok_def assms(1) True prod.case xdp2_parser_node_type.case
    using assms(2-5) by blast
next
  case False
  then show ?thesis using assms(1) by (cases "pd_node_type pd") (simp_all add: super_ok_def)
qed

lemma make_flag_fields_node_ok:
  assumes "proto_def_ok p pd" "op_next_proto_keyin (pd_ops pd) = None" "table_in N table"
    "extract_ok I Fr p (unat (pd_min_len pd)) ext" "pd_super pd = FlagFieldsDef d"
    "ff_leaf_table_ok I Fr p (flag_fields d) ffs"
    "\<And>hdr len hlen. header_length pd p hdr len = Ok (Inr hlen) \<Longrightarrow> ff_def_ok p hdr hlen d"
  shows "parse_node_ok P p I Fr T M rk R N (XDP2_MAKE_FLAG_FIELDS_PARSE_NODE pd table ffs ext) pd"
proof -
  have "super_ok P p I Fr T M rk R (XDP2_MAKE_FLAG_FIELDS_PARSE_NODE pd table ffs ext) pd"
    by (rule flag_fields_super_ok [OF _ _ assms(5,6)]) (simp add: make_node_simps, simp add: make_node_simps, erule assms(7))
  then show ?thesis
    using assms(1-4) by (auto simp: parse_node_ok_def next_ok_def make_node_simps dest: table_in_mem)
qed

lemma make_flag_fields_autonext_node_ok:
  assumes "proto_def_ok p pd" "nxt \<in> N"
    "extract_ok I Fr p (unat (pd_min_len pd)) ext" "pd_super pd = FlagFieldsDef d"
    "ff_leaf_table_ok I Fr p (flag_fields d) ffs"
    "\<And>hdr len hlen. header_length pd p hdr len = Ok (Inr hlen) \<Longrightarrow> ff_def_ok p hdr hlen d"
  shows "parse_node_ok P p I Fr T M rk R N (XDP2_MAKE_FLAG_FIELDS_AUTONEXT_PARSE_NODE pd nxt ffs ext) pd"
proof -
  have "super_ok P p I Fr T M rk R (XDP2_MAKE_FLAG_FIELDS_AUTONEXT_PARSE_NODE pd nxt ffs ext) pd"
    by (rule flag_fields_super_ok [OF _ _ assms(4,5)]) (simp add: make_node_simps, simp add: make_node_simps, erule assms(6))
  then show ?thesis
    using assms(1-3) by (auto simp: parse_node_ok_def next_ok_def make_node_simps)
qed

end
