(* ===== verification/Proto_Link.thy ===== *)
theory Proto_Link
  imports Proto_Base
begin

text \<open>
  Link-layer protocols of \<open>src/include/xdp2/proto_defs/\<close>: Ethernet, VLAN, MPLS, ARP and
  RARP, BATMAN, FCoE, PPP, PPPoE and TIPC.
\<close>

section \<open>proto_ether.h\<close>

definition ether_proto :: type_fn where [proto_simps]:
  "ether_proto p veth = map_res uint (rd16 p (veth + 12))"

definition xdp2_parse_ether :: xdp2_proto_def where [proto_simps]:
  "xdp2_parse_ether = proto_def0\<lparr>pd_name := ''Ethernet'', pd_min_len := 14,
     pd_ops := parse_ops0\<lparr>op_next_proto := Some ether_proto\<rparr>\<rparr>"

section \<open>proto_vlan.h\<close>

definition VLAN_PRIO_MASK :: u16 where [proto_simps]: "VLAN_PRIO_MASK = 0xe000"
definition VLAN_PRIO_SHIFT :: nat where [proto_simps]: "VLAN_PRIO_SHIFT = 13"
definition VLAN_VID_MASK :: u16 where [proto_simps]: "VLAN_VID_MASK = 0x0fff"

definition vlan_proto :: type_fn where [proto_simps]:
  "vlan_proto p vvlan = map_res uint (rd16 p (vvlan + 2))"

definition xdp2_parse_vlan :: xdp2_proto_def where [proto_simps]:
  "xdp2_parse_vlan = proto_def0\<lparr>pd_name := ''VLAN'', pd_min_len := 4,
     pd_ops := parse_ops0\<lparr>op_next_proto := Some vlan_proto\<rparr>\<rparr>"

section \<open>proto_mpls.h\<close>

definition xdp2_parse_mpls :: xdp2_proto_def where [proto_simps]:
  "xdp2_parse_mpls = proto_def0\<lparr>pd_name := ''MPLS'', pd_min_len := 2 * 4\<rparr>"

section \<open>proto_arp_rarp.h\<close>

definition arp_len_check :: len_fn where [proto_simps]:
  "arp_len_check p vearp maxlen =
     bind_res (rd16 p vearp) (\<lambda>hrd.
     if hrd \<noteq> htons 1 then Ok (ret_len XDP2_STOP_FAIL)
     else bind_res (rd16 p (vearp + 2)) (\<lambda>pro.
     if pro \<noteq> htons 0x0800 then Ok (ret_len XDP2_STOP_FAIL)
     else bind_res (rd8 p (vearp + 4)) (\<lambda>hln.
     if hln \<noteq> 6 then Ok (ret_len XDP2_STOP_FAIL)
     else bind_res (rd8 p (vearp + 5)) (\<lambda>pln.
     if pln \<noteq> 4 then Ok (ret_len XDP2_STOP_FAIL)
     else bind_res (rd16 p (vearp + 6)) (\<lambda>op.
     if op \<noteq> htons 2 \<and> op \<noteq> htons 1 then Ok (ret_len XDP2_STOP_FAIL)
     else Ok 28)))))"

definition xdp2_parse_arp :: xdp2_proto_def where [proto_simps]:
  "xdp2_parse_arp = proto_def0\<lparr>pd_name := ''ARP'', pd_min_len := 28,
     pd_ops := parse_ops0\<lparr>op_len := Some arp_len_check\<rparr>\<rparr>"

definition xdp2_parse_rarp :: xdp2_proto_def where [proto_simps]:
  "xdp2_parse_rarp = proto_def0\<lparr>pd_name := ''RARP'', pd_min_len := 28,
     pd_ops := parse_ops0\<lparr>op_len := Some arp_len_check\<rparr>\<rparr>"

section \<open>proto_batman.h\<close>

definition batman_len_check :: len_fn where [proto_simps]:
  "batman_len_check p vbeth maxlen =
     bind_res (rd8 p (vbeth + 1)) (\<lambda>version.
     if version \<noteq> 15 then Ok (ret_len XDP2_STOP_FAIL)
     else bind_res (rd8 p vbeth) (\<lambda>packet_type.
     if packet_type \<noteq> 0x40 then Ok (ret_len XDP2_STOP_FAIL) else Ok 24))"

definition batman_proto :: type_fn where [proto_simps]:
  "batman_proto p vbeth = map_res uint (rd16 p (vbeth + 22))"

definition xdp2_parse_batman :: xdp2_proto_def where [proto_simps]:
  "xdp2_parse_batman = proto_def0\<lparr>pd_name := ''BATMAN'', pd_encap := True, pd_min_len := 24,
     pd_ops := parse_ops0\<lparr>op_len := Some batman_len_check, op_next_proto := Some batman_proto\<rparr>\<rparr>"

section \<open>proto_fcoe.h, proto_ppp.h, proto_pppoe.h and proto_tipc.h\<close>

definition xdp2_parse_fcoe :: xdp2_proto_def where [proto_simps]:
  "xdp2_parse_fcoe = proto_def0\<lparr>pd_name := ''FCOE'', pd_min_len := 38\<rparr>"

definition ppp_proto :: type_fn where [proto_simps]:
  "ppp_proto p vppp = map_res uint (rd16 p (vppp + 2))"

definition xdp2_parse_ppp :: xdp2_proto_def where [proto_simps]:
  "xdp2_parse_ppp = proto_def0\<lparr>pd_name := ''PPP'', pd_min_len := 4,
     pd_ops := parse_ops0\<lparr>op_next_proto := Some ppp_proto\<rparr>\<rparr>"

definition pppoe_proto :: type_fn where [proto_simps]:
  "pppoe_proto p vppp = map_res uint (rd16 p (vppp + 6))"

definition xdp2_parse_pppoe :: xdp2_proto_def where [proto_simps]:
  "xdp2_parse_pppoe = proto_def0\<lparr>pd_name := ''PPPoE'', pd_min_len := 8,
     pd_ops := parse_ops0\<lparr>op_next_proto := Some pppoe_proto\<rparr>\<rparr>"

definition TIPC_KEEPALIVE_MSG_MASK :: u32 where [proto_simps]:
  "TIPC_KEEPALIVE_MSG_MASK = 0x0e080000"

definition xdp2_parse_tipc :: xdp2_proto_def where [proto_simps]:
  "xdp2_parse_tipc = proto_def0\<lparr>pd_name := ''TIPC'', pd_min_len := 16\<rparr>"

section \<open>The contract\<close>

lemma link_ok [proto_ok]:
  "proto_def_ok p xdp2_parse_ether" "proto_def_ok p xdp2_parse_vlan"
  "proto_def_ok p xdp2_parse_mpls" "proto_def_ok p xdp2_parse_arp"
  "proto_def_ok p xdp2_parse_rarp" "proto_def_ok p xdp2_parse_batman"
  "proto_def_ok p xdp2_parse_fcoe" "proto_def_ok p xdp2_parse_ppp"
  "proto_def_ok p xdp2_parse_pppoe" "proto_def_ok p xdp2_parse_tipc"
  by (auto simp: proto_def_ok_def proto_simps)

end
