(* ===== verification/Proto_Ip.thy ===== *)
theory Proto_Ip
  imports Proto_Base
begin

text \<open>
  Network-layer protocols of \<open>src/include/xdp2/proto_defs/\<close>: the IP overlay, IPv4, IPv6 and
  its extension headers, IP in IP, segment routing, ICMP, IGMP and neighbour discovery.
\<close>

section \<open>proto_ip.h\<close>

definition ip_proto :: type_fn where [proto_simps]:
  "ip_proto p viph = map_res (\<lambda>b. uint (drop_bit 4 b)) (rd8 p viph)"

definition ip_min_len :: "packet \<Rightarrow> nat \<Rightarrow> size_t" where [proto_simps]:
  "ip_min_len p viph = 1"

definition ip_proto_by_key :: keyin_fn where [proto_simps]:
  "ip_proto_by_key p viph key = Ok (sint key)"

definition xdp2_parse_ip :: xdp2_proto_def where [proto_simps]:
  "xdp2_parse_ip = proto_def0\<lparr>pd_name := ''IP overlay'', pd_overlay := True, pd_min_len := 1,
     pd_ops := parse_ops0\<lparr>op_next_proto := Some ip_proto\<rparr>\<rparr>"

definition xdp2_parse_ip_by_key :: xdp2_proto_def where [proto_simps]:
  "xdp2_parse_ip_by_key = proto_def0\<lparr>pd_name := ''IP overlay by key'', pd_overlay := True,
     pd_ops := parse_ops0\<lparr>op_next_proto_keyin := Some ip_proto_by_key\<rparr>\<rparr>"

section \<open>proto_ipv4.h\<close>

definition IP_MF :: u16 where [proto_simps]: "IP_MF = 0x2000"
definition IP_OFFSET :: u16 where [proto_simps]: "IP_OFFSET = 0x1FFF"

definition ipv4_len :: "packet \<Rightarrow> nat \<Rightarrow> size_t res" where [proto_simps]:
  "ipv4_len p viph = map_res (\<lambda>b. ucast (b AND 0xF) * 4) (rd8 p viph)"

definition ip_is_fragment :: "packet \<Rightarrow> nat \<Rightarrow> bool res" where [proto_simps]:
  "ip_is_fragment p iph = map_res (\<lambda>fo. fo AND htons (IP_MF OR IP_OFFSET) \<noteq> 0) (rd16 p (iph + 6))"

definition ipv4_proto :: type_fn where [proto_simps]:
  "ipv4_proto p viph =
     bind_res (ip_is_fragment p viph) (\<lambda>frag.
     bind_res (rd16 p (viph + 6)) (\<lambda>fo.
     if frag \<and> fo AND htons IP_OFFSET \<noteq> 0 then Ok XDP2_STOP_OKAY
     else map_res uint (rd8 p (viph + 9))))"

definition ipv4_proto_stop1stfrag :: type_fn where [proto_simps]:
  "ipv4_proto_stop1stfrag p viph =
     bind_res (ip_is_fragment p viph) (\<lambda>frag.
     if frag then Ok XDP2_STOP_OKAY else map_res uint (rd8 p (viph + 9)))"

definition ipv4_length :: len_fn where [proto_simps]:
  "ipv4_length p viph maxlen = ipv4_len p viph"

definition ipv4_length_check :: len_fn where [proto_simps]:
  "ipv4_length_check p viph maxlen =
     bind_res (rd8 p viph) (\<lambda>b.
     if drop_bit 4 b \<noteq> 4 then Ok (ret_len XDP2_STOP_UNKNOWN_PROTO) else ipv4_len p viph)"

definition xdp2_parse_ipv4 :: xdp2_proto_def where [proto_simps]:
  "xdp2_parse_ipv4 = proto_def0\<lparr>pd_name := ''IPv4'', pd_min_len := 20,
     pd_ops := parse_ops0\<lparr>op_len := Some ipv4_length, op_next_proto := Some ipv4_proto\<rparr>\<rparr>"

definition xdp2_parse_ipv4_stop1stfrag :: xdp2_proto_def where [proto_simps]:
  "xdp2_parse_ipv4_stop1stfrag =
     proto_def0\<lparr>pd_name := ''IPv4 without parsing 1st fragment'', pd_min_len := 20,
       pd_ops := parse_ops0\<lparr>op_len := Some ipv4_length, op_next_proto := Some ipv4_proto_stop1stfrag\<rparr>\<rparr>"

definition xdp2_parse_ipv4_check :: xdp2_proto_def where [proto_simps]:
  "xdp2_parse_ipv4_check = proto_def0\<lparr>pd_name := ''IPv4-check'', pd_min_len := 20,
     pd_ops := parse_ops0\<lparr>op_len := Some ipv4_length_check, op_next_proto := Some ipv4_proto\<rparr>,
     pd_overlay := True\<rparr>"

definition xdp2_parse_ipv4_stop1stfrag_check :: xdp2_proto_def where [proto_simps]:
  "xdp2_parse_ipv4_stop1stfrag_check =
     proto_def0\<lparr>pd_name := ''IPv4 without parsing 1st fragment'', pd_min_len := 20,
       pd_ops := parse_ops0\<lparr>op_len := Some ipv4_length, op_next_proto := Some ipv4_proto_stop1stfrag\<rparr>\<rparr>"

section \<open>proto_ipv6.h\<close>

definition ipv6_optlen :: "u8 \<Rightarrow> ssize_t" where [proto_simps]:
  "ipv6_optlen hdrlen = push_bit 3 (ucast hdrlen + 1)"

definition ip6_flowlabel :: "packet \<Rightarrow> nat \<Rightarrow> u32 res" where [proto_simps]:
  "ip6_flowlabel p hdr = map_res (\<lambda>w. w AND htonl 0x000FFFFF) (rd32 p hdr)"

definition ipv6_proto :: type_fn where [proto_simps]:
  "ipv6_proto p viph = map_res uint (rd8 p (viph + 6))"

definition ipv6_proto_stopflowlabel :: type_fn where [proto_simps]:
  "ipv6_proto_stopflowlabel p viph =
     bind_res (ip6_flowlabel p viph) (\<lambda>fl.
     if fl \<noteq> 0 then Ok XDP2_STOP_OKAY else map_res uint (rd8 p (viph + 6)))"

definition ipv6_length_check :: len_fn where [proto_simps]:
  "ipv6_length_check p viph maxlen =
     bind_res (rd8 p viph) (\<lambda>b.
     if drop_bit 4 b \<noteq> 6 then Ok (ret_len XDP2_STOP_UNKNOWN_PROTO) else Ok 40)"

definition xdp2_parse_ipv6 :: xdp2_proto_def where [proto_simps]:
  "xdp2_parse_ipv6 = proto_def0\<lparr>pd_name := ''IPv6'', pd_min_len := 40,
     pd_ops := parse_ops0\<lparr>op_next_proto := Some ipv6_proto\<rparr>\<rparr>"

definition xdp2_parse_ipv6_stopflowlabel :: xdp2_proto_def where [proto_simps]:
  "xdp2_parse_ipv6_stopflowlabel =
     proto_def0\<lparr>pd_name := ''IPv6 stop at non-zero flow label'', pd_min_len := 40,
       pd_ops := parse_ops0\<lparr>op_next_proto := Some ipv6_proto_stopflowlabel\<rparr>\<rparr>"

definition xdp2_parse_ipv6_check :: xdp2_proto_def where [proto_simps]:
  "xdp2_parse_ipv6_check = proto_def0\<lparr>pd_name := ''IPv6'', pd_min_len := 40,
     pd_ops := parse_ops0\<lparr>op_len := Some ipv6_length_check, op_next_proto := Some ipv6_proto\<rparr>,
     pd_overlay := True\<rparr>"

definition xdp2_parse_ipv6_stopflowlabel_check :: xdp2_proto_def where [proto_simps]:
  "xdp2_parse_ipv6_stopflowlabel_check =
     proto_def0\<lparr>pd_name := ''IPv6 stop at non-zero flow label'', pd_min_len := 40,
       pd_ops := parse_ops0\<lparr>op_len := Some ipv6_length_check,
                            op_next_proto := Some ipv6_proto_stopflowlabel\<rparr>\<rparr>"

section \<open>proto_ipv6_eh.h\<close>

definition IP6_OFFSET :: u16 where [proto_simps]: "IP6_OFFSET = 0xFFF8"

definition ipv6_eh_proto :: type_fn where [proto_simps]:
  "ipv6_eh_proto p vopt = map_res uint (rd8 p vopt)"

definition ipv6_eh_len :: len_fn where [proto_simps]:
  "ipv6_eh_len p vopt maxlen = map_res ipv6_optlen (rd8 p (vopt + 1))"

definition ipv6_frag_proto :: type_fn where [proto_simps]:
  "ipv6_frag_proto p vfraghdr =
     bind_res (rd16 p (vfraghdr + 2)) (\<lambda>fo.
     if fo AND htons IP6_OFFSET \<noteq> 0 then Ok XDP2_STOP_OKAY else map_res uint (rd8 p vfraghdr))"

definition ipv6_routing_header_proto :: type_fn where [proto_simps]:
  "ipv6_routing_header_proto p vrthdr = map_res uint (rd8 p (vrthdr + 2))"

definition xdp2_parse_ipv6_eh :: xdp2_proto_def where [proto_simps]:
  "xdp2_parse_ipv6_eh = proto_def0\<lparr>pd_name := ''IPv6 EH'', pd_min_len := 2,
     pd_ops := parse_ops0\<lparr>op_next_proto := Some ipv6_eh_proto, op_len := Some ipv6_eh_len\<rparr>\<rparr>"

definition xdp2_parse_ipv6_routing_hdr :: xdp2_proto_def where [proto_simps]:
  "xdp2_parse_ipv6_routing_hdr = proto_def0\<lparr>pd_name := ''IPv6 RH overlay'', pd_min_len := 4,
     pd_ops := parse_ops0\<lparr>op_next_proto := Some ipv6_routing_header_proto, op_len := Some ipv6_eh_len\<rparr>,
     pd_overlay := True\<rparr>"

definition xdp2_parse_ipv6_frag_eh :: xdp2_proto_def where [proto_simps]:
  "xdp2_parse_ipv6_frag_eh = proto_def0\<lparr>pd_name := ''IPv6 EH'', pd_min_len := 8,
     pd_ops := parse_ops0\<lparr>op_next_proto := Some ipv6_frag_proto\<rparr>\<rparr>"

definition xdp2_parse_ipv6_frag_eh_stop1stfrag :: xdp2_proto_def where [proto_simps]:
  "xdp2_parse_ipv6_frag_eh_stop1stfrag = proto_def0\<lparr>pd_name := ''IPv6 EH'', pd_min_len := 8\<rparr>"

section \<open>proto_ipv4ip.h and proto_ipv6ip.h\<close>

definition ipv4_proto_default :: type_fn where [proto_simps]:
  "ipv4_proto_default p viph = Ok 0"

definition xdp2_parse_ipv4ip :: xdp2_proto_def where [proto_simps]:
  "xdp2_parse_ipv4ip = proto_def0\<lparr>pd_name := ''IPv4 in IP'', pd_encap := True, pd_overlay := True,
     pd_min_len := 20, pd_ops := parse_ops0\<lparr>op_next_proto := Some ipv4_proto_default\<rparr>\<rparr>"

definition ipv6_proto_default :: type_fn where [proto_simps]:
  "ipv6_proto_default p viph = Ok 0"

definition xdp2_parse_ipv6ip :: xdp2_proto_def where [proto_simps]:
  "xdp2_parse_ipv6ip = proto_def0\<lparr>pd_name := ''IPv6 in IP'', pd_encap := True, pd_overlay := True,
     pd_min_len := 40, pd_ops := parse_ops0\<lparr>op_next_proto := Some ipv6_proto_default\<rparr>\<rparr>"

section \<open>proto_srv6.h\<close>

definition ipv6_srv6_proto :: type_fn where [proto_simps]:
  "ipv6_srv6_proto p vopt = map_res uint (rd8 p vopt)"

definition ipv6_srv6_len :: len_fn where [proto_simps]:
  "ipv6_srv6_len p vopt maxlen = map_res ipv6_optlen (rd8 p (vopt + 1))"

definition ipv6_srv6_num_els :: num_els_fn where [proto_simps]:
  "ipv6_srv6_num_els p hdr hlen = map_res (\<lambda>b. ucast b + 1) (rd8 p (hdr + 4))"

definition ipv6_srv6_el_type :: type_fn where [proto_simps]:
  "ipv6_srv6_el_type p hdr = Ok 0"

definition ipv6_srv6_seg_list_start_offset :: offset_fn where [proto_simps]:
  "ipv6_srv6_seg_list_start_offset p hdr = Ok 8"

definition xdp2_parse_srv6 :: xdp2_proto_def where [proto_simps]:
  "xdp2_parse_srv6 = proto_def0\<lparr>pd_name := ''SRV6'', pd_min_len := 2,
     pd_ops := parse_ops0\<lparr>op_next_proto := Some ipv6_srv6_proto, op_len := Some ipv6_srv6_len\<rparr>\<rparr>"

definition xdp2_parse_srv6_seg_list :: xdp2_proto_def where [proto_simps]:
  "xdp2_parse_srv6_seg_list = proto_def0\<lparr>pd_name := ''SRV6 with seg list'', pd_min_len := 2,
     pd_ops := parse_ops0\<lparr>op_next_proto := Some ipv6_srv6_proto, op_len := Some ipv6_srv6_len\<rparr>,
     pd_node_type := XDP2_NODE_TYPE_ARRAY,
     pd_super := ArrayDef \<lparr>num_els = ipv6_srv6_num_els, el_type = Some ipv6_srv6_el_type,
                           array_start_offset = ipv6_srv6_seg_list_start_offset, el_length = 16\<rparr>\<rparr>"

section \<open>proto_icmp.h and proto_igmp.h\<close>

definition icmp_has_id :: "u8 \<Rightarrow> bool" where
  "icmp_has_id type \<longleftrightarrow> type = 8 \<or> type = 0 \<or> type = 13 \<or> type = 14 \<or> type = 128 \<or> type = 129"

definition icmp_get_type :: type_fn where [proto_simps]:
  "icmp_get_type p vicmp = map_res uint (rd8 p vicmp)"

definition icmp_all_len :: len_fn where [proto_simps]:
  "icmp_all_len p v max_len = Ok max_len"

definition xdp2_parse_icmpv4 :: xdp2_proto_def where [proto_simps]:
  "xdp2_parse_icmpv4 = proto_def0\<lparr>pd_name := ''ICMPv4'', pd_min_len := 8, pd_overlay := True,
     pd_ops := parse_ops0\<lparr>op_next_proto := Some icmp_get_type, op_len := Some icmp_all_len\<rparr>\<rparr>"

definition xdp2_parse_icmpv6 :: xdp2_proto_def where [proto_simps]:
  "xdp2_parse_icmpv6 = proto_def0\<lparr>pd_name := ''ICMPv6'', pd_min_len := 8, pd_overlay := True,
     pd_ops := parse_ops0\<lparr>op_next_proto := Some icmp_get_type, op_len := Some icmp_all_len\<rparr>\<rparr>"

definition xdp2_parse_igmp :: xdp2_proto_def where [proto_simps]:
  "xdp2_parse_igmp = proto_def0\<lparr>pd_name := ''IGMP'', pd_min_len := 8\<rparr>"

section \<open>proto_ipv6_nd.h\<close>

definition icmpv6_nd_all_len :: len_fn where [proto_simps]:
  "icmpv6_nd_all_len p v maxlen = Ok maxlen"

definition icmpv6_nd_tlv_len :: len_fn where [proto_simps]:
  "icmpv6_nd_tlv_len p hdr maxlen = map_res (\<lambda>b. 8 * ucast b) (rd8 p (hdr + 1))"

definition icmpv6_nd_tlv_type :: type_fn where [proto_simps]:
  "icmpv6_nd_tlv_type p hdr = map_res uint (rd8 p hdr)"

definition icmpv6_nd_tlvs_start_offset :: offset_fn where [proto_simps]:
  "icmpv6_nd_tlvs_start_offset p hdr = Ok 24"

definition icmpv6_nd_tlvs_def :: xdp2_proto_tlvs_def where [proto_simps]:
  "icmpv6_nd_tlvs_def = \<lparr>tlvs_len = Some icmpv6_nd_tlv_len, tlvs_type = icmpv6_nd_tlv_type,
     tlvs_start_offset = icmpv6_nd_tlvs_start_offset, pad1_val = 0, eol_val = 0,
     pad1_enable = False, eol_enable = False, tlvs_min_len = 2\<rparr>"

definition xdp2_parse_icmpv6_nd_solicit :: xdp2_proto_def where [proto_simps]:
  "xdp2_parse_icmpv6_nd_solicit = proto_def0\<lparr>pd_node_type := XDP2_NODE_TYPE_TLVS,
     pd_name := ''ICMPv6 neighbor solicit'', pd_min_len := 24,
     pd_ops := parse_ops0\<lparr>op_len := Some icmpv6_nd_all_len\<rparr>,
     pd_super := TlvsDef icmpv6_nd_tlvs_def\<rparr>"

section \<open>The contract\<close>

lemma ip_ok [proto_ok]:
  "proto_def_ok p xdp2_parse_ip" "proto_def_ok p xdp2_parse_ip_by_key"
  "proto_def_ok p xdp2_parse_ipv4" "proto_def_ok p xdp2_parse_ipv4_stop1stfrag"
  "proto_def_ok p xdp2_parse_ipv4_check" "proto_def_ok p xdp2_parse_ipv4_stop1stfrag_check"
  "proto_def_ok p xdp2_parse_ipv4ip"
  by (auto simp: proto_def_ok_def proto_simps)

lemma ipv6_ok [proto_ok]:
  "proto_def_ok p xdp2_parse_ipv6" "proto_def_ok p xdp2_parse_ipv6_stopflowlabel"
  "proto_def_ok p xdp2_parse_ipv6_check" "proto_def_ok p xdp2_parse_ipv6_stopflowlabel_check"
  "proto_def_ok p xdp2_parse_ipv6ip"
  by (auto simp: proto_def_ok_def proto_simps intro!: wp_rd32)

lemma ipv6_eh_ok [proto_ok]:
  "proto_def_ok p xdp2_parse_ipv6_eh" "proto_def_ok p xdp2_parse_ipv6_routing_hdr"
  "proto_def_ok p xdp2_parse_ipv6_frag_eh" "proto_def_ok p xdp2_parse_ipv6_frag_eh_stop1stfrag"
  "proto_def_ok p xdp2_parse_srv6" "proto_def_ok p xdp2_parse_srv6_seg_list"
  by (auto simp: proto_def_ok_def proto_simps)

lemma icmp_ok [proto_ok]:
  "proto_def_ok p xdp2_parse_icmpv4" "proto_def_ok p xdp2_parse_icmpv6"
  "proto_def_ok p xdp2_parse_igmp" "proto_def_ok p xdp2_parse_icmpv6_nd_solicit"
  by (auto simp: proto_def_ok_def proto_simps)

lemma icmpv6_nd_tlvs_ok [proto_ok]: "tlvs_def_ok p 24 icmpv6_nd_tlvs_def"
  by (auto simp: tlvs_def_ok_def proto_simps word_le_nat_alt)

end
