(* ===== verification/Proto_Transport.thy ===== *)
theory Proto_Transport
  imports Proto_Base
begin

text \<open>
  Transport protocols of \<open>src/include/xdp2/proto_defs/\<close>: TCP with its options, UDP, and the
  generic header with ports.
\<close>

section \<open>proto_tcp.h\<close>

definition TCPOPT_NOP :: u8 where [proto_simps]: "TCPOPT_NOP = 1"
definition TCPOPT_EOL :: u8 where [proto_simps]: "TCPOPT_EOL = 0"
definition TCPOPT_MSS :: int where [proto_simps]: "TCPOPT_MSS = 2"
definition TCPOPT_WINDOW :: int where [proto_simps]: "TCPOPT_WINDOW = 3"
definition TCPOPT_SACK_PERM :: int where [proto_simps]: "TCPOPT_SACK_PERM = 4"
definition TCPOPT_SACK :: int where [proto_simps]: "TCPOPT_SACK = 5"
definition TCPOPT_TIMESTAMP :: int where [proto_simps]: "TCPOPT_TIMESTAMP = 8"

text \<open>\<open>sizeof (struct tcp_opt)\<close>, \<open>sizeof (struct tcp_timestamp_option_data)\<close> and
  \<open>sizeof (struct tcp_sack_option_data)\<close>.\<close>

definition sizeof_tcp_opt :: size_t where [proto_simps]: "sizeof_tcp_opt = 2"
definition sizeof_tcp_timestamp :: size_t where [proto_simps]: "sizeof_tcp_timestamp = 8"
definition sizeof_tcp_sack :: size_t where [proto_simps]: "sizeof_tcp_sack = 8"

definition tcp_len :: len_fn where [proto_simps]:
  "tcp_len p vtcp maxlen = map_res (\<lambda>b. ucast (drop_bit 4 b) * 4) (rd8 p (vtcp + 12))"

definition tcp_tlv_len :: len_fn where [proto_simps]:
  "tcp_tlv_len p hdr maxlen = map_res ucast (rd8 p (hdr + 1))"

definition tcp_tlv_type :: type_fn where [proto_simps]:
  "tcp_tlv_type p hdr = map_res uint (rd8 p hdr)"

definition tcp_tlvs_start_offset :: offset_fn where [proto_simps]:
  "tcp_tlvs_start_offset p hdr = Ok 20"

definition tcp_tlvs_def :: xdp2_proto_tlvs_def where [proto_simps]:
  "tcp_tlvs_def = \<lparr>tlvs_len = Some tcp_tlv_len, tlvs_type = tcp_tlv_type,
     tlvs_start_offset = tcp_tlvs_start_offset, pad1_val = TCPOPT_NOP, eol_val = TCPOPT_EOL,
     pad1_enable = True, eol_enable = True, tlvs_min_len = sizeof_tcp_opt\<rparr>"

definition xdp2_parse_tcp_tlvs :: xdp2_proto_def where [proto_simps]:
  "xdp2_parse_tcp_tlvs = proto_def0\<lparr>pd_node_type := XDP2_NODE_TYPE_TLVS, pd_name := ''TCP with TLVs'',
     pd_min_len := 20, pd_ops := parse_ops0\<lparr>op_len := Some tcp_len\<rparr>, pd_super := TlvsDef tcp_tlvs_def\<rparr>"

definition xdp2_parse_tcp_notlvs :: xdp2_proto_def where [proto_simps]:
  "xdp2_parse_tcp_notlvs = proto_def0\<lparr>pd_name := ''TCP without TLVs'', pd_min_len := 20,
     pd_ops := parse_ops0\<lparr>op_len := Some tcp_len\<rparr>\<rparr>"

definition xdp2_parse_tcp_option_unknown :: xdp2_proto_tlv_def where [proto_simps]:
  "xdp2_parse_tcp_option_unknown = tlv_def0\<lparr>tlv_min_len := sizeof_tcp_opt\<rparr>"

definition xdp2_parse_tcp_option_mss :: xdp2_proto_tlv_def where [proto_simps]:
  "xdp2_parse_tcp_option_mss = tlv_def0\<lparr>tlv_min_len := sizeof_tcp_opt + 2\<rparr>"

definition xdp2_parse_tcp_option_window_scaling :: xdp2_proto_tlv_def where [proto_simps]:
  "xdp2_parse_tcp_option_window_scaling = tlv_def0\<lparr>tlv_min_len := sizeof_tcp_opt + 1\<rparr>"

definition xdp2_parse_tcp_option_timestamp :: xdp2_proto_tlv_def where [proto_simps]:
  "xdp2_parse_tcp_option_timestamp = tlv_def0\<lparr>tlv_min_len := sizeof_tcp_opt + sizeof_tcp_timestamp\<rparr>"

definition xdp2_parse_tcp_option_sack_permitted :: xdp2_proto_tlv_def where [proto_simps]:
  "xdp2_parse_tcp_option_sack_permitted = tlv_def0\<lparr>tlv_min_len := sizeof_tcp_opt\<rparr>"

definition xdp2_parse_tcp_option_sack :: xdp2_proto_tlv_def where [proto_simps]:
  "xdp2_parse_tcp_option_sack = tlv_def0\<lparr>tlv_min_len := sizeof_tcp_opt\<rparr>"

definition xdp2_parse_tcp_option_sack_1 :: xdp2_proto_tlv_def where [proto_simps]:
  "xdp2_parse_tcp_option_sack_1 = tlv_def0\<lparr>tlv_min_len := sizeof_tcp_opt + sizeof_tcp_sack\<rparr>"

definition xdp2_parse_tcp_option_sack_2 :: xdp2_proto_tlv_def where [proto_simps]:
  "xdp2_parse_tcp_option_sack_2 = tlv_def0\<lparr>tlv_min_len := sizeof_tcp_opt + 2 * sizeof_tcp_sack\<rparr>"

definition xdp2_parse_tcp_option_sack_3 :: xdp2_proto_tlv_def where [proto_simps]:
  "xdp2_parse_tcp_option_sack_3 = tlv_def0\<lparr>tlv_min_len := sizeof_tcp_opt + 3 * sizeof_tcp_sack\<rparr>"

definition xdp2_parse_tcp_option_sack_4 :: xdp2_proto_tlv_def where [proto_simps]:
  "xdp2_parse_tcp_option_sack_4 = tlv_def0\<lparr>tlv_min_len := sizeof_tcp_opt + 4 * sizeof_tcp_sack\<rparr>"

section \<open>proto_udp.h and proto_ports.h\<close>

definition udp_proto :: type_fn where [proto_simps]:
  "udp_proto p vudph = map_res uint (rd16 p (vudph + 2))"

definition xdp2_parse_udp :: xdp2_proto_def where [proto_simps]:
  "xdp2_parse_udp = proto_def0\<lparr>pd_name := ''UDP'', pd_min_len := 8,
     pd_ops := parse_ops0\<lparr>op_next_proto := Some udp_proto\<rparr>\<rparr>"

definition xdp2_parse_ports :: xdp2_proto_def where [proto_simps]:
  "xdp2_parse_ports = proto_def0\<lparr>pd_name := ''Transport with ports'', pd_min_len := 4\<rparr>"

section \<open>The contract\<close>

lemma transport_ok [proto_ok]:
  "proto_def_ok p xdp2_parse_tcp_tlvs" "proto_def_ok p xdp2_parse_tcp_notlvs"
  "proto_def_ok p xdp2_parse_udp" "proto_def_ok p xdp2_parse_ports"
  by (auto simp: proto_def_ok_def proto_simps)

lemma tcp_tlvs_ok [proto_ok]: "tlvs_def_ok p 20 tcp_tlvs_def"
  by (auto simp: tlvs_def_ok_def proto_simps word_le_nat_alt)

lemma tcp_option_ok [proto_ok]:
  "tlv_def_ok p xdp2_parse_tcp_option_unknown" "tlv_def_ok p xdp2_parse_tcp_option_mss"
  "tlv_def_ok p xdp2_parse_tcp_option_window_scaling" "tlv_def_ok p xdp2_parse_tcp_option_timestamp"
  "tlv_def_ok p xdp2_parse_tcp_option_sack_permitted" "tlv_def_ok p xdp2_parse_tcp_option_sack"
  "tlv_def_ok p xdp2_parse_tcp_option_sack_1" "tlv_def_ok p xdp2_parse_tcp_option_sack_2"
  "tlv_def_ok p xdp2_parse_tcp_option_sack_3" "tlv_def_ok p xdp2_parse_tcp_option_sack_4"
  by (simp_all add: tlv_def_ok_def proto_simps)

end
