(* ===== verification/Proto_Tunnel.thy ===== *)
theory Proto_Tunnel
  imports Proto_Base
begin

text \<open>
  Tunnel protocols of \<open>src/include/xdp2/proto_defs/\<close>: GRE with its flag fields, Geneve with
  its options, VXLAN and L2TP. For both GRE versions the header length that the length
  operation returns covers every field the flags announce; this is what makes the
  flag-field extractors safe.
\<close>

section \<open>proto_gre.h\<close>

definition GRE_CSUM :: u16 where [proto_simps]: "GRE_CSUM = htons 0x8000"
definition GRE_ROUTING :: u16 where [proto_simps]: "GRE_ROUTING = htons 0x4000"
definition GRE_KEY :: u16 where [proto_simps]: "GRE_KEY = htons 0x2000"
definition GRE_SEQ :: u16 where [proto_simps]: "GRE_SEQ = htons 0x1000"
definition GRE_ACK :: u16 where [proto_simps]: "GRE_ACK = htons 0x0080"
definition GRE_VERSION :: u16 where [proto_simps]: "GRE_VERSION = htons 0x0007"
definition GRE_PROTO_PPP :: u16 where [proto_simps]: "GRE_PROTO_PPP = htons 0x880b"

text \<open>A field with no mask and of the size of a \<open>__be32\<close>.\<close>

definition be32_field :: "u16 \<Rightarrow> xdp2_flag_field" where
  "be32_field flag = \<lparr>ff_flag = ucast flag, ff_mask = 0, ff_size = 4\<rparr>"

definition gre_flag_fields :: "xdp2_flag_field list" where
  "gre_flag_fields = [be32_field GRE_CSUM, be32_field GRE_KEY, be32_field GRE_SEQ]"

definition pptp_gre_flag_fields :: "xdp2_flag_field list" where
  "pptp_gre_flag_fields =
     [be32_field GRE_CSUM, be32_field GRE_KEY, be32_field GRE_SEQ, be32_field GRE_ACK]"

definition GRE_FLAGS_V0_MASK :: u32 where [proto_simps]:
  "GRE_FLAGS_V0_MASK = ucast (GRE_CSUM OR GRE_KEY OR GRE_SEQ OR GRE_ROUTING)"

definition GRE_FLAGS_V1_MASK :: u32 where [proto_simps]:
  "GRE_FLAGS_V1_MASK = ucast (GRE_CSUM OR GRE_KEY OR GRE_SEQ OR GRE_ROUTING OR GRE_ACK)"

definition gre_proto_version :: type_fn where [proto_simps]:
  "gre_proto_version p vgre = map_res (\<lambda>f. uint (ntohs (f AND GRE_VERSION))) (rd16 p vgre)"

definition gre_v0_len_from_flags :: "u32 \<Rightarrow> size_t res" where
  "gre_v0_len_from_flags flags = map_res (\<lambda>n. 4 + n) (xdp2_flag_fields_length flags gre_flag_fields)"

definition gre_v0_len_check :: len_fn where [proto_simps]:
  "gre_v0_len_check p vgre maxlen =
     bind_res (rd16 p vgre) (\<lambda>flags.
     if xdp2_flag_fields_check_invalid (ucast flags) (GRE_FLAGS_V0_MASK OR ucast GRE_VERSION)
     then Ok (ret_len XDP2_STOP_BAD_FLAG)
     else if flags AND GRE_ROUTING \<noteq> 0 then Ok (ret_len XDP2_STOP_OKAY)
     else gre_v0_len_from_flags (ucast flags))"

definition gre_v0_proto :: type_fn where [proto_simps]:
  "gre_v0_proto p vgre = map_res uint (rd16 p (vgre + 2))"

definition gre_v1_len_from_flags :: "u32 \<Rightarrow> size_t res" where
  "gre_v1_len_from_flags flags = map_res (\<lambda>n. 4 + n) (xdp2_flag_fields_length flags pptp_gre_flag_fields)"

definition gre_v1_len_check :: len_fn where [proto_simps]:
  "gre_v1_len_check p vgre maxlen =
     bind_res (rd16 p vgre) (\<lambda>flags.
     if xdp2_flag_fields_check_invalid (ucast flags) (GRE_FLAGS_V1_MASK OR ucast GRE_VERSION)
     then Ok (ret_len XDP2_STOP_BAD_FLAG)
     else if flags AND GRE_ROUTING \<noteq> 0 then Ok (ret_len XDP2_STOP_OKAY)
     else bind_res (rd16 p (vgre + 2)) (\<lambda>protocol.
     if \<not> (protocol = GRE_PROTO_PPP \<and> flags AND GRE_KEY \<noteq> 0) then Ok (ret_len XDP2_STOP_OKAY)
     else gre_v1_len_from_flags (ucast flags)))"

definition gre_v1_proto :: type_fn where [proto_simps]:
  "gre_v1_proto p vgre = map_res uint (rd16 p (vgre + 2))"

definition gre_get_flags :: flags_fn where [proto_simps]:
  "gre_get_flags p hdr = map_res ucast (rd16 p hdr)"

definition gre_fields_offset :: offset_fn where [proto_simps]:
  "gre_fields_offset p hdr = Ok 4"

definition xdp2_parse_gre_base :: xdp2_proto_def where [proto_simps]:
  "xdp2_parse_gre_base = proto_def0\<lparr>pd_name := ''GRE base'', pd_overlay := True, pd_min_len := 4,
     pd_ops := parse_ops0\<lparr>op_next_proto := Some gre_proto_version\<rparr>\<rparr>"

definition gre_v0_fields :: xdp2_proto_flag_fields_def where
  "gre_v0_fields = \<lparr>get_flags = gre_get_flags, start_fields_offset = gre_fields_offset,
     flag_fields = gre_flag_fields\<rparr>"

definition xdp2_parse_gre_v0 :: xdp2_proto_def where
  "xdp2_parse_gre_v0 = proto_def0\<lparr>pd_node_type := XDP2_NODE_TYPE_FLAG_FIELDS, pd_name := ''GRE v0'',
     pd_encap := True, pd_min_len := 4,
     pd_ops := parse_ops0\<lparr>op_next_proto := Some gre_v0_proto, op_len := Some gre_v0_len_check\<rparr>,
     pd_super := FlagFieldsDef gre_v0_fields\<rparr>"

definition gre_v1_fields :: xdp2_proto_flag_fields_def where
  "gre_v1_fields = \<lparr>get_flags = gre_get_flags, start_fields_offset = gre_fields_offset,
     flag_fields = pptp_gre_flag_fields\<rparr>"

definition xdp2_parse_gre_v1 :: xdp2_proto_def where
  "xdp2_parse_gre_v1 = proto_def0\<lparr>pd_node_type := XDP2_NODE_TYPE_FLAG_FIELDS, pd_name := ''GRE v1 - pptp'',
     pd_encap := True, pd_min_len := 4,
     pd_ops := parse_ops0\<lparr>op_next_proto := Some gre_v1_proto, op_len := Some gre_v1_len_check\<rparr>,
     pd_super := FlagFieldsDef gre_v1_fields\<rparr>"

section \<open>proto_geneve.h\<close>

definition GENEVE_VERSION_MASK :: u8 where [proto_simps]: "GENEVE_VERSION_MASK = 0xc0"

definition geneve_base_proto :: type_fn where [proto_simps]:
  "geneve_base_proto p vgeneve = map_res (\<lambda>b. uint (b AND GENEVE_VERSION_MASK)) (rd8 p vgeneve)"

definition geneve_proto_v0 :: type_fn where [proto_simps]:
  "geneve_proto_v0 p vgeneve = map_res uint (rd16 p (vgeneve + 2))"

definition geneve_len_v0 :: len_fn where [proto_simps]:
  "geneve_len_v0 p vgeneve max_len = map_res (\<lambda>b. 8 + 4 * ucast (b AND 0x3F)) (rd8 p vgeneve)"

definition geneve_tlv_len :: len_fn where [proto_simps]:
  "geneve_tlv_len p hdr max_len = map_res (\<lambda>b. 4 + ucast (b AND 0x1F) * 4) (rd8 p (hdr + 3))"

definition geneve_tlv_type :: type_fn where [proto_simps]:
  "geneve_tlv_type p hdr = map_res uint (rd16 p hdr)"

definition geneve_tlv_overlay_type :: type_fn where [proto_simps]:
  "geneve_tlv_overlay_type p hdr = map_res uint (rd8 p (hdr + 2))"

definition geneve_tlvs_start_offset :: offset_fn where [proto_simps]:
  "geneve_tlvs_start_offset p hdr = Ok 8"

definition xdp2_parse_geneve_base :: xdp2_proto_def where [proto_simps]:
  "xdp2_parse_geneve_base = proto_def0\<lparr>pd_name := ''Geneve base'', pd_min_len := 1,
     pd_ops := parse_ops0\<lparr>op_next_proto := Some geneve_base_proto\<rparr>, pd_overlay := True\<rparr>"

definition geneve_tlvs_def :: xdp2_proto_tlvs_def where [proto_simps]:
  "geneve_tlvs_def = \<lparr>tlvs_len = Some geneve_tlv_len, tlvs_type = geneve_tlv_type,
     tlvs_start_offset = geneve_tlvs_start_offset, pad1_val = 0, eol_val = 0,
     pad1_enable = False, eol_enable = False, tlvs_min_len = 4\<rparr>"

definition xdp2_parse_geneve_v0 :: xdp2_proto_def where [proto_simps]:
  "xdp2_parse_geneve_v0 = proto_def0\<lparr>pd_node_type := XDP2_NODE_TYPE_TLVS, pd_name := ''Geneve version 0'',
     pd_min_len := 8,
     pd_ops := parse_ops0\<lparr>op_next_proto := Some geneve_proto_v0, op_len := Some geneve_len_v0\<rparr>,
     pd_encap := True, pd_super := TlvsDef geneve_tlvs_def\<rparr>"

definition xdp2_parse_geneve_tlv_overlay :: xdp2_proto_tlv_def where [proto_simps]:
  "xdp2_parse_geneve_tlv_overlay = tlv_def0\<lparr>overlay_type := Some geneve_tlv_overlay_type\<rparr>"

section \<open>proto_vxlan.h\<close>

definition vxlan_proto :: type_fn where [proto_simps]:
  "vxlan_proto p vxlan = Ok 0x6558"

definition xdp2_parse_vxlan :: xdp2_proto_def where [proto_simps]:
  "xdp2_parse_vxlan = proto_def0\<lparr>pd_name := ''VXLAN'', pd_min_len := 8,
     pd_ops := parse_ops0\<lparr>op_next_proto := Some vxlan_proto\<rparr>, pd_encap := True\<rparr>"

section \<open>proto_l2tp.h and proto_l2tp_v0.h\<close>

definition l2tp_proto_version :: type_fn where [proto_simps]:
  "l2tp_proto_version p vl2tp = map_res (\<lambda>b. uint (b AND 0xf)) (rd8 p (vl2tp + 1))"

definition xdp2_parse_l2tp_base :: xdp2_proto_def where [proto_simps]:
  "xdp2_parse_l2tp_base = proto_def0\<lparr>pd_name := ''L2TP base'', pd_min_len := 2,
     pd_ops := parse_ops0\<lparr>op_next_proto := Some l2tp_proto_version\<rparr>,
     pd_overlay := True, pd_encap := True\<rparr>"

definition L2TP_F_LENGTH :: u16 where [proto_simps]: "L2TP_F_LENGTH = htons 0x4000"
definition L2TP_F_NSNR :: u16 where [proto_simps]: "L2TP_F_NSNR = htons 0x0800"
definition L2TP_F_OFFSZ :: u16 where [proto_simps]: "L2TP_F_OFFSZ = htons 0x0200"

definition l2tp_v0_base_flag_fields :: "xdp2_flag_field list" where
  "l2tp_v0_base_flag_fields =
     [\<lparr>ff_flag = ucast L2TP_F_LENGTH, ff_mask = 0, ff_size = 2\<rparr>,
      \<lparr>ff_flag = ucast L2TP_F_NSNR, ff_mask = 0, ff_size = 4\<rparr>]"

definition l2tp_v0_base_len_from_flags :: "u32 \<Rightarrow> size_t res" where
  "l2tp_v0_base_len_from_flags flags =
     map_res (\<lambda>n. 2 + 4 + n) (xdp2_flag_fields_length flags l2tp_v0_base_flag_fields)"

definition l2tp_v0_base_len_check :: len_fn where
  "l2tp_v0_base_len_check p vl2tp maxlen =
     bind_res (rd16 p vl2tp) (\<lambda>w. l2tp_v0_base_len_from_flags (ucast w))"

definition l2tp_v0_base_proto_version :: type_fn where [proto_simps]:
  "l2tp_v0_base_proto_version p vl2tp =
     map_res (\<lambda>w. if w AND L2TP_F_OFFSZ \<noteq> 0 then 1 else 0) (rd16 p vl2tp)"

definition l2tp_v0_offsz_len :: len_fn where [proto_simps]:
  "l2tp_v0_offsz_len p vl2tp maxlen = map_res (\<lambda>w. 2 + ucast w) (rd16 p vl2tp)"

definition xdp_parse_l2tp_v0_base :: xdp2_proto_def where [proto_simps]:
  "xdp_parse_l2tp_v0_base = proto_def0\<lparr>pd_name := ''L2TP v0'', pd_min_len := 2,
     pd_ops := parse_ops0\<lparr>op_next_proto := Some l2tp_v0_base_proto_version,
                          op_len := Some l2tp_v0_base_len_check\<rparr>\<rparr>"

definition xdp2_parse_l2tp_v0_offsz :: xdp2_proto_def where [proto_simps]:
  "xdp2_parse_l2tp_v0_offsz = proto_def0\<lparr>pd_name := ''L2TP offset-size field'', pd_min_len := 2,
     pd_ops := parse_ops0\<lparr>op_len := Some l2tp_v0_offsz_len\<rparr>\<rparr>"

section \<open>The contract\<close>

lemma tunnel_tables_ok [simp]:
  "ff_table_ok gre_flag_fields" "ff_table_ok pptp_gre_flag_fields" "ff_table_ok l2tp_v0_base_flag_fields"
  by (simp_all add: ff_table_ok_def gre_flag_fields_def pptp_gre_flag_fields_def be32_field_def
      l2tp_v0_base_flag_fields_def)

text \<open>The two GRE lengths: the base header and the present fields, without wrap-around.\<close>

lemma gre_len_from_flags:
  "gre_v0_len_from_flags flags = Ok (4 + of_nat (present_size flags gre_flag_fields))"
  "gre_v1_len_from_flags flags = Ok (4 + of_nat (present_size flags pptp_gre_flag_fields))"
  by (simp_all add: gre_v0_len_from_flags_def gre_v1_len_from_flags_def length_eq)

lemma gre_present_size_le:
  "present_size flags gre_flag_fields \<le> 12" "present_size flags pptp_gre_flag_fields \<le> 16"
  using present_size_le [of flags gre_flag_fields] present_size_le [of flags pptp_gre_flag_fields]
  by (simp_all add: gre_flag_fields_def pptp_gre_flag_fields_def be32_field_def)

lemma unat_base_len: "n \<le> 16 \<Longrightarrow> unat (4 + of_nat n :: size_t) = 4 + n"
  by (simp add: unat_word_ariths unat_of_nat)

lemma gre_ok [proto_ok]:
  "proto_def_ok p xdp2_parse_gre_base" "proto_def_ok p xdp2_parse_gre_v0"
  "proto_def_ok p xdp2_parse_gre_v1"
  by (auto simp: proto_def_ok_def xdp2_parse_gre_v0_def xdp2_parse_gre_v1_def gre_len_from_flags proto_simps)

text \<open>A return code is a negative length, and the engine accepts no negative length.\<close>

lemma sint_ret_len: "- 100 < r \<Longrightarrow> r < 0 \<Longrightarrow> sint (ret_len r) = r"
  by (simp add: ret_len_def sint_sbintrunc' signed_take_bit_int_eq_self)

lemma header_length_accepts:
  assumes "header_length pd p hdr len = Ok (Inr hlen)" "op_len (pd_ops pd) = Some f"
  shows "f p hdr len = Ok hlen \<and> 0 \<le> sint hlen"
  using assms unsigned_greater_eq [of "pd_min_len pd", where 'a = int]
  by (auto simp: header_length_def bind_res_Ok_iff not_less split: if_splits intro: order.trans)

lemma gre_v0_fields_ok [proto_ok]:
  assumes "header_length xdp2_parse_gre_v0 p hdr len = Ok (Inr hlen)"
  shows "ff_def_ok p hdr hlen gre_v0_fields"
proof -
  have len: "gre_v0_len_check p hdr len = Ok hlen" and pos: "0 \<le> sint hlen"
    using header_length_accepts [OF assms] by (simp_all add: xdp2_parse_gre_v0_def proto_simps)
  then obtain flags where flags: "rd16 p hdr = Ok flags"
    "hlen = 4 + of_nat (present_size (ucast flags) gre_flag_fields)"
    using sint_ret_len [of XDP2_STOP_BAD_FLAG] sint_ret_len [of XDP2_STOP_OKAY]
    by (auto simp: gre_v0_len_check_def bind_res_Ok_iff gre_len_from_flags xdp2_consts split: if_splits)
  have "present_size (ucast flags) gre_flag_fields \<le> 16"
    using gre_present_size_le(1) [of "ucast flags"] by simp
  then show ?thesis
    using flags unat_base_len by (simp add: ff_def_ok_def gre_v0_fields_def gre_get_flags_def gre_fields_offset_def)
qed

lemma gre_v1_fields_ok [proto_ok]:
  assumes "header_length xdp2_parse_gre_v1 p hdr len = Ok (Inr hlen)"
  shows "ff_def_ok p hdr hlen gre_v1_fields"
proof -
  have len: "gre_v1_len_check p hdr len = Ok hlen" and pos: "0 \<le> sint hlen"
    using header_length_accepts [OF assms] by (simp_all add: xdp2_parse_gre_v1_def proto_simps)
  then obtain flags where flags: "rd16 p hdr = Ok flags"
    "hlen = 4 + of_nat (present_size (ucast flags) pptp_gre_flag_fields)"
    using sint_ret_len [of XDP2_STOP_BAD_FLAG] sint_ret_len [of XDP2_STOP_OKAY]
    by (auto simp: gre_v1_len_check_def bind_res_Ok_iff gre_len_from_flags xdp2_consts split: if_splits)
  then show ?thesis
    using unat_base_len [OF gre_present_size_le(2)]
    by (simp add: ff_def_ok_def gre_v1_fields_def gre_get_flags_def gre_fields_offset_def)
qed

lemma other_tunnels_ok [proto_ok]:
  "proto_def_ok p xdp2_parse_geneve_base" "proto_def_ok p xdp2_parse_geneve_v0"
  "proto_def_ok p xdp2_parse_vxlan" "proto_def_ok p xdp2_parse_l2tp_base"
  "proto_def_ok p xdp_parse_l2tp_v0_base" "proto_def_ok p xdp2_parse_l2tp_v0_offsz"
  by (auto simp: proto_def_ok_def proto_simps l2tp_v0_base_len_check_def
      l2tp_v0_base_len_from_flags_def length_eq)

lemma geneve_tlvs_ok [proto_ok]: "tlvs_def_ok p 8 geneve_tlvs_def"
  by (auto simp: tlvs_def_ok_def proto_simps word_le_nat_alt)

section \<open>What the GRE length checks accept\<close>

text \<open>The flags as they are read have their octets swapped; the bits below are those of the
  flags in network order.\<close>

lemma bit_ntohs: "bit (ntohs x) i \<longleftrightarrow> (if i < 8 then bit x (i + 8) else i < 16 \<and> bit x (i - 8))"
  by (auto simp: ntohs_def bswap16_def bit_word_cat_iff bit_ucast_iff bit_drop_bit_eq add.commute numeral_eq_Suc)

lemma and_zero_bits: "(x :: 'a::len word) AND m = 0 \<longleftrightarrow> (\<forall>i < LENGTH('a). bit m i \<longrightarrow> \<not> bit x i)"
  by (auto simp: bit_eq_iff bit_and_iff)

lemma all_less_16: "(\<forall>i < 16. P i) \<longleftrightarrow> P 0 \<and> P 1 \<and> P 2 \<and> P 3 \<and> P 4 \<and> P 5 \<and> P 6 \<and> P 7 \<and> P 8 \<and> P 9 \<and> P 10 \<and> P 11 \<and>
    P 12 \<and> P 13 \<and> P 14 \<and> P (15 :: nat)"
  by (simp add: numeral_eq_Suc All_less_Suc ac_simps)

lemma gre_masks: "GRE_CSUM = 0x80" "GRE_ROUTING = 0x40" "GRE_KEY = 0x20" "GRE_SEQ = 0x10" "GRE_ACK = 0x8000"
  "GRE_PROTO_PPP = 0x0b88" "GRE_FLAGS_V0_MASK OR ucast GRE_VERSION = 0x7F0"
  "GRE_FLAGS_V1_MASK OR ucast GRE_VERSION = 0x87F0"
  by code_simp+

lemma check_invalid_bits:
  "xdp2_flag_fields_check_invalid (ucast (x :: u16)) m \<longleftrightarrow> \<not> (\<forall>i < 16. bit x i \<longrightarrow> bit m i)"
proof -
  have "bit x i \<Longrightarrow> i < 16" for i using bit_imp_le_length [of x i] by simp
  then show ?thesis unfolding xdp2_flag_fields_check_invalid_def
    by (subst and_zero_bits) (force simp: bit_not_iff bit_ucast_iff)
qed

lemma be32_present:
  assumes "m = push_bit k 1" "k < 16"
  shows "ff_present (ucast (x :: u16)) (be32_field m) \<longleftrightarrow> bit x k"
proof -
  have "bit m n \<longleftrightarrow> n = k" for n using assms by (auto simp: bit_exp_iff)
  then have "(ucast x AND ucast m :: u32) = ucast m \<longleftrightarrow> bit x k"
    using assms(2) by (auto simp: bit_eq_iff [of "ucast x AND ucast m :: u32" "ucast m"] bit_and_iff bit_ucast_iff dest: spec [of _ k])
  then show ?thesis by (simp add: ff_present_def ff_mask_or_flag_def be32_field_def)
qed

lemma gre_present:
  "ff_present (ucast (x :: u16)) (be32_field GRE_CSUM) \<longleftrightarrow> bit x 7"
  "ff_present (ucast x) (be32_field GRE_KEY) \<longleftrightarrow> bit x 5"
  "ff_present (ucast x) (be32_field GRE_SEQ) \<longleftrightarrow> bit x 4"
  "ff_present (ucast x) (be32_field GRE_ACK) \<longleftrightarrow> bit x 15"
  by (rule be32_present; simp add: gre_masks)+

lemma gre_sizes:
  "present_size (ucast (x :: u16)) gre_flag_fields = 4 * of_bool (bit x 7) + 4 * of_bool (bit x 5) + 4 * of_bool (bit x 4)"
  "present_size (ucast x) pptp_gre_flag_fields =
     4 * of_bool (bit x 7) + 4 * of_bool (bit x 5) + 4 * of_bool (bit x 4) + 4 * of_bool (bit x 15)"
  by (simp_all add: gre_flag_fields_def pptp_gre_flag_fields_def gre_present) (simp_all add: be32_field_def)

lemma gre_v0_guards:
  "xdp2_flag_fields_check_invalid (ucast x) (GRE_FLAGS_V0_MASK OR ucast GRE_VERSION) \<or> x AND GRE_ROUTING \<noteq> 0 \<longleftrightarrow>
   ntohs x AND 0x4FF8 \<noteq> 0"
  unfolding gre_masks check_invalid_bits and_zero_bits
  by (simp add: all_less_16 bit_ntohs) blast

lemma gre_v1_guards:
  "xdp2_flag_fields_check_invalid (ucast x) (GRE_FLAGS_V1_MASK OR ucast GRE_VERSION) \<or> x AND GRE_ROUTING \<noteq> 0 \<longleftrightarrow>
   ntohs x AND 0x4F78 \<noteq> 0"
  "x AND GRE_KEY \<noteq> 0 \<longleftrightarrow> bit (ntohs x) 13"
  unfolding gre_masks check_invalid_bits and_zero_bits
  by (simp add: all_less_16 bit_ntohs, blast) (simp add: all_less_16 bit_ntohs)

text \<open>What the engine does with the result of the length functions: it accepts a length of four to
  twenty octets when it is within the packet, and no return code.\<close>

lemma header_length_checked:
  assumes "op_len (pd_ops pd) = Some f" "pd_min_len pd = 4"
    and "f p hdr len = Ok (if bad then ret_len c else 4 + of_nat n)" "n \<le> 16" "- 100 < c" "c < 0"
  shows "header_length pd p hdr len = Ok (Inr hlen) \<longleftrightarrow> \<not> bad \<and> unat hlen = 4 + n \<and> unat hlen \<le> unat len"
proof (cases bad)
  case True
  then show ?thesis using assms by (auto simp: header_length_def sint_ret_len split: if_splits)
next
  case False
  have u: "unat (4 + of_nat n :: size_t) = 4 + n" using unat_base_len [OF assms(4)] .
  have s: "sint (4 + of_nat n :: size_t) = 4 + int n"
    using assms(4) u by (simp add: sint_nonneg_eq)
  show ?thesis
    using assms False u s by (auto simp: header_length_def word_less_nat_alt word_unat_eq_iff)
qed

text \<open>The headers that the two length checks accept, in terms of the flags in network order: no flag
  outside of the known ones and no routing, for version one the key flag and the protocol of
  PPP, and a length within the packet that counts four octets for each field.\<close>

lemma gre_v0_accepts:
  assumes "rd16 p hdr = Ok x"
  shows "header_length xdp2_parse_gre_v0 p hdr len = Ok (Inr hlen) \<longleftrightarrow>
    ntohs x AND 0x4FF8 = 0 \<and>
    unat hlen = 4 + 4 * of_bool (bit (ntohs x) 15) + 4 * of_bool (bit (ntohs x) 13) + 4 * of_bool (bit (ntohs x) 12) \<and>
    unat hlen \<le> unat len"
proof -
  let ?bad = "ntohs x AND 0x4FF8 \<noteq> 0"
  let ?c = "if xdp2_flag_fields_check_invalid (ucast x) (GRE_FLAGS_V0_MASK OR ucast GRE_VERSION)
    then XDP2_STOP_BAD_FLAG else XDP2_STOP_OKAY"
  have f: "gre_v0_len_check p hdr len = Ok (if ?bad then ret_len ?c else 4 + of_nat (present_size (ucast x) gre_flag_fields))"
    unfolding gre_v0_guards [symmetric] by (simp add: gre_v0_len_check_def assms gre_len_from_flags)
  have "header_length xdp2_parse_gre_v0 p hdr len = Ok (Inr hlen) \<longleftrightarrow>
      \<not> ?bad \<and> unat hlen = 4 + present_size (ucast x) gre_flag_fields \<and> unat hlen \<le> unat len"
    by (rule header_length_checked [where f = gre_v0_len_check and c = ?c, OF _ _ f])
      (use gre_present_size_le(1) [of "ucast x"] in \<open>simp_all add: xdp2_parse_gre_v0_def proto_def0_def parse_ops0_def xdp2_consts\<close>)
  then show ?thesis by (simp add: gre_sizes bit_ntohs add.assoc)
qed

lemma gre_v1_accepts:
  assumes "rd16 p hdr = Ok x" "rd16 p (hdr + 2) = Ok protocol"
  shows "header_length xdp2_parse_gre_v1 p hdr len = Ok (Inr hlen) \<longleftrightarrow>
    ntohs x AND 0x4F78 = 0 \<and> bit (ntohs x) 13 \<and> protocol = htons 0x880b \<and>
    unat hlen = 8 + 4 * of_bool (bit (ntohs x) 15) + 4 * of_bool (bit (ntohs x) 12) + 4 * of_bool (bit (ntohs x) 7) \<and>
    unat hlen \<le> unat len"
proof -
  let ?bad = "ntohs x AND 0x4F78 \<noteq> 0 \<or> \<not> (protocol = GRE_PROTO_PPP \<and> bit (ntohs x) 13)"
  let ?c = "if xdp2_flag_fields_check_invalid (ucast x) (GRE_FLAGS_V1_MASK OR ucast GRE_VERSION)
    then XDP2_STOP_BAD_FLAG else XDP2_STOP_OKAY"
  have f: "gre_v1_len_check p hdr len = Ok (if ?bad then ret_len ?c else 4 + of_nat (present_size (ucast x) pptp_gre_flag_fields))"
    unfolding gre_v1_guards [symmetric] by (simp add: gre_v1_len_check_def assms(1) assms(2) [simplified] gre_len_from_flags)
  have "header_length xdp2_parse_gre_v1 p hdr len = Ok (Inr hlen) \<longleftrightarrow>
      \<not> ?bad \<and> unat hlen = 4 + present_size (ucast x) pptp_gre_flag_fields \<and> unat hlen \<le> unat len"
    by (rule header_length_checked [where f = gre_v1_len_check and c = ?c, OF _ _ f])
      (use gre_present_size_le(2) [of "ucast x"] in \<open>simp_all add: xdp2_parse_gre_v1_def proto_def0_def parse_ops0_def xdp2_consts\<close>)
  then show ?thesis by (auto simp: gre_sizes bit_ntohs GRE_PROTO_PPP_def)
qed

end
