(* ===== verification/Metadata.thy ===== *)
theory Metadata
  imports Proto_Link Proto_Ip Proto_Transport Proto_Tunnel
begin

text \<open>
  Common metadata: \<open>struct xdp2_metadata_all\<close>, the extraction templates and the hash helpers
  of \<open>src/include/xdp2/parser_metadata.h\<close>.

  Bit-fields are words of their width. The union \<open>addrs\<close> is its 32 bytes: IPv4 addresses
  are the first eight, IPv6 addresses all of them, the TIPC key the first four. A template
  writes into the frame at the byte offset it is given; the metadata object is a
  \<open>frame_mem\<close>, which knows its size in bytes and holds the structure at each offset.
  Different frames of a parser never overlap, since its frame size is at least the size
  of the structure. Writing a frame that does not lie in the object is a fault.
\<close>

definition XDP2_ADDR_TYPE_INVALID :: u8 where [proto_simps]: "XDP2_ADDR_TYPE_INVALID = 0"
definition XDP2_ADDR_TYPE_IPV4 :: u8 where [proto_simps]: "XDP2_ADDR_TYPE_IPV4 = 1"
definition XDP2_ADDR_TYPE_IPV6 :: u8 where [proto_simps]: "XDP2_ADDR_TYPE_IPV6 = 2"
definition XDP2_ADDR_TYPE_TIPC :: u8 where [proto_simps]: "XDP2_ADDR_TYPE_TIPC = 3"

record md_tcp_options_t =
  tcpo_mss :: u16
  tcpo_window_scaling :: u8
  tcpo_ts_value :: u32
  tcpo_ts_echo :: u32
  tcpo_sack :: "(u32 \<times> u32) list"

record md_vlan_t =
  vlan_id :: "12 word"
  vlan_dei :: "1 word"
  vlan_priority :: "3 word"
  vlan_tpid :: u16

record md_icmp_t =
  icmp_type :: u8
  icmp_code :: u8
  icmp_id :: u16

record md_mpls_t =
  mpls_ttl :: "8 word"
  mpls_bos :: "1 word"
  mpls_tc :: "3 word"
  mpls_label :: "20 word"

record md_arp_t =
  arp_sip :: "u8 list"
  arp_tip :: "u8 list"
  arp_op :: u8
  arp_sha :: "u8 list"
  arp_tha :: "u8 list"

record md_gre_t =
  gre_flags :: u32
  gre_csum :: u16
  gre_keyid :: u32
  gre_seq :: u32
  gre_routing :: u32

record md_gre_pptp_t =
  pptp_flags :: u32
  pptp_length :: u16
  pptp_callid :: u16
  pptp_seq :: u32
  pptp_ack :: u32

record xdp2_metadata_all =
  md_addr_type :: u8
  md_is_fragment :: "1 word"
  md_first_frag :: "1 word"
  md_vlan_count :: "2 word"
  md_eth_addrs :: "u8 list"
  md_tcp_options :: md_tcp_options_t
  md_mpls :: md_mpls_t
  md_arp :: md_arp_t
  md_gre :: md_gre_t
  md_gre_pptp :: md_gre_pptp_t
  md_l2_off :: u16
  md_l3_off :: u16
  md_l4_off :: u16
  md_eth_proto :: u16
  md_ip_proto :: u8
  md_flow_label :: u32
  md_vlan :: "md_vlan_t list"
  md_keyid :: u32
  md_src_port :: u16
  md_dst_port :: u16
  md_icmp :: md_icmp_t
  md_addrs :: "u8 list"

text \<open>\<open>sizeof (struct xdp2_metadata_all)\<close>, the offset of \<open>eth_proto\<close>
  (\<open>XDP2_HASH_OFFSET_ALL\<close>) and that of \<open>addrs\<close>.\<close>

definition sizeof_metadata_all :: nat where [proto_simps]: "sizeof_metadata_all = 200"
definition XDP2_HASH_OFFSET_ALL :: nat where [proto_simps]: "XDP2_HASH_OFFSET_ALL = 136"
definition offsetof_addrs :: nat where [proto_simps]: "offsetof_addrs = 164"

definition XDP2_MAX_VLAN_CNT :: nat where [proto_simps]: "XDP2_MAX_VLAN_CNT = 2"

text \<open>The arrays of a frame have their declared sizes.\<close>

definition frame_ok :: "xdp2_metadata_all \<Rightarrow> bool" where
  "frame_ok f \<longleftrightarrow> length (md_addrs f) = 32 \<and> length (md_vlan f) = 2 \<and>
     length (tcpo_sack (md_tcp_options f)) = 4"

record frame_mem =
  fm_size :: nat
  fm_frames :: "nat \<Rightarrow> xdp2_metadata_all"

text \<open>A write to the frame at an offset. The templates write single fields; the model asks for room for the
  whole frame, so that it may fault where the source still writes inside the object.\<close>

definition upd_frame ::
  "nat \<Rightarrow> (xdp2_metadata_all \<Rightarrow> xdp2_metadata_all) \<Rightarrow> frame_mem ustate \<Rightarrow> frame_mem ustate res" where
  "upd_frame frame g us =
     (if frame + sizeof_metadata_all \<le> fm_size (umeta us)
      then Ok (us\<lparr>umeta := (umeta us)\<lparr>fm_frames := (fm_frames (umeta us))(frame := g (fm_frames (umeta us) frame))\<rparr>\<rparr>)
      else Err OutOfBounds)"

text \<open>A template that reads a value \<open>rd\<close> from the header and then updates the frame.\<close>

definition template ::
  "(packet \<Rightarrow> nat \<Rightarrow> xdp2_ctrl_data \<Rightarrow> 'v res) \<Rightarrow> ('v \<Rightarrow> xdp2_metadata_all \<Rightarrow> xdp2_metadata_all)
   \<Rightarrow> frame_mem extract_fn" where
  "template rd g p hdr hdr_len frame ctrl us =
     (case hdr of
        None \<Rightarrow> Err NullPointer
      | Some h \<Rightarrow> bind_res (rd p h ctrl) (\<lambda>v. upd_frame frame (g v) us))"

definition xdp2_parse_hdr_offset :: "nat \<Rightarrow> xdp2_ctrl_data \<Rightarrow> size_t" where
  "xdp2_parse_hdr_offset hdr ctrl = word_of_int (int hdr - int (start (pkt ctrl)))"

text \<open>\<open>memcpy\<close> into the first bytes of an array.\<close>

definition overwrite :: "u8 list \<Rightarrow> u8 list \<Rightarrow> u8 list" where
  "overwrite bs a = bs @ drop (length bs) a"

section \<open>Ethernet and IP\<close>

definition XDP2_METADATA_TEMP_ether :: "frame_mem extract_fn" where
  "XDP2_METADATA_TEMP_ether = template
     (\<lambda>p h _. bind_res (rd16 p (h + 12)) (\<lambda>pr. bind_res (rd_bytes p h 12) (\<lambda>ad. Ok (pr, ad))))
     (\<lambda>(pr, ad) f. f\<lparr>md_eth_proto := pr, md_eth_addrs := ad\<rparr>)"

definition XDP2_METADATA_TEMP_ether_off :: "frame_mem extract_fn" where
  "XDP2_METADATA_TEMP_ether_off = template
     (\<lambda>p h ctrl. bind_res (rd16 p (h + 12)) (\<lambda>pr. bind_res (rd_bytes p h 12) (\<lambda>ad.
        Ok (xdp2_parse_hdr_offset h ctrl, pr, ad))))
     (\<lambda>(off, pr, ad) f. f\<lparr>md_l2_off := ucast off, md_eth_proto := pr, md_eth_addrs := ad\<rparr>)"

definition XDP2_METADATA_TEMP_ether_noaddrs :: "frame_mem extract_fn" where
  "XDP2_METADATA_TEMP_ether_noaddrs = template
     (\<lambda>p h _. rd16 p (h + 12)) (\<lambda>pr f. f\<lparr>md_eth_proto := pr\<rparr>)"

definition XDP2_METADATA_TEMP_ipv4 :: "frame_mem extract_fn" where
  "XDP2_METADATA_TEMP_ipv4 = template
     (\<lambda>p h ctrl. bind_res (ip_is_fragment p h) (\<lambda>frag. bind_res (rd16 p (h + 6)) (\<lambda>fo.
        bind_res (rd8 p (h + 9)) (\<lambda>pr. bind_res (rd_bytes p (h + 12) 8) (\<lambda>ad.
        Ok (frag, fo, xdp2_parse_hdr_offset h ctrl, pr, ad))))))
     (\<lambda>(frag, fo, off, pr, ad) f.
        (if frag then f\<lparr>md_is_fragment := 1, md_first_frag := (if fo AND htons IP_OFFSET = 0 then 1 else 0)\<rparr>
         else f)\<lparr>md_l3_off := ucast off, md_addr_type := XDP2_ADDR_TYPE_IPV4, md_ip_proto := pr,
           md_addrs := overwrite ad (md_addrs f)\<rparr>)"

definition XDP2_METADATA_TEMP_ipv4_addrs :: "frame_mem extract_fn" where
  "XDP2_METADATA_TEMP_ipv4_addrs = template
     (\<lambda>p h _. bind_res (rd8 p (h + 9)) (\<lambda>pr. bind_res (rd_bytes p (h + 12) 8) (\<lambda>ad. Ok (pr, ad))))
     (\<lambda>(pr, ad) f. f\<lparr>md_addr_type := XDP2_ADDR_TYPE_IPV4, md_ip_proto := pr,
        md_addrs := overwrite ad (md_addrs f)\<rparr>)"

definition XDP2_METADATA_TEMP_ipv6 :: "frame_mem extract_fn" where
  "XDP2_METADATA_TEMP_ipv6 = template
     (\<lambda>p h ctrl. bind_res (rd8 p (h + 6)) (\<lambda>nh. bind_res (ip6_flowlabel p h) (\<lambda>fl.
        bind_res (rd_bytes p (h + 8) 32) (\<lambda>ad. Ok (xdp2_parse_hdr_offset h ctrl, nh, fl, ad)))))
     (\<lambda>(off, nh, fl, ad) f. f\<lparr>md_l3_off := ucast off, md_ip_proto := nh,
        md_addr_type := XDP2_ADDR_TYPE_IPV6, md_flow_label := ntohl fl,
        md_addrs := overwrite ad (md_addrs f)\<rparr>)"

definition XDP2_METADATA_TEMP_ipv6_addrs :: "frame_mem extract_fn" where
  "XDP2_METADATA_TEMP_ipv6_addrs = template
     (\<lambda>p h _. bind_res (rd8 p (h + 6)) (\<lambda>nh. bind_res (rd_bytes p (h + 8) 32) (\<lambda>ad. Ok (nh, ad))))
     (\<lambda>(nh, ad) f. f\<lparr>md_ip_proto := nh, md_addr_type := XDP2_ADDR_TYPE_IPV6,
        md_addrs := overwrite ad (md_addrs f)\<rparr>)"

text \<open>Nothing is written for a version that is neither 4 nor 6.\<close>

definition XDP2_METADATA_TEMP_ip_overlay :: "frame_mem extract_fn" where
  "XDP2_METADATA_TEMP_ip_overlay p hdr hdr_len frame ctrl us =
     (case hdr of
        None \<Rightarrow> Err NullPointer
      | Some h \<Rightarrow> bind_res (rd8 p h) (\<lambda>b.
          if drop_bit 4 b = 4 then upd_frame frame (\<lambda>f. f\<lparr>md_eth_proto := htons 0x0800\<rparr>) us
          else if drop_bit 4 b = 6 then upd_frame frame (\<lambda>f. f\<lparr>md_eth_proto := htons 0x86DD\<rparr>) us
          else Ok us))"

definition XDP2_METADATA_TEMP_ipv6_eh :: "frame_mem extract_fn" where
  "XDP2_METADATA_TEMP_ipv6_eh = template (\<lambda>p h _. rd8 p h) (\<lambda>nh f. f\<lparr>md_ip_proto := nh\<rparr>)"

definition XDP2_METADATA_TEMP_ipv6_frag :: "frame_mem extract_fn" where
  "XDP2_METADATA_TEMP_ipv6_frag = template
     (\<lambda>p h _. bind_res (rd8 p h) (\<lambda>nh. bind_res (rd16 p (h + 2)) (\<lambda>fo. Ok (nh, fo))))
     (\<lambda>(nh, fo) f. f\<lparr>md_ip_proto := nh, md_is_fragment := 1,
        md_first_frag := (if fo AND htons IP6_OFFSET = 0 then 1 else 0)\<rparr>)"

definition XDP2_METADATA_TEMP_ipv6_frag_noinfo :: "frame_mem extract_fn" where
  "XDP2_METADATA_TEMP_ipv6_frag_noinfo = template (\<lambda>p h _. rd8 p h) (\<lambda>nh f. f\<lparr>md_ip_proto := nh\<rparr>)"

section \<open>Transport and TCP options\<close>

text \<open>\<open>ports\<close> is a union with the two 16-bit port numbers.\<close>

definition rd_ports :: "packet \<Rightarrow> nat \<Rightarrow> (u16 \<times> u16) res" where
  "rd_ports p h = bind_res (rd16 p h) (\<lambda>s. bind_res (rd16 p (h + 2)) (\<lambda>d. Ok (s, d)))"

definition XDP2_METADATA_TEMP_ports :: "frame_mem extract_fn" where
  "XDP2_METADATA_TEMP_ports = template (\<lambda>p h _. rd_ports p h)
     (\<lambda>(s, d) f. f\<lparr>md_src_port := s, md_dst_port := d\<rparr>)"

definition XDP2_METADATA_TEMP_ports_off :: "frame_mem extract_fn" where
  "XDP2_METADATA_TEMP_ports_off = template
     (\<lambda>p h ctrl. bind_res (rd_ports p h) (\<lambda>(s, d). Ok (s, d, xdp2_parse_hdr_offset h ctrl)))
     (\<lambda>(s, d, off) f. f\<lparr>md_src_port := s, md_dst_port := d, md_l4_off := ucast off\<rparr>)"

definition XDP2_METADATA_TEMP_tcp_option_mss :: "frame_mem extract_fn" where
  "XDP2_METADATA_TEMP_tcp_option_mss = template (\<lambda>p h _. rd16 p (h + 2))
     (\<lambda>v f. f\<lparr>md_tcp_options := (md_tcp_options f)\<lparr>tcpo_mss := ntohs v\<rparr>\<rparr>)"

definition XDP2_METADATA_TEMP_tcp_option_window_scaling :: "frame_mem extract_fn" where
  "XDP2_METADATA_TEMP_tcp_option_window_scaling = template (\<lambda>p h _. rd8 p (h + 2))
     (\<lambda>v f. f\<lparr>md_tcp_options := (md_tcp_options f)\<lparr>tcpo_window_scaling := v\<rparr>\<rparr>)"

definition XDP2_METADATA_TEMP_tcp_option_timestamp :: "frame_mem extract_fn" where
  "XDP2_METADATA_TEMP_tcp_option_timestamp = template
     (\<lambda>p h _. bind_res (rd32 p (h + 2)) (\<lambda>v. bind_res (rd32 p (h + 6)) (\<lambda>e. Ok (v, e))))
     (\<lambda>(v, e) f. f\<lparr>md_tcp_options := (md_tcp_options f)\<lparr>tcpo_ts_value := ntohl v, tcpo_ts_echo := ntohl e\<rparr>\<rparr>)"

text \<open>\<open>XDP2_METADATA_SET_TCP_SACK\<close> for the entries \<open>N\<close> below \<open>n\<close>.\<close>

primrec rd_sacks :: "nat \<Rightarrow> packet \<Rightarrow> nat \<Rightarrow> (u32 \<times> u32) list res" where
  "rd_sacks 0 p h = Ok []"
| "rd_sacks (Suc N) p h =
     bind_res (rd_sacks N p h) (\<lambda>ss.
     bind_res (rd32 p (h + 2 + 8 * N)) (\<lambda>l. bind_res (rd32 p (h + 2 + 8 * N + 4)) (\<lambda>r.
     Ok (ss @ [(ntohl l, ntohl r)]))))"

definition tcp_option_sack :: "nat \<Rightarrow> frame_mem extract_fn" where
  "tcp_option_sack n = template (\<lambda>p h _. rd_sacks n p h)
     (\<lambda>ss f. f\<lparr>md_tcp_options := (md_tcp_options f)\<lparr>tcpo_sack := ss @ drop (length ss) (tcpo_sack (md_tcp_options f))\<rparr>\<rparr>)"

definition XDP2_METADATA_TEMP_tcp_option_sack_1 :: "frame_mem extract_fn" where
  "XDP2_METADATA_TEMP_tcp_option_sack_1 = tcp_option_sack 1"
definition XDP2_METADATA_TEMP_tcp_option_sack_2 :: "frame_mem extract_fn" where
  "XDP2_METADATA_TEMP_tcp_option_sack_2 = tcp_option_sack 2"
definition XDP2_METADATA_TEMP_tcp_option_sack_3 :: "frame_mem extract_fn" where
  "XDP2_METADATA_TEMP_tcp_option_sack_3 = tcp_option_sack 3"
definition XDP2_METADATA_TEMP_tcp_option_sack_4 :: "frame_mem extract_fn" where
  "XDP2_METADATA_TEMP_tcp_option_sack_4 = tcp_option_sack 4"

section \<open>ARP, VLAN, ICMP, MPLS and TIPC\<close>

definition XDP2_METADATA_TEMP_arp_rarp :: "frame_mem extract_fn" where
  "XDP2_METADATA_TEMP_arp_rarp = template
     (\<lambda>p h _. bind_res (rd16 p (h + 6)) (\<lambda>op. bind_res (rd_bytes p (h + 8) 6) (\<lambda>sha.
        bind_res (rd_bytes p (h + 18) 6) (\<lambda>tha. bind_res (rd_bytes p (h + 14) 4) (\<lambda>sip.
        bind_res (rd_bytes p (h + 24) 4) (\<lambda>tip. Ok (op, sha, tha, sip, tip)))))))
     (\<lambda>(op, sha, tha, sip, tip) f. f\<lparr>md_arp := (md_arp f)\<lparr>arp_op := ucast (ntohs op AND 0xff),
        arp_sha := sha, arp_tha := tha, arp_sip := sip, arp_tip := tip\<rparr>\<rparr>)"

text \<open>The index into \<open>vlan[]\<close>, and the counter after the post-increment.\<close>

definition vlan_slot :: "2 word \<Rightarrow> nat \<times> 2 word" where
  "vlan_slot cnt = (if unat cnt < XDP2_MAX_VLAN_CNT then (unat cnt, cnt + 1) else (XDP2_MAX_VLAN_CNT - 1, cnt))"

definition XDP2_METADATA_TEMP_vlan_set_tpid :: "u16 \<Rightarrow> frame_mem extract_fn" where
  "XDP2_METADATA_TEMP_vlan_set_tpid TPID = template (\<lambda>p h _. map_res ntohs (rd16 p h))
     (\<lambda>tci f. case vlan_slot (md_vlan_count f) of (index, cnt) \<Rightarrow>
        f\<lparr>md_vlan_count := cnt,
          md_vlan := (md_vlan f)[index := (md_vlan f ! index)\<lparr>vlan_id := ucast (tci AND VLAN_VID_MASK),
            vlan_priority := ucast (drop_bit VLAN_PRIO_SHIFT (tci AND VLAN_PRIO_MASK)), vlan_tpid := TPID\<rparr>]\<rparr>)"

definition XDP2_METADATA_TEMP_vlan_8021AD :: "frame_mem extract_fn" where
  "XDP2_METADATA_TEMP_vlan_8021AD = XDP2_METADATA_TEMP_vlan_set_tpid 0x88A8"

definition XDP2_METADATA_TEMP_vlan_8021Q :: "frame_mem extract_fn" where
  "XDP2_METADATA_TEMP_vlan_8021Q = XDP2_METADATA_TEMP_vlan_set_tpid 0x8100"

definition XDP2_METADATA_TEMP_icmp :: "frame_mem extract_fn" where
  "XDP2_METADATA_TEMP_icmp = template
     (\<lambda>p h _. bind_res (rd8 p h) (\<lambda>ty. bind_res (rd8 p (h + 1)) (\<lambda>co.
        if icmp_has_id ty then bind_res (rd16 p (h + 4)) (\<lambda>id. Ok (ty, co, if id \<noteq> 0 then id else 1))
        else Ok (ty, co, 0))))
     (\<lambda>(ty, co, id) f. f\<lparr>md_icmp := \<lparr>icmp_type = ty, icmp_code = co, icmp_id = id\<rparr>\<rparr>)"

definition MPLS_LS_LABEL_MASK :: u32 where [proto_simps]: "MPLS_LS_LABEL_MASK = 0xFFFFF000"

definition XDP2_METADATA_TEMP_mpls :: "frame_mem extract_fn" where
  "XDP2_METADATA_TEMP_mpls = template
     (\<lambda>p h _. bind_res (rd32 p h) (\<lambda>e0.
        let entry = ntohl e0; label = drop_bit 12 (entry AND MPLS_LS_LABEL_MASK)
        in if label = 7 then bind_res (rd32 p (h + 4)) (\<lambda>e1. Ok (entry, label, Some e1))
           else Ok (entry, label, None)))
     (\<lambda>(entry, label, e1) f.
        let f1 = f\<lparr>md_mpls := \<lparr>mpls_ttl = ucast (entry AND 0xFF),
              mpls_bos = ucast (drop_bit 8 (entry AND 0x100)), mpls_tc = ucast (drop_bit 9 (entry AND 0xE00)),
              mpls_label = ucast label\<rparr>\<rparr>
        in case e1 of None \<Rightarrow> f1 | Some e \<Rightarrow> f1\<lparr>md_keyid := e AND htonl MPLS_LS_LABEL_MASK\<rparr>)"

definition XDP2_METADATA_TEMP_tipc :: "frame_mem extract_fn" where
  "XDP2_METADATA_TEMP_tipc = template
     (\<lambda>p h _. bind_res (rd32 p h) (\<lambda>w0. bind_res (rd_bytes p (h + 12) 4) (\<lambda>w3.
        Ok (ntohl w0 AND TIPC_KEEPALIVE_MSG_MASK = TIPC_KEEPALIVE_MSG_MASK, w3))))
     (\<lambda>(keepalive, w3) f. f\<lparr>md_addrs := overwrite (if keepalive then [0, 0, 0, 0] else w3) (md_addrs f),
        md_addr_type := XDP2_ADDR_TYPE_TIPC\<rparr>)"

section \<open>GRE\<close>

definition XDP2_METADATA_TEMP_gre :: "frame_mem extract_fn" where
  "XDP2_METADATA_TEMP_gre = template (\<lambda>p h _. gre_get_flags p h)
     (\<lambda>v f. f\<lparr>md_gre := (md_gre f)\<lparr>gre_flags := v\<rparr>\<rparr>)"

definition XDP2_METADATA_TEMP_gre_pptp :: "frame_mem extract_fn" where
  "XDP2_METADATA_TEMP_gre_pptp = template (\<lambda>p h _. gre_get_flags p h)
     (\<lambda>v f. f\<lparr>md_gre_pptp := (md_gre_pptp f)\<lparr>pptp_flags := v\<rparr>\<rparr>)"

definition XDP2_METADATA_TEMP_gre_checksum :: "frame_mem extract_fn" where
  "XDP2_METADATA_TEMP_gre_checksum = template (\<lambda>p h _. rd16 p h)
     (\<lambda>v f. f\<lparr>md_gre := (md_gre f)\<lparr>gre_csum := v\<rparr>\<rparr>)"

definition XDP2_METADATA_TEMP_gre_keyid :: "frame_mem extract_fn" where
  "XDP2_METADATA_TEMP_gre_keyid = template (\<lambda>p h _. rd32 p h)
     (\<lambda>v f. f\<lparr>md_gre := (md_gre f)\<lparr>gre_keyid := v\<rparr>, md_keyid := v\<rparr>)"

definition XDP2_METADATA_TEMP_gre_seq :: "frame_mem extract_fn" where
  "XDP2_METADATA_TEMP_gre_seq = template (\<lambda>p h _. rd32 p h)
     (\<lambda>v f. f\<lparr>md_gre := (md_gre f)\<lparr>gre_seq := v\<rparr>\<rparr>)"

definition XDP2_METADATA_TEMP_gre_routing :: "frame_mem extract_fn" where
  "XDP2_METADATA_TEMP_gre_routing = template (\<lambda>p h _. rd32 p h)
     (\<lambda>v f. f\<lparr>md_gre := (md_gre f)\<lparr>gre_routing := v\<rparr>\<rparr>)"

definition XDP2_METADATA_TEMP_gre_pptp_key :: "frame_mem extract_fn" where
  "XDP2_METADATA_TEMP_gre_pptp_key = template
     (\<lambda>p h _. bind_res (rd32 p h) (\<lambda>v. bind_res (rd16 p h) (\<lambda>l. bind_res (rd16 p (h + 2)) (\<lambda>c. Ok (v, l, c)))))
     (\<lambda>(v, l, c) f. f\<lparr>md_keyid := v, md_gre_pptp := (md_gre_pptp f)\<lparr>pptp_length := l, pptp_callid := c\<rparr>\<rparr>)"

definition XDP2_METADATA_TEMP_gre_pptp_seq :: "frame_mem extract_fn" where
  "XDP2_METADATA_TEMP_gre_pptp_seq = template (\<lambda>p h _. rd32 p h)
     (\<lambda>v f. f\<lparr>md_gre_pptp := (md_gre_pptp f)\<lparr>pptp_seq := v\<rparr>\<rparr>)"

definition XDP2_METADATA_TEMP_gre_pptp_ack :: "frame_mem extract_fn" where
  "XDP2_METADATA_TEMP_gre_pptp_ack = template (\<lambda>p h _. rd32 p h)
     (\<lambda>v f. f\<lparr>md_gre_pptp := (md_gre_pptp f)\<lparr>pptp_ack := v\<rparr>\<rparr>)"

section \<open>Contracts of the templates\<close>

text \<open>The invariant of a metadata object of \<open>n\<close> bytes.\<close>

definition mem_ok :: "nat \<Rightarrow> frame_mem ustate \<Rightarrow> bool" where
  "mem_ok n us \<longleftrightarrow> fm_size (umeta us) = n \<and> (\<forall>off. frame_ok (fm_frames (umeta us) off))"

definition frame_fits :: "nat \<Rightarrow> nat \<Rightarrow> bool" where
  "frame_fits n frame \<longleftrightarrow> frame + sizeof_metadata_all \<le> n"

lemma wp_upd_frame:
  "mem_ok n us \<Longrightarrow> frame_fits n frame \<Longrightarrow> \<forall>f. frame_ok f \<longrightarrow> frame_ok (g f) \<Longrightarrow>
   wp (mem_ok n) (upd_frame frame g us)"
  by (simp add: upd_frame_def mem_ok_def frame_fits_def)

lemma template_ok:
  assumes "\<And>h ctrl. h + m \<le> length p \<Longrightarrow> wp (\<lambda>v. \<forall>f. frame_ok f \<longrightarrow> frame_ok (g v f)) (rd p h ctrl)"
  shows "extract_ok (mem_ok n) (frame_fits n) p m (Some (template rd g))"
  by (auto simp: extract_ok_def template_def intro!: wp_mono [OF assms] wp_upd_frame)

lemma wp_rd32_dep: "wp P (rd32 p off) \<longleftrightarrow> off + 4 \<le> length p \<and>
    P (word_cat (word_cat (p ! (off + 3)) (p ! (off + 2)) :: u16) (word_cat (p ! (off + 1)) (p ! off) :: u16))"
  by (auto simp: rd32_def numeral_eq_Suc)

lemma length_overwrite: "length (overwrite bs a) = max (length bs) (length a)"
  by (simp add: overwrite_def max_def)

lemma vlan_slot_lt: "fst (vlan_slot c) < 2"
  by (simp add: vlan_slot_def XDP2_MAX_VLAN_CNT_def)

lemmas template_simps = frame_ok_def wp_rd32_dep length_overwrite rd_ports_def Let_def
  ip_is_fragment_def ip6_flowlabel_def gre_get_flags_def

lemma ether_templates_ok:
  "extract_ok (mem_ok n) (frame_fits n) p 14 (Some XDP2_METADATA_TEMP_ether)"
  "extract_ok (mem_ok n) (frame_fits n) p 14 (Some XDP2_METADATA_TEMP_ether_off)"
  "extract_ok (mem_ok n) (frame_fits n) p 14 (Some XDP2_METADATA_TEMP_ether_noaddrs)"
  unfolding XDP2_METADATA_TEMP_ether_def XDP2_METADATA_TEMP_ether_off_def XDP2_METADATA_TEMP_ether_noaddrs_def
  by (rule template_ok; simp add: template_simps)+

lemma ipv4_templates_ok:
  "extract_ok (mem_ok n) (frame_fits n) p 20 (Some XDP2_METADATA_TEMP_ipv4)"
  "extract_ok (mem_ok n) (frame_fits n) p 20 (Some XDP2_METADATA_TEMP_ipv4_addrs)"
  unfolding XDP2_METADATA_TEMP_ipv4_def XDP2_METADATA_TEMP_ipv4_addrs_def
  by (rule template_ok; simp add: template_simps)+

lemma ip_overlay_template_ok:
  "extract_ok (mem_ok n) (frame_fits n) p 1 (Some XDP2_METADATA_TEMP_ip_overlay)"
  by (auto simp: extract_ok_def XDP2_METADATA_TEMP_ip_overlay_def frame_ok_def intro!: wp_upd_frame)

lemma ipv6_templates_ok:
  "extract_ok (mem_ok n) (frame_fits n) p 40 (Some XDP2_METADATA_TEMP_ipv6)"
  "extract_ok (mem_ok n) (frame_fits n) p 40 (Some XDP2_METADATA_TEMP_ipv6_addrs)"
  "extract_ok (mem_ok n) (frame_fits n) p 2 (Some XDP2_METADATA_TEMP_ipv6_eh)"
  "extract_ok (mem_ok n) (frame_fits n) p 8 (Some XDP2_METADATA_TEMP_ipv6_frag)"
  "extract_ok (mem_ok n) (frame_fits n) p 8 (Some XDP2_METADATA_TEMP_ipv6_frag_noinfo)"
  unfolding XDP2_METADATA_TEMP_ipv6_def XDP2_METADATA_TEMP_ipv6_addrs_def XDP2_METADATA_TEMP_ipv6_eh_def
    XDP2_METADATA_TEMP_ipv6_frag_def XDP2_METADATA_TEMP_ipv6_frag_noinfo_def
  by (rule template_ok; simp add: template_simps)+

lemma transport_templates_ok:
  "extract_ok (mem_ok n) (frame_fits n) p 4 (Some XDP2_METADATA_TEMP_ports)"
  "extract_ok (mem_ok n) (frame_fits n) p 4 (Some XDP2_METADATA_TEMP_ports_off)"
  "extract_ok (mem_ok n) (frame_fits n) p 4 (Some XDP2_METADATA_TEMP_tcp_option_mss)"
  "extract_ok (mem_ok n) (frame_fits n) p 3 (Some XDP2_METADATA_TEMP_tcp_option_window_scaling)"
  "extract_ok (mem_ok n) (frame_fits n) p 10 (Some XDP2_METADATA_TEMP_tcp_option_timestamp)"
  unfolding XDP2_METADATA_TEMP_ports_def XDP2_METADATA_TEMP_ports_off_def
    XDP2_METADATA_TEMP_tcp_option_mss_def XDP2_METADATA_TEMP_tcp_option_window_scaling_def
    XDP2_METADATA_TEMP_tcp_option_timestamp_def
  by (rule template_ok; simp add: template_simps)+

lemma wp_rd_sacks:
  "h + 2 + 8 * N \<le> length p \<Longrightarrow> wp (\<lambda>ss. length ss = N) (rd_sacks N p h)"
  by (induction N) (auto simp: wp_rd32_dep elim!: wp_mono)

lemma sack_template_ok:
  assumes "k \<le> 4"
  shows "extract_ok (mem_ok n) (frame_fits n) p (2 + 8 * k) (Some (tcp_option_sack k))"
  unfolding tcp_option_sack_def
  by (rule template_ok, rule wp_mono [OF wp_rd_sacks]) (use assms in \<open>auto simp: frame_ok_def\<close>)

lemma sack_templates_ok:
  "extract_ok (mem_ok n) (frame_fits n) p 10 (Some XDP2_METADATA_TEMP_tcp_option_sack_1)"
  "extract_ok (mem_ok n) (frame_fits n) p 18 (Some XDP2_METADATA_TEMP_tcp_option_sack_2)"
  "extract_ok (mem_ok n) (frame_fits n) p 26 (Some XDP2_METADATA_TEMP_tcp_option_sack_3)"
  "extract_ok (mem_ok n) (frame_fits n) p 34 (Some XDP2_METADATA_TEMP_tcp_option_sack_4)"
  using sack_template_ok [of 1 n p] sack_template_ok [of 2 n p] sack_template_ok [of 3 n p]
    sack_template_ok [of 4 n p]
  by (simp_all add: XDP2_METADATA_TEMP_tcp_option_sack_1_def XDP2_METADATA_TEMP_tcp_option_sack_2_def
      XDP2_METADATA_TEMP_tcp_option_sack_3_def XDP2_METADATA_TEMP_tcp_option_sack_4_def)

lemma misc_templates_ok:
  "extract_ok (mem_ok n) (frame_fits n) p 28 (Some XDP2_METADATA_TEMP_arp_rarp)"
  "extract_ok (mem_ok n) (frame_fits n) p 4 (Some (XDP2_METADATA_TEMP_vlan_set_tpid tpid))"
  "extract_ok (mem_ok n) (frame_fits n) p 8 (Some XDP2_METADATA_TEMP_icmp)"
  "extract_ok (mem_ok n) (frame_fits n) p 8 (Some XDP2_METADATA_TEMP_mpls)"
  "extract_ok (mem_ok n) (frame_fits n) p 16 (Some XDP2_METADATA_TEMP_tipc)"
  unfolding XDP2_METADATA_TEMP_arp_rarp_def XDP2_METADATA_TEMP_vlan_set_tpid_def
    XDP2_METADATA_TEMP_icmp_def XDP2_METADATA_TEMP_mpls_def XDP2_METADATA_TEMP_tipc_def
  by (rule template_ok; simp add: template_simps split: prod.split)+

lemma gre_templates_ok:
  "extract_ok (mem_ok n) (frame_fits n) p 4 (Some XDP2_METADATA_TEMP_gre)"
  "extract_ok (mem_ok n) (frame_fits n) p 4 (Some XDP2_METADATA_TEMP_gre_pptp)"
  "extract_ok (mem_ok n) (frame_fits n) p 4 (Some XDP2_METADATA_TEMP_gre_checksum)"
  "extract_ok (mem_ok n) (frame_fits n) p 4 (Some XDP2_METADATA_TEMP_gre_keyid)"
  "extract_ok (mem_ok n) (frame_fits n) p 4 (Some XDP2_METADATA_TEMP_gre_seq)"
  "extract_ok (mem_ok n) (frame_fits n) p 4 (Some XDP2_METADATA_TEMP_gre_routing)"
  unfolding XDP2_METADATA_TEMP_gre_def XDP2_METADATA_TEMP_gre_pptp_def XDP2_METADATA_TEMP_gre_checksum_def
    XDP2_METADATA_TEMP_gre_keyid_def XDP2_METADATA_TEMP_gre_seq_def XDP2_METADATA_TEMP_gre_routing_def
  by (rule template_ok; simp add: template_simps)+

lemma pptp_templates_ok:
  "extract_ok (mem_ok n) (frame_fits n) p 4 (Some XDP2_METADATA_TEMP_gre_pptp_key)"
  "extract_ok (mem_ok n) (frame_fits n) p 4 (Some XDP2_METADATA_TEMP_gre_pptp_seq)"
  "extract_ok (mem_ok n) (frame_fits n) p 4 (Some XDP2_METADATA_TEMP_gre_pptp_ack)"
  unfolding XDP2_METADATA_TEMP_gre_pptp_key_def XDP2_METADATA_TEMP_gre_pptp_seq_def
    XDP2_METADATA_TEMP_gre_pptp_ack_def
  by (rule template_ok; simp add: template_simps)+

lemmas templates_ok = ether_templates_ok ipv4_templates_ok ip_overlay_template_ok ipv6_templates_ok transport_templates_ok
  sack_templates_ok misc_templates_ok gre_templates_ok pptp_templates_ok

end
