(* ===== verification/Le_Words.thy ===== *)
theory Le_Words
  imports Xdp2_Prelude
begin

text \<open>
  Little-endian words and blocks of bytes, shared by the hash functions: the word that a
  list of bytes spells, the bytes of a word, the cutting of a message into blocks, and the
  loads of the prelude in these terms.
\<close>

named_theorems le_simps \<open>loads and words in terms of their bytes\<close>

lemma bind_res_cong [fundef_cong]:
  "m = m' \<Longrightarrow> (\<And>x. m' = Ok x \<Longrightarrow> f x = g x) \<Longrightarrow> bind_res m f = bind_res m' g"
  by (cases m') auto

lemma map_res_of_bind: "map_res g (bind_res m h) = bind_res m (\<lambda>x. map_res g (h x))"
  by (cases m) simp_all

section \<open>Words and their bytes\<close>

primrec word_of_le :: "u8 list \<Rightarrow> 'a::len word" where
  "word_of_le [] = 0"
| "word_of_le (b # bs) = ucast b OR push_bit 8 (word_of_le bs)"

definition bytes_le :: "nat \<Rightarrow> 'a::len word \<Rightarrow> u8 list" where
  "bytes_le n w = map (\<lambda>i. ucast (drop_bit (8 * i) w)) [0..<n]"

lemma bit_u8_imp: "bit (b :: u8) n \<Longrightarrow> n < 8"
  using bit_imp_le_length [of b n] by simp

lemma bit_word_of_le:
  "bit (word_of_le bs :: 'a::len word) n \<longleftrightarrow>
     n < LENGTH('a) \<and> n div 8 < length bs \<and> bit (bs ! (n div 8)) (n mod 8)"
proof (induction bs arbitrary: n)
  case (Cons b bs)
  show ?case
  proof (cases "n < 8")
    case True
    then show ?thesis by (auto simp: bit_or_iff bit_ucast_iff bit_push_bit_iff)
  next
    case False
    then have "n div 8 = Suc ((n - 8) div 8)" "n mod 8 = (n - 8) mod 8"
      by (simp_all add: le_div_geq le_mod_geq)
    with False show ?thesis
      by (auto simp: bit_or_iff bit_ucast_iff bit_push_bit_iff Cons.IH dest: bit_u8_imp bit_imp_le_length)
  qed
qed simp

lemma word_of_le_append:
  "word_of_le (xs @ ys) = word_of_le xs OR push_bit (8 * length xs) (word_of_le ys)"
  by (induction xs) (simp_all add: push_bit_or or.assoc add.commute)

lemma word_of_le_zeros [simp]: "word_of_le (replicate n 0) = 0"
  by (induction n) simp_all

lemma word_cat_le:
  assumes "8 * length lo = LENGTH('b::len)" "LENGTH('c) \<le> LENGTH('a) + LENGTH('b)"
  shows "word_cat (word_of_le hi :: 'a::len word) (word_of_le lo :: 'b word) =
    (word_of_le (lo @ hi) :: 'c::len word)"
proof (rule bit_word_eqI)
  fix n assume n: "n < LENGTH('c)"
  show "bit (word_cat (word_of_le hi :: 'a word) (word_of_le lo :: 'b word) :: 'c word) n =
    bit (word_of_le (lo @ hi) :: 'c word) n"
  proof (cases "n < LENGTH('b)")
    case True
    then have "n div 8 < length lo" using assms(1) by (simp add: div_less_iff_less_mult mult.commute)
    then show ?thesis using True n by (simp add: bit_word_cat_iff bit_word_of_le nth_append)
  next
    case False
    then obtain m where m: "n = 8 * length lo + m" using assms(1) by (metis le_add_diff_inverse not_less)
    have "n div 8 = length lo + m div 8" "n mod 8 = m mod 8" unfolding m by simp_all
    then show ?thesis using False n assms m
      by (auto simp: bit_word_cat_iff bit_word_of_le nth_append)
  qed
qed

lemma length_bytes_le [simp]: "length (bytes_le n w) = n"
  by (simp add: bytes_le_def)

lemma word_of_bytes_le:
  assumes "8 * n = LENGTH('a)" shows "word_of_le (bytes_le n w) = (w :: 'a::len word)"
proof (rule bit_word_eqI)
  fix i assume i: "i < LENGTH('a)"
  then have "i div 8 < n" using assms by (simp add: div_less_iff_less_mult mult.commute)
  with i show "bit (word_of_le (bytes_le n w) :: 'a word) i = bit w i"
    by (simp add: bit_word_of_le bytes_le_def bit_ucast_iff bit_drop_bit_eq)
qed

lemma bytes_of_word_of_le:
  assumes "8 * length bs \<le> LENGTH('a::len)"
  shows "bytes_le (length bs) (word_of_le bs :: 'a word) = bs"
proof (rule nth_equalityI)
  fix i assume "i < length (bytes_le (length bs) (word_of_le bs :: 'a word))"
  then have i: "i < length bs" by simp
  show "bytes_le (length bs) (word_of_le bs :: 'a word) ! i = bs ! i"
  proof (rule bit_word_eqI)
    fix k assume k: "k < LENGTH(8)"
    have "8 * i + k < LENGTH('a)" using i k assms by simp
    with i k show "bit (bytes_le (length bs) (word_of_le bs :: 'a word) ! i) k = bit (bs ! i) k"
      by (simp add: bytes_le_def bit_ucast_iff bit_drop_bit_eq bit_word_of_le)
  qed
qed simp

section \<open>Loads\<close>

lemma rd8_word: "off < length p \<Longrightarrow> rd8 p off = Ok (p ! off)"
  by (simp add: rd8_def)

lemma rd16_word [le_simps]:
  assumes "off + 2 \<le> length p" shows "rd16 p off = Ok (word_of_le (take 2 (drop off p)))"
proof -
  have t: "take 2 (drop off p) = [p ! off, p ! Suc off]"
    using assms by (simp add: numeral_2_eq_2 take_Suc_conv_app_nth)
  have "word_cat (p ! Suc off) (p ! off) = (word_of_le [p ! off, p ! Suc off] :: u16)"
    using word_cat_le [of "[p ! off]" "[p ! Suc off]", where 'a = 8 and 'b = 8 and 'c = 16] by simp
  then show ?thesis using assms by (simp add: rd16_def t)
qed

lemma rd32_word [le_simps]:
  assumes "off + 4 \<le> length p" shows "rd32 p off = Ok (word_of_le (take 4 (drop off p)))"
proof -
  have "take 4 (drop off p) = take 2 (drop off p) @ take 2 (drop (off + 2) p)"
    using take_add [of 2 2 "drop off p"] by (simp add: add.commute)
  moreover have "length (take 2 (drop off p)) = 2" using assms by simp
  ultimately show ?thesis
    using assms word_cat_le [of "take 2 (drop off p)" "take 2 (drop (off + 2) p)", where 'a = 16 and 'b = 16 and 'c = 32]
    by (simp add: rd32_def rd16_word)
qed

lemma rd64_word [le_simps]:
  assumes "off + 8 \<le> length p" shows "rd64 p off = Ok (word_of_le (take 8 (drop off p)))"
proof -
  have "take 8 (drop off p) = take 4 (drop off p) @ take 4 (drop (off + 4) p)"
    using take_add [of 4 4 "drop off p"] by (simp add: add.commute)
  moreover have "length (take 4 (drop off p)) = 4" using assms by simp
  ultimately show ?thesis
    using assms word_cat_le [of "take 4 (drop off p)" "take 4 (drop (off + 4) p)", where 'a = 32 and 'b = 32 and 'c = 64]
    by (simp add: rd64_def rd32_word)
qed

lemma rd16_Err: "length p < off + 2 \<Longrightarrow> rd16 p off = Err OutOfBounds"
  by (simp add: rd16_def)

lemma rd32_Err: "length p < off + 4 \<Longrightarrow> rd32 p off = Err OutOfBounds"
  by (cases "off + 2 \<le> length p") (simp_all add: rd32_def rd16_def)

lemma rd64_Err: "length p < off + 8 \<Longrightarrow> rd64 p off = Err OutOfBounds"
  by (cases "off + 4 \<le> length p") (simp_all add: rd64_def rd32_Err rd32_word)

lemma rd64_OkD: "rd64 p off = Ok w \<Longrightarrow> off + 8 \<le> length p"
  using rd64_Err [of p off] by (cases "off + 8 \<le> length p") auto

lemma rd32_OkD: "rd32 p off = Ok w \<Longrightarrow> off + 4 \<le> length p"
  using rd32_Err [of p off] by (cases "off + 4 \<le> length p") auto

section \<open>Blocks\<close>

text \<open>The first \<open>n\<close> words of \<open>k\<close> bytes each.\<close>

primrec le_blocks :: "nat \<Rightarrow> nat \<Rightarrow> u8 list \<Rightarrow> 'a::len word list" where
  "le_blocks k 0 bs = []"
| "le_blocks k (Suc n) bs = word_of_le (take k bs) # le_blocks k n (drop k bs)"

lemma le_blocks_append:
  "k * n \<le> length xs \<Longrightarrow> le_blocks k n (xs @ ys) = le_blocks k n xs"
  by (induction n arbitrary: xs) simp_all

lemma le_blocks_add: "le_blocks k (m + n) bs = le_blocks k m bs @ le_blocks k n (drop (k * m) bs)"
  by (induction m arbitrary: bs) (simp_all add: add.commute)

lemma le_blocks_Suc_last: "le_blocks k (Suc n) bs = le_blocks k n bs @ [word_of_le (take k (drop (k * n) bs))]"
  using le_blocks_add [of k n 1 bs] by simp

end
