(* ===== verification/Digest.thy ===== *)
theory Digest
  imports Le_Words
begin

text \<open>
  The interface of a digest that is computed in pieces: an update takes the state from the
  bytes read so far to those bytes and one more piece, and the end gives the digest of all
  the bytes. Clients cut a message as they like.
\<close>

locale digest =
  fixes read :: "u8 list \<Rightarrow> 's \<Rightarrow> bool"
    and update :: "'s \<Rightarrow> u8 list \<Rightarrow> 's res"
    and finish :: "'s \<Rightarrow> 'h res"
    and whole :: "u8 list \<Rightarrow> bool"
    and hash :: "u8 list \<Rightarrow> 'h"
  assumes update_law: "read bs s \<Longrightarrow> length c < 2 ^ 64 \<Longrightarrow> wp (read (bs @ c)) (update s c)"
    and finish_law: "read bs s \<Longrightarrow> whole bs \<Longrightarrow> finish s = Ok (hash bs)"
begin

primrec update_all :: "'s \<Rightarrow> u8 list list \<Rightarrow> 's res" where
  "update_all s [] = Ok s"
| "update_all s (c # cs) = bind_res (update s c) (\<lambda>s. update_all s cs)"

lemma update_all_read:
  "read bs s \<Longrightarrow> \<forall>c\<in>set cs. length c < 2 ^ 64 \<Longrightarrow> wp (read (bs @ concat cs)) (update_all s cs)"
proof (induction cs arbitrary: bs s)
  case (Cons c cs)
  then have "wp (read (bs @ c)) (update s c)" by (intro update_law) simp_all
  then show ?case using Cons.prems(2) Cons.IH [of "bs @ c"] by (auto elim: wp_mono)
qed simp

lemma pieces:
  assumes "read [] s" "\<forall>c\<in>set cs. length c < 2 ^ 64" "whole (concat cs)"
  shows "bind_res (update_all s cs) finish = Ok (hash (concat cs))"
  using update_all_read [OF assms(1,2)] finish_law assms(3) by (auto simp: wp_iff)

lemma pieces_same:
  assumes "read [] s" "read [] s'" "concat cs = concat cs'" "whole (concat cs)"
    "\<forall>c\<in>set cs. length c < 2 ^ 64" "\<forall>c\<in>set cs'. length c < 2 ^ 64"
  shows "bind_res (update_all s cs) finish = bind_res (update_all s' cs') finish"
  using pieces [OF assms(1,5)] pieces [OF assms(2,6)] assms(3,4) by simp

end

end
