(* ===== verification/Siphash.thy ===== *)
theory Siphash
  imports Digest
begin

text \<open>
  SipHash, \<open>src/lib/siphash/siphash.c\<close> and \<open>src/include/siphash/siphash.h\<close>: the hash of a
  byte string by aligned and by unaligned loads, the variants for a fixed number of words,
  the iterator that hashes a message in pieces, and the register-based interface.

  The macro \<open>SIPHASH_KERNEL_METHOD\<close> doubles the rounds. The build does not set it; it is the
  parameter \<open>km\<close> of the definitions. The local variables \<open>v0\<close>..\<open>v3\<close> are a quadruple of words.
  Data is read from a byte list at an offset; a load outside the list is a fault.

  The second half proves that all of these compute one function, SipHash with 1 compression
  round and 2 finalisation rounds (2 and 4 with the kernel method) as published: \<open>sip_hash\<close>.
\<close>

section \<open>Rounds\<close>

record siphash_key_t =
  key_0 :: u64
  key_1 :: u64

definition siphash_key_is_zero :: "siphash_key_t \<Rightarrow> bool" where
  "siphash_key_is_zero key \<longleftrightarrow> key_0 key OR key_1 key = 0"

definition siphash_rol64 :: "u64 \<Rightarrow> u32 \<Rightarrow> u64" where
  "siphash_rol64 word shift =
     push_bit (unat (shift AND 63)) word OR drop_bit (unat ((- shift) AND 63)) word"

type_synonym sipvars = "u64 \<times> u64 \<times> u64 \<times> u64"

fun SIPHASH_SIPROUND :: "sipvars \<Rightarrow> sipvars" where
  "SIPHASH_SIPROUND (v0, v1, v2, v3) =
     (let v0 = v0 + v1;
          v1 = siphash_rol64 v1 13;
          v1 = v1 XOR v0;
          v0 = siphash_rol64 v0 32;
          v2 = v2 + v3;
          v3 = siphash_rol64 v3 16;
          v3 = v3 XOR v2;
          v0 = v0 + v3;
          v3 = siphash_rol64 v3 21;
          v3 = v3 XOR v0;
          v2 = v2 + v1;
          v1 = siphash_rol64 v1 17;
          v1 = v1 XOR v2;
          v2 = siphash_rol64 v2 32
      in (v0, v1, v2, v3))"

text \<open>One word of data: \<open>MAKE_ROUND\<close>, and the same statements written out elsewhere.\<close>

fun MAKE_ROUND :: "bool \<Rightarrow> u64 \<Rightarrow> sipvars \<Rightarrow> sipvars" where
  "MAKE_ROUND km m (v0, v1, v2, v3) =
     (let v3 = v3 XOR m;
          (v0, v1, v2, v3) = SIPHASH_SIPROUND (v0, v1, v2, v3);
          (v0, v1, v2, v3) = (if km then SIPHASH_SIPROUND (v0, v1, v2, v3) else (v0, v1, v2, v3));
          v0 = v0 XOR m
      in (v0, v1, v2, v3))"

definition PREAMBLE :: "u64 \<Rightarrow> siphash_key_t \<Rightarrow> sipvars \<times> u64" where
  "PREAMBLE len key =
     (let v0 = 0x736f6d6570736575; v1 = 0x646f72616e646f6d; v2 = 0x6c7967656e657261;
          v3 = 0x7465646279746573;
          b = push_bit 56 len;
          v3 = v3 XOR key_1 key;
          v2 = v2 XOR key_0 key;
          v1 = v1 XOR key_1 key;
          v0 = v0 XOR key_0 key
      in ((v0, v1, v2, v3), b))"

definition SIPHASH_POSTAMBLE :: "bool \<Rightarrow> sipvars \<Rightarrow> u64 \<Rightarrow> u64" where
  "SIPHASH_POSTAMBLE km v b =
     (let (v0, v1, v2, v3) = v;
          v3 = v3 XOR b;
          (v0, v1, v2, v3) = SIPHASH_SIPROUND (v0, v1, v2, v3);
          (v0, v1, v2, v3) = (if km then SIPHASH_SIPROUND (v0, v1, v2, v3) else (v0, v1, v2, v3));
          v0 = v0 XOR b;
          v2 = v2 XOR 0xff;
          (v0, v1, v2, v3) = SIPHASH_SIPROUND (v0, v1, v2, v3);
          (v0, v1, v2, v3) = SIPHASH_SIPROUND (v0, v1, v2, v3);
          (v0, v1, v2, v3) = (if km then SIPHASH_SIPROUND (SIPHASH_SIPROUND (v0, v1, v2, v3))
                              else (v0, v1, v2, v3))
      in (v0 XOR v1) XOR (v2 XOR v3))"

section \<open>Hash of a byte string\<close>

text \<open>Unaligned loads. The shifts of promoted bytes are those of 32-bit two's complement
  integers, as gcc defines them.\<close>

definition get_unaligned_le16 :: "packet \<Rightarrow> nat \<Rightarrow> u16 res" where
  "get_unaligned_le16 p data =
     bind_res (rd8 p data) (\<lambda>b0. bind_res (rd8 p (data + 1)) (\<lambda>b1.
     Ok (ucast b0 OR push_bit 8 (ucast b1))))"

text \<open>In the source the last octet is shifted as an \<open>int\<close>, into the sign bit when it is 128 or more; this is the shift of
  the bits, which is what the compilers in use make of it. Loads need no alignment here.\<close>

definition get_unaligned_le32 :: "packet \<Rightarrow> nat \<Rightarrow> u32 res" where
  "get_unaligned_le32 p data =
     bind_res (rd8 p data) (\<lambda>b0. bind_res (rd8 p (data + 1)) (\<lambda>b1.
     bind_res (rd8 p (data + 2)) (\<lambda>b2. bind_res (rd8 p (data + 3)) (\<lambda>b3.
     Ok (ucast b0 OR push_bit 8 (ucast b1) OR push_bit 16 (ucast b2) OR push_bit 24 (ucast b3))))))"

definition get_unaligned_le64 :: "packet \<Rightarrow> nat \<Rightarrow> u64 res" where
  "get_unaligned_le64 p data =
     bind_res (get_unaligned_le32 p (data + 4)) (\<lambda>hi. bind_res (get_unaligned_le32 p data) (\<lambda>lo.
     Ok (push_bit 32 (ucast hi) OR ucast lo)))"

text \<open>The loop over the whole words, from \<open>data\<close> up to \<open>end\<close>, for a given load. With \<open>data\<close>
  beyond \<open>end\<close> the C loop would run out of the buffer.\<close>

function siphash_loop :: "bool \<Rightarrow> (nat \<Rightarrow> u64 res) \<Rightarrow> nat \<Rightarrow> nat \<Rightarrow> sipvars \<Rightarrow> sipvars res" where
  "siphash_loop km ld64 data end v =
     (if data = end then Ok v
      else if end < data then Err OutOfBounds
      else bind_res (ld64 data) (\<lambda>m. siphash_loop km ld64 (data + 8) end (MAKE_ROUND km m v)))"
  by pat_completeness auto
termination by (relation "measure (\<lambda>(km, ld, data, end, v). end - data)") auto

declare siphash_loop.simps [simp del]

text \<open>The switch over the bytes that are left, with its cases falling through.\<close>

definition or_byte :: "bool \<Rightarrow> packet \<Rightarrow> nat \<Rightarrow> nat \<Rightarrow> u64 \<Rightarrow> u64 res" where
  "or_byte c p off sh b =
     (if c then bind_res (rd8 p off) (\<lambda>x. Ok (b OR push_bit sh (ucast x))) else Ok b)"

definition siphash_left ::
  "(nat \<Rightarrow> u32 res) \<Rightarrow> (nat \<Rightarrow> u16 res) \<Rightarrow> packet \<Rightarrow> nat \<Rightarrow> u8 \<Rightarrow> u64 \<Rightarrow> u64 res" where
  "siphash_left ld32 ld16 p end left b =
     bind_res (or_byte (left = 7) p (end + 6) 48 b) (\<lambda>b.
     bind_res (or_byte (left \<in> {7, 6}) p (end + 5) 40 b) (\<lambda>b.
     bind_res (or_byte (left \<in> {7, 6, 5}) p (end + 4) 32 b) (\<lambda>b.
     if left \<in> {7, 6, 5, 4} then bind_res (ld32 end) (\<lambda>x. Ok (b OR ucast x))
     else
       bind_res (or_byte (left = 3) p (end + 2) 16 b) (\<lambda>b.
       if left \<in> {3, 2} then bind_res (ld16 end) (\<lambda>x. Ok (b OR ucast x))
       else or_byte (left = 1) p end 0 b))))"

definition siphash_with ::
  "(nat \<Rightarrow> u64 res) \<Rightarrow> (nat \<Rightarrow> u32 res) \<Rightarrow> (nat \<Rightarrow> u16 res)
   \<Rightarrow> bool \<Rightarrow> packet \<Rightarrow> nat \<Rightarrow> size_t \<Rightarrow> siphash_key_t \<Rightarrow> u64 res" where
  "siphash_with ld64 ld32 ld16 km p data len key =
     (let end = data + unat len - unat (len mod 8);
          left = ucast (len AND (8 - 1)) :: u8;
          (v, b) = PREAMBLE len key
      in bind_res (siphash_loop km ld64 data end v) (\<lambda>v.
         bind_res (siphash_left ld32 ld16 p end left b) (\<lambda>b.
         Ok (SIPHASH_POSTAMBLE km v b))))"

definition siphash_aligned :: "bool \<Rightarrow> packet \<Rightarrow> nat \<Rightarrow> size_t \<Rightarrow> siphash_key_t \<Rightarrow> u64 res" where
  "siphash_aligned km p = siphash_with (rd64 p) (rd32 p) (rd16 p) km p"

definition siphash_unaligned :: "bool \<Rightarrow> packet \<Rightarrow> nat \<Rightarrow> size_t \<Rightarrow> siphash_key_t \<Rightarrow> u64 res" where
  "siphash_unaligned km p =
     siphash_with (get_unaligned_le64 p) (get_unaligned_le32 p) (get_unaligned_le16 p) km p"

section \<open>A fixed number of words\<close>

definition siphash_1u64 :: "bool \<Rightarrow> u64 \<Rightarrow> siphash_key_t \<Rightarrow> u64" where
  "siphash_1u64 km first key =
     (let (v, b) = PREAMBLE 8 key;
          v = MAKE_ROUND km first v
      in SIPHASH_POSTAMBLE km v b)"

definition siphash_2u64 :: "bool \<Rightarrow> u64 \<Rightarrow> u64 \<Rightarrow> siphash_key_t \<Rightarrow> u64" where
  "siphash_2u64 km first second key =
     (let (v, b) = PREAMBLE 16 key;
          v = MAKE_ROUND km first v;
          v = MAKE_ROUND km second v
      in SIPHASH_POSTAMBLE km v b)"

definition siphash_3u64 :: "bool \<Rightarrow> u64 \<Rightarrow> u64 \<Rightarrow> u64 \<Rightarrow> siphash_key_t \<Rightarrow> u64" where
  "siphash_3u64 km first second third key =
     (let (v, b) = PREAMBLE 24 key;
          v = MAKE_ROUND km first v;
          v = MAKE_ROUND km second v;
          v = MAKE_ROUND km third v
      in SIPHASH_POSTAMBLE km v b)"

definition siphash_4u64 :: "bool \<Rightarrow> u64 \<Rightarrow> u64 \<Rightarrow> u64 \<Rightarrow> u64 \<Rightarrow> siphash_key_t \<Rightarrow> u64" where
  "siphash_4u64 km first second third forth key =
     (let (v, b) = PREAMBLE 32 key;
          v = MAKE_ROUND km first v;
          v = MAKE_ROUND km second v;
          v = MAKE_ROUND km third v;
          v = MAKE_ROUND km forth v
      in SIPHASH_POSTAMBLE km v b)"

primrec round_words :: "bool \<Rightarrow> packet \<Rightarrow> nat \<Rightarrow> nat list \<Rightarrow> sipvars \<Rightarrow> sipvars res" where
  "round_words km p data [] v = Ok v"
| "round_words km p data (i # is) v =
     bind_res (rd64 p (data + 8 * i)) (\<lambda>m. round_words km p data is (MAKE_ROUND km m v))"

definition siphash_16u64 :: "bool \<Rightarrow> packet \<Rightarrow> nat \<Rightarrow> siphash_key_t \<Rightarrow> u64 res" where
  "siphash_16u64 km p data key =
     (let (v, b) = PREAMBLE 128 key
      in bind_res (round_words km p data [0, 1, 2, 3, 4, 5, 6, 7, 8, 9, 10, 11, 12, 13, 14, 15] v)
           (\<lambda>v. Ok (SIPHASH_POSTAMBLE km v b)))"

definition siphash_1u32 :: "bool \<Rightarrow> u32 \<Rightarrow> siphash_key_t \<Rightarrow> u64" where
  "siphash_1u32 km first key =
     (let (v, b) = PREAMBLE 4 key;
          b = b OR ucast first
      in SIPHASH_POSTAMBLE km v b)"

definition siphash_3u32 :: "bool \<Rightarrow> u32 \<Rightarrow> u32 \<Rightarrow> u32 \<Rightarrow> siphash_key_t \<Rightarrow> u64" where
  "siphash_3u32 km first second third key =
     (let combined = push_bit 32 (ucast second) OR ucast first;
          (v, b) = PREAMBLE 12 key;
          v = MAKE_ROUND km combined v;
          b = b OR ucast third
      in SIPHASH_POSTAMBLE km v b)"

definition siphash_2u32 :: "bool \<Rightarrow> u32 \<Rightarrow> u32 \<Rightarrow> siphash_key_t \<Rightarrow> u64" where
  "siphash_2u32 km a b key = siphash_1u64 km (push_bit 32 (ucast b) OR ucast a) key"

definition siphash_4u32 :: "bool \<Rightarrow> u32 \<Rightarrow> u32 \<Rightarrow> u32 \<Rightarrow> u32 \<Rightarrow> siphash_key_t \<Rightarrow> u64" where
  "siphash_4u32 km a b c d key =
     siphash_2u64 km (push_bit 32 (ucast b) OR ucast a) (push_bit 32 (ucast d) OR ucast c) key"

text \<open>\<open>___siphash_aligned\<close> picks a fixed-size variant when the compiler knows the length:
  \<open>const_p\<close> is \<open>__builtin_constant_p (len)\<close>.\<close>

definition siphash_aligned_const ::
  "bool \<Rightarrow> bool \<Rightarrow> packet \<Rightarrow> nat \<Rightarrow> size_t \<Rightarrow> siphash_key_t \<Rightarrow> u64 res" where
  "siphash_aligned_const km const_p p data len key =
     (if const_p \<and> len = 4 then bind_res (rd32 p data) (\<lambda>a. Ok (siphash_1u32 km a key))
      else if const_p \<and> len = 8 then bind_res (rd64 p data) (\<lambda>a. Ok (siphash_1u64 km a key))
      else if const_p \<and> len = 16 then
        bind_res (rd64 p data) (\<lambda>a. bind_res (rd64 p (data + 8)) (\<lambda>b. Ok (siphash_2u64 km a b key)))
      else if const_p \<and> len = 24 then
        bind_res (rd64 p data) (\<lambda>a. bind_res (rd64 p (data + 8)) (\<lambda>b.
        bind_res (rd64 p (data + 16)) (\<lambda>c. Ok (siphash_3u64 km a b c key))))
      else if const_p \<and> len = 32 then
        bind_res (rd64 p data) (\<lambda>a. bind_res (rd64 p (data + 8)) (\<lambda>b.
        bind_res (rd64 p (data + 16)) (\<lambda>c. bind_res (rd64 p (data + 24)) (\<lambda>d.
        Ok (siphash_4u64 km a b c d key)))))
      else siphash_aligned km p data len key)"

text \<open>\<open>addr\<close> is the address of the data, of which only the alignment matters.\<close>

definition siphash ::
  "bool \<Rightarrow> bool \<Rightarrow> u64 \<Rightarrow> packet \<Rightarrow> nat \<Rightarrow> size_t \<Rightarrow> siphash_key_t \<Rightarrow> u64 res" where
  "siphash km const_p addr p data len key =
     (if addr AND (8 - 1) \<noteq> 0 then siphash_unaligned km p data len key
      else siphash_aligned_const km const_p p data len key)"

section \<open>Hashing in pieces\<close>

record siphash_iter_t =
  it_v0 :: u64
  it_v1 :: u64
  it_v2 :: u64
  it_v3 :: u64
  it_b :: u64
  residual :: "u8 list"
  residual_length :: u8

definition it_vars :: "siphash_iter_t \<Rightarrow> sipvars" where
  "it_vars iter = (it_v0 iter, it_v1 iter, it_v2 iter, it_v3 iter)"

fun set_it_vars :: "siphash_iter_t \<Rightarrow> sipvars \<Rightarrow> siphash_iter_t" where
  "set_it_vars iter (v0, v1, v2, v3) = iter\<lparr>it_v0 := v0, it_v1 := v1, it_v2 := v2, it_v3 := v3\<rparr>"

definition siphash_iter_start ::
  "siphash_iter_t \<Rightarrow> size_t \<Rightarrow> siphash_key_t \<Rightarrow> siphash_iter_t" where
  "siphash_iter_start iter len key =
     (let (v, b) = PREAMBLE len key
      in (set_it_vars iter v)\<lparr>it_b := b, residual_length := 0\<rparr>)"

definition siphash_iter_end :: "bool \<Rightarrow> siphash_iter_t \<Rightarrow> u64 res" where
  "siphash_iter_end km iter =
     (let left = residual_length iter;
          data = residual iter
      in bind_res (siphash_left (rd32 data) (rd16 data) data 0 left (it_b iter)) (\<lambda>b.
         Ok (SIPHASH_POSTAMBLE km (it_vars iter) b)))"

text \<open>\<open>for (i = 0; i < n; i++) r[dst + i] = data[i]\<close>.\<close>

primrec copy_loop :: "packet \<Rightarrow> nat \<Rightarrow> u8 list \<Rightarrow> nat \<Rightarrow> nat \<Rightarrow> u8 list res" where
  "copy_loop p data r dst 0 = Ok r"
| "copy_loop p data r dst (Suc n) =
     bind_res (copy_loop p data r dst n) (\<lambda>r. bind_res (rd8 p (data + n)) (\<lambda>x.
     if dst + n < length r then Ok (r[dst + n := x]) else Err OutOfBounds))"

text \<open>The whole words of the data and the bytes that stay behind.\<close>

definition iter_body ::
  "bool \<Rightarrow> siphash_iter_t \<Rightarrow> sipvars \<Rightarrow> packet \<Rightarrow> nat \<Rightarrow> size_t \<Rightarrow> siphash_iter_t res" where
  "iter_body km iter v p data len =
     (let end = data + unat len - unat (len mod 8);
          left = ucast (len AND (8 - 1)) :: u8
      in bind_res (siphash_loop km (rd64 p) data end v) (\<lambda>v.
         bind_res
           (if left \<noteq> 0 then
              bind_res (copy_loop p end (residual iter) 0 (unat left)) (\<lambda>r.
              Ok (iter\<lparr>residual := r, residual_length := left\<rparr>))
            else Ok iter) (\<lambda>iter.
         Ok (set_it_vars iter v))))"

definition siphash_iter :: "bool \<Rightarrow> siphash_iter_t \<Rightarrow> packet \<Rightarrow> nat \<Rightarrow> size_t \<Rightarrow> siphash_iter_t res" where
  "siphash_iter km iter p data len =
     (if residual_length iter \<noteq> 0 then
        let room = 8 - ucast (residual_length iter) :: size_t;
            clen = min len room
        in bind_res (copy_loop p data (residual iter) (unat (residual_length iter)) (unat clen)) (\<lambda>r.
           let iter = iter\<lparr>residual := r\<rparr>
           in if clen < room then Ok (iter\<lparr>residual_length := residual_length iter + ucast clen\<rparr>)
              else bind_res (rd64 r 0) (\<lambda>m.
                   iter_body km (iter\<lparr>residual_length := 0\<rparr>) (MAKE_ROUND km m (it_vars iter)) p
                     (data + unat clen) (len - clen)))
      else iter_body km iter (it_vars iter) p data len)"

section \<open>The register interface\<close>

text \<open>\<open>__siphash_start\<close> and \<open>__siphash_round\<close> work on an array of seven registers and return
  the hash or zero.\<close>

function siphash_start_loop :: "bool \<Rightarrow> u64 list \<Rightarrow> u64 \<Rightarrow> nat \<Rightarrow> sipvars \<Rightarrow> nat \<times> sipvars" where
  "siphash_start_loop km args len i v =
     (if i < 4 \<and> i < unat (len div 8)
      then siphash_start_loop km args len (i + 1) (MAKE_ROUND km (args ! i) v)
      else (i, v))"
  by pat_completeness auto
termination by (relation "measure (\<lambda>(km, args, len, i, v). 4 - i)") auto

declare siphash_start_loop.simps [simp del]

fun store_vars :: "u64 list \<Rightarrow> u64 \<Rightarrow> sipvars \<Rightarrow> u64 list" where
  "store_vars args b (v0, v1, v2, v3) = args[2 := b, 3 := v0, 4 := v1, 5 := v2, 6 := v3]"

definition siphash_start :: "bool \<Rightarrow> u64 list \<Rightarrow> u64 \<times> u64 list" where
  "siphash_start km args =
     (let len = args ! 4;
          (v, b) = PREAMBLE len \<lparr>key_0 = args ! 5, key_1 = args ! 6\<rparr>;
          (i, v) = siphash_start_loop km args len 0 v
      in if len \<le> 32 then
           let b = (if len AND 7 \<noteq> 0 then b OR args ! i else b)
           in (SIPHASH_POSTAMBLE km v b, args)
         else (0, store_vars args b v))"

definition siphash_round :: "bool \<Rightarrow> u64 list \<Rightarrow> bool \<Rightarrow> bool \<Rightarrow> bool \<Rightarrow> u64 \<times> u64 list" where
  "siphash_round km args one_arg is_end partial =
     (let b = args ! 2;
          v = (args ! 3, args ! 4, args ! 5, args ! 6)
      in if one_arg \<and> partial \<and> is_end then (SIPHASH_POSTAMBLE km v (b OR args ! 0), args)
         else
           let v = MAKE_ROUND km (args ! 0) v
           in if \<not> one_arg \<and> partial \<and> is_end then (SIPHASH_POSTAMBLE km v (b OR args ! 1), args)
              else
                let v = (if \<not> one_arg then MAKE_ROUND km (args ! 1) v else v)
                in if is_end then (SIPHASH_POSTAMBLE km v b, args)
                   else (0, store_vars args b v))"

section \<open>The published function\<close>

text \<open>SipHash-\<open>c\<close>-\<open>d\<close>: the message is padded with zeros and its length modulo 256 to a whole
  number of words; every word is absorbed with \<open>c\<close> rounds; \<open>d\<close> rounds finish.\<close>

fun sip_round :: "sipvars \<Rightarrow> sipvars" where
  "sip_round (v0, v1, v2, v3) =
     (let a0 = v0 + v1; a1 = word_rotl 13 v1 XOR a0; a2 = v2 + v3; a3 = word_rotl 16 v3 XOR a2;
          b0 = word_rotl 32 a0 + a3; b3 = word_rotl 21 a3 XOR b0;
          b2 = a2 + a1; b1 = word_rotl 17 a1 XOR b2
      in (b0, b1, word_rotl 32 b2, b3))"

definition sip_absorb :: "nat \<Rightarrow> u64 \<Rightarrow> sipvars \<Rightarrow> sipvars" where
  "sip_absorb c m v =
     (case v of (v0, v1, v2, v3) \<Rightarrow>
      case (sip_round ^^ c) (v0, v1, v2, v3 XOR m) of (w0, w1, w2, w3) \<Rightarrow> (w0 XOR m, w1, w2, w3))"

definition sip_init :: "siphash_key_t \<Rightarrow> sipvars" where
  "sip_init k = (0x736f6d6570736575 XOR key_0 k, 0x646f72616e646f6d XOR key_1 k,
                 0x6c7967656e657261 XOR key_0 k, 0x7465646279746573 XOR key_1 k)"

definition sip_final :: "nat \<Rightarrow> sipvars \<Rightarrow> u64" where
  "sip_final d v =
     (case v of (v0, v1, v2, v3) \<Rightarrow>
      case (sip_round ^^ d) (v0, v1, v2 XOR 0xff, v3) of (w0, w1, w2, w3) \<Rightarrow>
        w0 XOR w1 XOR w2 XOR w3)"

definition sip_pad :: "u8 list \<Rightarrow> u8 list" where
  "sip_pad bs = bs @ replicate (7 - length bs mod 8) 0 @ [of_nat (length bs)]"

definition sip_hash :: "nat \<Rightarrow> nat \<Rightarrow> siphash_key_t \<Rightarrow> u8 list \<Rightarrow> u64" where
  "sip_hash c d k bs =
     sip_final d (fold (sip_absorb c) (le_blocks 8 (length bs div 8 + 1) (sip_pad bs)) (sip_init k))"

section \<open>All variants compute the published function\<close>

definition sip_c :: "bool \<Rightarrow> nat" where "sip_c km = (if km then 2 else 1)"
definition sip_d :: "bool \<Rightarrow> nat" where "sip_d km = (if km then 4 else 2)"

lemma rol_rotl:
  assumes "0 < m" "m < 64" shows "push_bit m w OR drop_bit (64 - m) w = word_rotl m (w :: u64)"
proof (rule bit_word_eqI)
  fix n assume "n < LENGTH(64)"
  then have n: "n < 64" by simp
  have over: "\<not> bit w k" if "64 \<le> k" for k using that bit_imp_le_length [of w k] by auto
  show "bit (push_bit m w OR drop_bit (64 - m) w) n = bit (word_rotl m w) n"
  proof (cases "n < m")
    case True
    then have "(n + (64 - m)) mod 64 = 64 - m + n" using assms by simp
    with True n assms show ?thesis by (simp add: bit_or_iff bit_push_bit_iff bit_drop_bit_eq bit_word_rotl_iff)
  next
    case False
    then obtain k where k: "n = m + k" using le_Suc_ex not_less by blast
    have "(n + (64 - m)) mod 64 = k" using assms n k by simp
    then show ?thesis using n assms k over [of "64 - m + n"]
      by (simp add: bit_or_iff bit_push_bit_iff bit_drop_bit_eq bit_word_rotl_iff)
  qed
qed

lemma siphash_rol64_consts:
  "siphash_rol64 w 13 = word_rotl 13 w" "siphash_rol64 w 16 = word_rotl 16 w"
  "siphash_rol64 w 17 = word_rotl 17 w" "siphash_rol64 w 21 = word_rotl 21 w"
  "siphash_rol64 w 32 = word_rotl 32 w"
  using rol_rotl [of 13 w] rol_rotl [of 16 w] rol_rotl [of 17 w] rol_rotl [of 21 w] rol_rotl [of 32 w]
  by (simp_all add: siphash_rol64_def)

lemma SIPROUND_sip_round: "SIPHASH_SIPROUND v = sip_round v"
  by (cases v) (simp add: Let_def siphash_rol64_consts)

lemma MAKE_ROUND_absorb: "MAKE_ROUND km m v = sip_absorb (sip_c km) m v"
  by (cases v) (simp add: sip_absorb_def sip_c_def SIPROUND_sip_round Let_def numeral_2_eq_2
      split: prod.split del: sip_round.simps)

lemma funpow_four: "(f ^^ 4) x = f (f (f (f x)))"
  by (simp add: numeral_eq_Suc)

lemma POSTAMBLE_final:
  "SIPHASH_POSTAMBLE km v b = sip_final (sip_d km) (sip_absorb (sip_c km) b v)"
  by (cases v) (simp add: SIPHASH_POSTAMBLE_def sip_absorb_def sip_final_def sip_c_def sip_d_def SIPROUND_sip_round Let_def
      funpow_four numeral_2_eq_2 xor.assoc split: prod.split del: sip_round.simps)

lemma PREAMBLE_init: "PREAMBLE len key = (sip_init key, push_bit 56 len)"
  by (simp add: PREAMBLE_def sip_init_def Let_def)

lemmas sip_defs = MAKE_ROUND_absorb POSTAMBLE_final PREAMBLE_init

lemma siphash_loop_fold:
  assumes "\<And>off. off + 8 \<le> length p \<Longrightarrow> ld off = Ok (word_of_le (take 8 (drop off p)))"
    "data + 8 * n \<le> length p"
  shows "siphash_loop km ld data (data + 8 * n) v =
    Ok (fold (sip_absorb (sip_c km)) (le_blocks 8 n (drop data p)) v)"
  using assms(2)
proof (induction n arbitrary: data v)
  case (Suc n)
  have "siphash_loop km ld (data + 8) (data + (8 + 8 * n)) w =
      Ok (fold (sip_absorb (sip_c km)) (le_blocks 8 n (drop (data + 8) p)) w)" for w
    using Suc.prems Suc.IH [of "data + 8" w] by (simp add: add.assoc)
  then show ?case using Suc.prems
    by (subst siphash_loop.simps) (simp add: assms(1) MAKE_ROUND_absorb add.commute)
qed (simp add: siphash_loop.simps)

lemma ucast_word_of_le:
  assumes "8 * length bs \<le> LENGTH('a::len)" "LENGTH('a) \<le> LENGTH('b::len)"
  shows "ucast (word_of_le bs :: 'a word) = (word_of_le bs :: 'b word)"
proof (rule bit_word_eqI)
  fix n assume "n < LENGTH('b)"
  moreover have "n div 8 < length bs \<Longrightarrow> n < LENGTH('a)" using assms(1) by (simp add: div_less_iff_less_mult)
  ultimately show "bit (ucast (word_of_le bs :: 'a word) :: 'b word) n = bit (word_of_le bs :: 'b word) n"
    by (auto simp: bit_ucast_iff bit_word_of_le)
qed

lemma take_Suc_nth: "off + Suc n \<le> length p \<Longrightarrow> take (Suc n) (drop off p) = p ! off # take n (drop (Suc off) p)"
  by (metis Cons_nth_drop_Suc add_Suc_right add_Suc_shift le_add1 less_le_trans less_Suc_eq_le take_Suc_Cons)

lemma word_of_le_snoc:
  assumes "off + n < length p"
  shows "word_of_le (take (Suc n) (drop off p)) =
    word_of_le (take n (drop off p)) OR push_bit (8 * n) (ucast (p ! (off + n)))"
proof -
  have "take (Suc n) (drop off p) = take n (drop off p) @ [p ! (off + n)]"
    using assms by (simp add: take_Suc_conv_app_nth)
  moreover have "length (take n (drop off p)) = n" using assms by simp
  ultimately show ?thesis by (simp add: word_of_le_append)
qed

lemmas word_of_le_snocs = word_of_le_snoc [where n = 0, simplified] word_of_le_snoc [where n = 2, simplified]
  word_of_le_snoc [where n = 4, simplified] word_of_le_snoc [where n = 5, simplified] word_of_le_snoc [where n = 6, simplified]

lemma siphash_left_word:
  assumes ld: "\<And>off. off + 4 \<le> length p \<Longrightarrow> ld32 off = Ok (word_of_le (take 4 (drop off p)))"
    "\<And>off. off + 2 \<le> length p \<Longrightarrow> ld16 off = Ok (word_of_le (take 2 (drop off p)))"
    and fit: "end + unat left \<le> length p" and left: "unat left < 8"
  shows "siphash_left ld32 ld16 p end left b = Ok (b OR word_of_le (take (unat left) (drop end p)))"
proof -
  have u32: "ucast (word_of_le (take 4 (drop end p)) :: u32) = (word_of_le (take 4 (drop end p)) :: u64)"
    by (rule ucast_word_of_le) simp_all
  have u16: "ucast (word_of_le (take 2 (drop end p)) :: u16) = (word_of_le (take 2 (drop end p)) :: u64)"
    by (rule ucast_word_of_le) simp_all
  have "left \<in> {0, 1, 2, 3, 4, 5, 6, 7}"
  proof -
    have "unat left \<in> {0, 1, 2, 3, 4, 5, 6, 7}" using left by auto
    then show ?thesis by (auto simp: word_unat_eq_iff)
  qed
  moreover note word_simps = siphash_left_def or_byte_def ld u32 u16 rd8_word or.assoc or.left_commute or.commute
    word_of_le_snocs
  ultimately show ?thesis using fit
    by (elim insertE emptyE; hypsubst; simp add: word_simps)
qed

lemma get_unaligned_le16_word:
  "off + 2 \<le> length p \<Longrightarrow> get_unaligned_le16 p off = Ok (word_of_le (take 2 (drop off p)))"
  by (simp add: get_unaligned_le16_def rd8_word numeral_2_eq_2 word_of_le_snoc)

lemma get_unaligned_le32_word:
  assumes "off + 4 \<le> length p"
  shows "get_unaligned_le32 p off = Ok (word_of_le (take 4 (drop off p)))"
proof -
  have "word_of_le (take 4 (drop off p)) = (ucast (p ! off) OR push_bit 8 (ucast (p ! (off + 1)))
      OR push_bit 16 (ucast (p ! (off + 2))) OR push_bit 24 (ucast (p ! (off + 3))) :: u32)"
    using assms
    by (simp add: word_of_le_snocs word_of_le_snoc [where n = 3, simplified]
        word_of_le_snoc [where n = 1, simplified, folded numeral_2_eq_2] or.assoc)
  then show ?thesis using assms by (simp add: get_unaligned_le32_def rd8_word)
qed

lemma get_unaligned_le64_word:
  assumes "off + 8 \<le> length p"
  shows "get_unaligned_le64 p off = Ok (word_of_le (take 8 (drop off p)))"
proof -
  let ?lo = "take 4 (drop off p)" and ?hi = "take 4 (drop (off + 4) p)"
  have "take 8 (drop off p) = ?lo @ ?hi"
    using take_add [of 4 4 "drop off p"] by (simp add: add.commute)
  moreover have "length ?lo = 4" using assms by simp
  moreover have "ucast (word_of_le ?lo :: u32) = (word_of_le ?lo :: u64)" by (rule ucast_word_of_le) simp_all
  moreover have "ucast (word_of_le ?hi :: u32) = (word_of_le ?hi :: u64)" by (rule ucast_word_of_le) simp_all
  ultimately show ?thesis using assms
    by (simp add: get_unaligned_le64_def get_unaligned_le32_word word_of_le_append or.commute)
qed

section \<open>Padding\<close>

lemma push_bit_56_ucast: "push_bit 56 (ucast (ucast w :: u8)) = (push_bit 56 w :: u64)"
  by (rule bit_word_eqI) (auto simp: bit_push_bit_iff bit_ucast_iff)

lemma ucast_of_nat_u8: "ucast (of_nat n :: u64) = (of_nat n :: u8)"
  by (rule bit_word_eqI) (simp add: bit_simps)

lemma sip_pad_blocks:
  "le_blocks 8 (length bs div 8 + 1) (sip_pad bs) =
     le_blocks 8 (length bs div 8) bs @
       [push_bit 56 (of_nat (length bs)) OR word_of_le (drop (8 * (length bs div 8)) bs) :: u64]"
proof -
  let ?n = "length bs div 8" and ?r = "length bs mod 8"
  have len: "8 * ?n + ?r = length bs" by simp
  then have d: "drop (8 * ?n) (sip_pad bs) = drop (8 * ?n) bs @ replicate (7 - ?r) 0 @ [of_nat (length bs)]"
    by (simp add: sip_pad_def)
  have l: "length (drop (8 * ?n) bs) = ?r" using len by (simp add: minus_mult_div_eq_mod)
  have r: "?r < 8" by simp
  then have e: "8 * ?r + 8 * (7 - ?r) = 56" by simp
  have t: "take 8 (drop (8 * ?n) (sip_pad bs)) = drop (8 * ?n) bs @ replicate (7 - ?r) 0 @ [of_nat (length bs)]"
    unfolding d using l r by simp
  have "word_of_le (drop (8 * ?n) bs @ replicate (7 - ?r) 0 @ [of_nat (length bs)]) =
      (word_of_le (drop (8 * ?n) bs) OR
        push_bit (8 * ?r + 8 * (7 - ?r)) (ucast (of_nat (length bs) :: u8)) :: u64)"
    by (simp only: word_of_le_append l length_replicate push_bit_or word_of_le_zeros push_bit_push_bit
        word_of_le.simps push_bit_of_0 or.right_neutral or.left_neutral)
  also have "push_bit (8 * ?r + 8 * (7 - ?r)) (ucast (of_nat (length bs) :: u8)) = (push_bit 56 (of_nat (length bs)) :: u64)"
    using push_bit_56_ucast [of "of_nat (length bs)"] unfolding e ucast_of_nat_u8 .
  finally show ?thesis
    using le_blocks_append [of 8 ?n bs] len t
    by (simp add: le_blocks_Suc_last sip_pad_def or.commute del: le_blocks.simps)
qed

lemma sip_hash_words:
  "sip_hash c d k bs = sip_final d (sip_absorb c (push_bit 56 (of_nat (length bs)) OR
       word_of_le (drop (8 * (length bs div 8)) bs))
     (fold (sip_absorb c) (le_blocks 8 (length bs div 8) bs) (sip_init k)))"
  unfolding sip_hash_def sip_pad_blocks by simp

section \<open>Byte strings\<close>

lemma size_t_mod_8: "unat ((len :: size_t) mod 8) = unat len mod 8"
  by (simp add: unat_mod)

lemma size_t_and_7: "(len :: size_t) AND 7 = len mod 8"
proof -
  have "len AND 7 = take_bit 3 len" by (simp add: take_bit_eq_mask mask_eq_exp_minus_1)
  then show ?thesis by (simp add: take_bit_eq_mod)
qed

lemma left_bytes: "unat (ucast ((len :: size_t) AND 7) :: u8) = unat len mod 8"
  unfolding size_t_and_7
  by (simp add: size_t_mod_8 unsigned_ucast_eq take_bit_nat_eq_self less_trans [of _ 8])

lemma siphash_with_sip_hash:
  assumes ld: "\<And>off. off + 8 \<le> length p \<Longrightarrow> ld64 off = Ok (word_of_le (take 8 (drop off p)))"
    "\<And>off. off + 4 \<le> length p \<Longrightarrow> ld32 off = Ok (word_of_le (take 4 (drop off p)))"
    "\<And>off. off + 2 \<le> length p \<Longrightarrow> ld16 off = Ok (word_of_le (take 2 (drop off p)))"
    and fit: "data + unat len \<le> length p"
  shows "siphash_with ld64 ld32 ld16 km p data len key =
    Ok (sip_hash (sip_c km) (sip_d km) key (take (unat len) (drop data p)))"
proof -
  let ?n = "unat len div 8" and ?bs = "take (unat len) (drop data p)"
  have whole: "unat len = 8 * ?n + unat len mod 8" by simp
  then have e: "data + unat len - unat (len mod 8) = data + 8 * ?n" unfolding size_t_mod_8 by linarith
  have "data + 8 * ?n \<le> length p" using fit whole by linarith
  note loop = siphash_loop_fold [OF ld(1) this, where km = km]
  have "data + 8 * ?n + unat (ucast (len AND 7) :: u8) \<le> length p"
    using fit whole by (simp only: left_bytes)
  then have tail: "siphash_left ld32 ld16 p (data + 8 * ?n) (ucast (len AND 7)) b =
      Ok (b OR word_of_le (take (unat len mod 8) (drop (data + 8 * ?n) p)))" for b
    using siphash_left_word [of p ld32 ld16 "data + 8 * ?n" "ucast (len AND 7)" b] ld(2,3)
    by (simp add: left_bytes)
  have l: "length ?bs = unat len" using fit by simp
  have "le_blocks 8 ?n (drop data p) = le_blocks 8 ?n (?bs @ drop (unat len) (drop data p))"
    by (simp only: append_take_drop_id)
  also have "\<dots> = le_blocks 8 ?n ?bs" using whole l by (intro le_blocks_append) simp
  finally have blocks: "le_blocks 8 ?n (drop data p) = (le_blocks 8 ?n ?bs :: u64 list)" .
  have rest: "take (unat len mod 8) (drop (data + 8 * ?n) p) = drop (8 * ?n) ?bs"
    by (simp add: drop_take minus_mult_div_eq_mod add.commute)
  show ?thesis unfolding sip_hash_words l
    by (simp add: siphash_with_def e PREAMBLE_init loop tail POSTAMBLE_final blocks rest)
qed

theorem siphash_aligned_hash:
  "data + unat len \<le> length p \<Longrightarrow> siphash_aligned km p data len key =
     Ok (sip_hash (sip_c km) (sip_d km) key (take (unat len) (drop data p)))"
  unfolding siphash_aligned_def
  by (rule siphash_with_sip_hash) (simp_all add: rd64_word rd32_word rd16_word)

theorem siphash_unaligned_hash:
  "data + unat len \<le> length p \<Longrightarrow> siphash_unaligned km p data len key =
     Ok (sip_hash (sip_c km) (sip_d km) key (take (unat len) (drop data p)))"
  unfolding siphash_unaligned_def
  by (rule siphash_with_sip_hash)
     (simp_all add: get_unaligned_le64_word get_unaligned_le32_word get_unaligned_le16_word)

section \<open>Whole words\<close>

lemma le_blocks_of_words:
  "le_blocks 8 (length ws) (concat (map (bytes_le 8) ws) @ t) = (ws :: u64 list)"
  by (induction ws) (simp_all add: word_of_bytes_le)

lemma drop_words: "drop (8 * length ws) (concat (map (bytes_le 8) ws) @ t) = t"
  by (induction ws) simp_all

lemma length_words: "length (concat (map (bytes_le 8) ws)) = 8 * length ws"
  by (induction ws) simp_all

lemma sip_hash_of_words:
  assumes "length t < 8"
  shows "sip_hash c d k (concat (map (bytes_le 8) (ws :: u64 list)) @ t) =
    sip_final d (sip_absorb c (push_bit 56 (of_nat (8 * length ws + length t)) OR word_of_le t)
      (fold (sip_absorb c) ws (sip_init k)))"
proof -
  let ?bs = "concat (map (bytes_le 8) ws) @ t"
  have "length ?bs div 8 = length ws" using assms by (simp add: length_words)
  then show ?thesis
    unfolding sip_hash_words by (simp add: length_words le_blocks_of_words drop_words)
qed

lemma bytes_le_pair:
  "bytes_le 8 (push_bit 32 (ucast b) OR ucast (a :: u32) :: u64) = bytes_le 4 a @ bytes_le 4 (b :: u32)"
proof -
  have u: "word_of_le (bytes_le 4 x) = (ucast x :: u64)" for x :: u32
    using ucast_word_of_le [of "bytes_le 4 x", where 'a = 32 and 'b = 64] by (simp add: word_of_bytes_le)
  have "push_bit 32 (ucast b) OR ucast a = (word_of_le (bytes_le 4 a @ bytes_le 4 b) :: u64)"
    by (simp add: word_of_le_append u or.commute)
  then show ?thesis using bytes_of_word_of_le [of "bytes_le 4 a @ bytes_le 4 b", where 'a = 64] by simp
qed

lemma word_of_le_u32: "word_of_le (bytes_le 4 x) = (ucast (x :: u32) :: u64)"
  using ucast_word_of_le [of "bytes_le 4 x", where 'a = 32 and 'b = 64] by (simp add: word_of_bytes_le)

lemma siphash_words:
  "siphash_1u64 km a key = sip_hash (sip_c km) (sip_d km) key (bytes_le 8 a)"
  "siphash_2u64 km a b key = sip_hash (sip_c km) (sip_d km) key (bytes_le 8 a @ bytes_le 8 b)"
  "siphash_3u64 km a b c key =
     sip_hash (sip_c km) (sip_d km) key (bytes_le 8 a @ bytes_le 8 b @ bytes_le 8 c)"
  "siphash_4u64 km a b c d key =
     sip_hash (sip_c km) (sip_d km) key (bytes_le 8 a @ bytes_le 8 b @ bytes_le 8 c @ bytes_le 8 d)"
  "siphash_1u32 km x key = sip_hash (sip_c km) (sip_d km) key (bytes_le 4 x)"
  "siphash_2u32 km x y key = sip_hash (sip_c km) (sip_d km) key (bytes_le 4 x @ bytes_le 4 y)"
  "siphash_3u32 km x y z key =
     sip_hash (sip_c km) (sip_d km) key (bytes_le 4 x @ bytes_le 4 y @ bytes_le 4 z)"
  "siphash_4u32 km x y z w key =
     sip_hash (sip_c km) (sip_d km) key (bytes_le 4 x @ bytes_le 4 y @ bytes_le 4 z @ bytes_le 4 w)"
  using sip_hash_of_words [of "[]" "sip_c km" "sip_d km" key "[a]"]
    sip_hash_of_words [of "[]" "sip_c km" "sip_d km" key "[a, b]"]
    sip_hash_of_words [of "[]" "sip_c km" "sip_d km" key "[a, b, c]"]
    sip_hash_of_words [of "[]" "sip_c km" "sip_d km" key "[a, b, c, d]"]
    sip_hash_of_words [of "bytes_le 4 x" "sip_c km" "sip_d km" key "[]"]
    sip_hash_of_words [of "[]" "sip_c km" "sip_d km" key "[push_bit 32 (ucast y) OR ucast x]"]
    sip_hash_of_words [of "bytes_le 4 z" "sip_c km" "sip_d km" key "[push_bit 32 (ucast y) OR ucast x]"]
    sip_hash_of_words [of "[]" "sip_c km" "sip_d km" key
      "[push_bit 32 (ucast y) OR ucast x, push_bit 32 (ucast w) OR ucast z]"]
  by (simp_all add: siphash_1u64_def siphash_2u64_def siphash_3u64_def siphash_4u64_def siphash_1u32_def
      siphash_2u32_def siphash_3u32_def siphash_4u32_def sip_defs bytes_le_pair word_of_le_u32)

lemma bytes_le_load: "off + 8 \<le> length p \<Longrightarrow> bytes_le 8 (word_of_le (take 8 (drop off p)) :: u64) = take 8 (drop off p)"
  using bytes_of_word_of_le [of "take 8 (drop off p)", where 'a = 64] by simp

lemma bytes_le_load4: "off + 4 \<le> length p \<Longrightarrow> bytes_le 4 (word_of_le (take 4 (drop off p)) :: u32) = take 4 (drop off p)"
  using bytes_of_word_of_le [of "take 4 (drop off p)", where 'a = 32] by simp

lemma take_more: "take (m + n) (drop off p) = take m (drop off p) @ take n (drop (off + m) p)"
  by (simp add: take_add add.commute)

lemma siphash_aligned_const_hash:
  assumes "data + unat len \<le> length p"
  shows "siphash_aligned_const km const_p p data len key =
     Ok (sip_hash (sip_c km) (sip_d km) key (take (unat len) (drop data p)))"
proof -
  have 16: "take 16 (drop data p) = take 8 (drop data p) @ take 8 (drop (data + 8) p)"
    using take_more [of 8 8 data p] by simp
  have 24: "take 24 (drop data p) = take 16 (drop data p) @ take 8 (drop (data + 16) p)"
    using take_more [of 16 8 data p] by simp
  have 32: "take 32 (drop data p) = take 24 (drop data p) @ take 8 (drop (data + 24) p)"
    using take_more [of 24 8 data p] by simp
  show ?thesis
    using assms siphash_aligned_hash [OF assms]
    by (auto simp: siphash_aligned_const_def siphash_words le_simps bytes_le_load bytes_le_load4 16 24 32)
qed

theorem siphash_hash:
  "data + unat len \<le> length p \<Longrightarrow> siphash km const_p addr p data len key =
     Ok (sip_hash (sip_c km) (sip_d km) key (take (unat len) (drop data p)))"
  by (simp add: siphash_def siphash_unaligned_hash siphash_aligned_const_hash)

lemma round_words_fold:
  "\<forall>i\<in>set is. data + 8 * i + 8 \<le> length p \<Longrightarrow> round_words km p data is v =
     Ok (fold (sip_absorb (sip_c km)) (map (\<lambda>i. word_of_le (take 8 (drop (data + 8 * i) p))) is) v)"
  by (induction "is" arbitrary: v) (simp_all add: le_simps MAKE_ROUND_absorb)

lemma le_blocks_upt: "le_blocks k n bs = map (\<lambda>i. word_of_le (take k (drop (k * i) bs))) [0..<n]"
  by (induction n) (simp_all add: le_blocks_Suc_last del: le_blocks.simps(2))

theorem siphash_16u64_hash:
  assumes "data + 128 \<le> length p"
  shows "siphash_16u64 km p data key = Ok (sip_hash (sip_c km) (sip_d km) key (take 128 (drop data p)))"
proof -
  let ?bs = "take 128 (drop data p)"
  have i: "[0, 1, 2, 3, 4, 5, 6, 7, 8, 9, 10, 11, 12, 13, 14, 15] = [0..<16 :: nat]" by code_simp
  have "round_words km p data [0..<16] v = Ok (fold (sip_absorb (sip_c km)) (le_blocks 8 16 ?bs) v)" for v
  proof -
    have "round_words km p data [0..<16] v = Ok (fold (sip_absorb (sip_c km)) (le_blocks 8 16 (drop data p)) v)"
      using assms by (subst round_words_fold) (simp_all add: le_blocks_upt add.commute)
    also have "le_blocks 8 16 (drop data p) = (le_blocks 8 16 (?bs @ drop 128 (drop data p)) :: u64 list)"
      by (simp only: append_take_drop_id)
    also have "\<dots> = le_blocks 8 16 ?bs" using assms by (intro le_blocks_append) simp
    finally show ?thesis .
  qed
  moreover have l: "length ?bs = 128" using assms by simp
  ultimately show ?thesis
    unfolding sip_hash_words l siphash_16u64_def i by (simp add: PREAMBLE_init POSTAMBLE_final)
qed

section \<open>Messages in pieces\<close>

definition iter_read :: "bool \<Rightarrow> siphash_key_t \<Rightarrow> size_t \<Rightarrow> u8 list \<Rightarrow> siphash_iter_t \<Rightarrow> bool" where
  "iter_read km key len bs it \<longleftrightarrow>
     it_vars it = fold (sip_absorb (sip_c km)) (le_blocks 8 (length bs div 8) bs) (sip_init key) \<and>
     it_b it = push_bit 56 len \<and> length (residual it) = 8 \<and>
     unat (residual_length it) = length bs mod 8 \<and>
     take (length bs mod 8) (residual it) = drop (8 * (length bs div 8)) bs"

lemma set_it_vars_simps [simp]:
  "it_vars (set_it_vars it v) = v" "it_b (set_it_vars it v) = it_b it"
  "residual (set_it_vars it v) = residual it" "residual_length (set_it_vars it v) = residual_length it"
  by (cases v; simp add: it_vars_def)+

lemma it_vars_upd [simp]:
  "it_vars (it\<lparr>residual := r\<rparr>) = it_vars it" "it_vars (it\<lparr>residual_length := n\<rparr>) = it_vars it"
  "it_vars (it\<lparr>it_b := b\<rparr>) = it_vars it"
  by (simp_all add: it_vars_def)

lemma copy_loop_Ok:
  "data + n \<le> length p \<Longrightarrow> dst + n \<le> length r \<Longrightarrow>
     copy_loop p data r dst n = Ok (take dst r @ take n (drop data p) @ drop (dst + n) r)"
proof (induction n)
  case (Suc n)
  let ?r = "take dst r @ take n (drop data p) @ drop (dst + n) r"
  have "drop (dst + n) r = r ! (dst + n) # drop (dst + Suc n) r"
    using Suc.prems by (simp add: Cons_nth_drop_Suc)
  moreover have "length (take dst r @ take n (drop data p)) = dst + n" using Suc.prems by simp
  ultimately have "?r[dst + n := p ! (data + n)] =
      (take dst r @ take n (drop data p)) @ p ! (data + n) # drop (dst + Suc n) r"
    by (metis append_assoc list_update_length)
  also have "\<dots> = take dst r @ take (Suc n) (drop data p) @ drop (dst + Suc n) r"
    using Suc.prems by (simp add: take_Suc_conv_app_nth)
  finally show ?case using Suc by (simp add: rd8_word)
qed simp

lemma iter_start_read:
  "length (residual it) = 8 \<Longrightarrow> iter_read km key len [] (siphash_iter_start it len key)"
  by (simp add: iter_read_def siphash_iter_start_def PREAMBLE_init)

lemma blocks_of_append:
  assumes "length bs mod 8 = 0"
  shows "le_blocks 8 (length (bs @ c) div 8) (bs @ c) =
      le_blocks 8 (length bs div 8) bs @ le_blocks 8 (length c div 8) c"
    "drop (8 * (length (bs @ c) div 8)) (bs @ c) = drop (8 * (length c div 8)) c"
    "length (bs @ c) mod 8 = length c mod 8"
proof -
  obtain n where n: "length bs = 8 * n" using assms by (meson dvdE mod_eq_0_iff_dvd)
  then have d: "length (bs @ c) div 8 = n + length c div 8" by simp
  show "le_blocks 8 (length (bs @ c) div 8) (bs @ c) =
      le_blocks 8 (length bs div 8) bs @ le_blocks 8 (length c div 8) c"
    unfolding d le_blocks_add using n by (simp add: le_blocks_append)
  show "drop (8 * (length (bs @ c) div 8)) (bs @ c) = drop (8 * (length c div 8)) c"
    unfolding d using n by (simp add: distrib_left)
  show "length (bs @ c) mod 8 = length c mod 8" using n by simp
qed

lemma iter_body_read:
  assumes bs: "length bs mod 8 = 0"
    and v: "v = fold (sip_absorb (sip_c km)) (le_blocks 8 (length bs div 8) bs) (sip_init key)"
    and it: "it_b it = push_bit 56 tlen" "length (residual it) = 8" "residual_length it = 0"
    and fit: "data + unat len \<le> length p"
  shows "wp (iter_read km key tlen (bs @ take (unat len) (drop data p))) (iter_body km it v p data len)"
proof -
  let ?n = "unat len div 8" and ?c = "take (unat len) (drop data p)" and ?m = "unat len mod 8"
  have whole: "unat len = 8 * ?n + ?m" by simp
  then have e: "data + unat len - unat (len mod 8) = data + 8 * ?n" unfolding size_t_mod_8 by linarith
  have "data + 8 * ?n \<le> length p" using fit whole by linarith
  note loop = siphash_loop_fold [where ld = "rd64 p", OF rd64_word this, where km = km]
  have l: "length ?c = unat len" using fit by simp
  have "le_blocks 8 ?n (drop data p) = (le_blocks 8 ?n (?c @ drop (unat len) (drop data p)) :: u64 list)"
    by (simp only: append_take_drop_id)
  also have "\<dots> = le_blocks 8 ?n ?c" using whole l by (intro le_blocks_append) simp
  finally have blocks: "le_blocks 8 ?n (drop data p) = (le_blocks 8 ?n ?c :: u64 list)" .
  have rest: "take ?m (drop (data + 8 * ?n) p) = drop (8 * ?n) ?c"
    by (simp add: drop_take minus_mult_div_eq_mod add.commute)
  have m: "?m < 8" "data + 8 * ?n + ?m \<le> length p" using fit whole by (simp, linarith)
  have copy: "copy_loop p (data + 8 * ?n) (residual it) 0 ?m = Ok (drop (8 * ?n) ?c @ drop ?m (residual it))"
    using m it(2) by (subst copy_loop_Ok) (simp_all add: rest)
  have z: "ucast (len AND 7) = (0 :: u8) \<longleftrightarrow> ?m = 0"
    using left_bytes [of len] by (metis unat_eq_zero)
  have lr: "length (drop (8 * ?n) ?c) = ?m" using l by (simp add: minus_mult_div_eq_mod)
  note b = blocks_of_append [OF bs, of ?c, unfolded l]
  show ?thesis
    unfolding iter_body_def iter_read_def e Let_def b
    using it z lr by (simp add: loop blocks v left_bytes copy)
qed

text \<open>A piece that completes the residual word.\<close>

lemma residual_full:
  assumes "iter_read km key tlen bs it" "length c = 8 - length bs mod 8"
  shows "sip_absorb (sip_c km) (word_of_le (take (length bs mod 8) (residual it) @ c)) (it_vars it) =
      fold (sip_absorb (sip_c km)) (le_blocks 8 (length (bs @ c) div 8) (bs @ c)) (sip_init key)"
    "length (bs @ c) mod 8 = 0"
proof -
  let ?n = "length bs div 8" and ?m = "length bs mod 8"
  have w: "8 * ?n + ?m = length bs" and m: "?m < 8" by simp_all
  then have len: "length (bs @ c) = 8 * Suc ?n"
    using assms(2) unfolding length_append mult_Suc_right by linarith
  then show "length (bs @ c) mod 8 = 0" by simp
  have l: "length (drop (8 * ?n) bs) = ?m" using w by (simp add: minus_mult_div_eq_mod)
  then have "take 8 (drop (8 * ?n) (bs @ c)) = drop (8 * ?n) bs @ c" using assms(2) w by simp
  moreover have "le_blocks 8 ?n (bs @ c) = (le_blocks 8 ?n bs :: u64 list)" using w by (intro le_blocks_append) simp
  moreover have "length (bs @ c) div 8 = Suc ?n" using len by simp
  ultimately show "sip_absorb (sip_c km) (word_of_le (take (length bs mod 8) (residual it) @ c)) (it_vars it) =
      fold (sip_absorb (sip_c km)) (le_blocks 8 (length (bs @ c) div 8) (bs @ c)) (sip_init key)"
    using assms(1) by (simp add: le_blocks_Suc_last iter_read_def del: le_blocks.simps(2))
qed

text \<open>A piece that leaves the residual word incomplete.\<close>

lemma residual_short:
  assumes "iter_read km key tlen bs it" "length bs mod 8 + length c < 8" "length r = 8"
    "take (length bs mod 8 + length c) r = take (length bs mod 8) (residual it) @ c"
    "unat n = length bs mod 8 + length c"
  shows "iter_read km key tlen (bs @ c) (it\<lparr>residual := r, residual_length := n\<rparr>)"
proof -
  let ?n = "length bs div 8" and ?m = "length bs mod 8"
  have w: "8 * ?n + ?m = length bs" by simp
  then have e: "length (bs @ c) = (?m + length c) + 8 * ?n" unfolding length_append by linarith
  have d: "length (bs @ c) div 8 = ?n" "length (bs @ c) mod 8 = ?m + length c"
    unfolding e div_mult_self2 [OF numeral_neq_zero] mod_mult_self2 using assms(2) by simp_all
  have "le_blocks 8 ?n (bs @ c) = (le_blocks 8 ?n bs :: u64 list)" using w by (intro le_blocks_append) simp
  then show ?thesis using assms w unfolding iter_read_def d by simp
qed

lemma siphash_iter_read:
  assumes R: "iter_read km key tlen bs it" and fit: "data + unat len \<le> length p"
  shows "wp (iter_read km key tlen (bs @ take (unat len) (drop data p))) (siphash_iter km it p data len)"
proof (cases "residual_length it = 0")
  case True
  then have "length bs mod 8 = 0" using R by (simp add: iter_read_def)
  with R True fit show ?thesis by (simp add: siphash_iter_def iter_body_read iter_read_def)
next
  case False
  let ?m = "length bs mod 8" and ?room = "8 - ucast (residual_length it) :: size_t"
  define clen where "clen = min len ?room"
  have m: "unat (residual_length it) = ?m" using R by (simp add: iter_read_def)
  have room: "unat ?room = 8 - ?m"
    using m by (subst unat_sub) (simp_all add: word_le_nat_alt less_imp_le)
  have cl: "unat clen = min (unat len) (8 - ?m)"
    unfolding clen_def room [symmetric] by (simp add: min_def word_le_nat_alt)
  let ?c = "take (unat clen) (drop data p)"
  let ?r = "take ?m (residual it) @ ?c @ drop (?m + unat clen) (residual it)"
  have lc: "length ?c = unat clen" using fit cl by simp
  have r8: "length (residual it) = 8" using R by (simp add: iter_read_def)
  have copy: "copy_loop p data (residual it) (unat (residual_length it)) (unat clen) = Ok ?r"
    unfolding m using r8 fit cl by (intro copy_loop_Ok) auto
  show ?thesis
  proof (cases "clen < ?room")
    case True
    then have c: "unat clen = unat len" "?m + unat clen < 8"
      using cl room by (auto simp: word_less_nat_alt)
    have lens: "?m + length ?c < 8" "length ?r = 8" "take (?m + length ?c) ?r = take ?m (residual it) @ ?c"
      using c lc r8 by simp_all
    have u: "unat (residual_length it + ucast clen) = ?m + length ?c"
    proof -
      have s: "unat clen < 2 ^ 8" using c by simp
      have "unat (ucast clen :: u8) = unat clen"
        using s by (simp add: unsigned_ucast_eq take_bit_nat_eq_self)
      then show ?thesis using m lc c(2) unat_add_lem [of "residual_length it" "ucast clen"] by simp
    qed
    from residual_short [OF R lens u] show ?thesis
      using False True copy c(1) by (simp add: siphash_iter_def Let_def clen_def)
  next
    case F: False
    then have c: "unat clen = 8 - ?m" "clen \<le> len" using cl room by (auto simp: word_less_nat_alt clen_def)
    then have l: "length ?c = 8 - ?m" using lc by simp
    have m8: "?m < 8" by simp
    have "?r = take ?m (residual it) @ ?c" using c r8 m8 by simp
    moreover have "length (take ?m (residual it) @ ?c) = 8" using l r8 m8 by simp
    ultimately have r: "length ?r = 8" and rc: "take 8 (drop 0 ?r) = take ?m (residual it) @ ?c"
      by (metis, metis drop_0 order_refl take_all)
    have rd: "rd64 ?r 0 = Ok (word_of_le (take ?m (residual it) @ ?c))"
      unfolding rc [symmetric] using r by (intro rd64_word) simp
    have ul: "unat len = unat clen + unat (len - clen)" using c(2) by (simp add: unat_sub word_le_nat_alt)
    then have cat: "take (unat len) (drop data p) = ?c @ take (unat (len - clen)) (drop (data + unat clen) p)"
      using take_more [of "unat clen" "unat (len - clen)" data p] by simp
    have "wp (iter_read km key tlen ((bs @ ?c) @ take (unat (len - clen)) (drop (data + unat clen) p)))
        (iter_body km (it\<lparr>residual := ?r, residual_length := 0\<rparr>)
          (MAKE_ROUND km (word_of_le (take ?m (residual it) @ ?c)) (it_vars it)) p (data + unat clen) (len - clen))"
      unfolding MAKE_ROUND_absorb
    proof (rule iter_body_read [OF residual_full(2,1) [OF R l]])
      show "it_b (it\<lparr>residual := ?r, residual_length := 0\<rparr>) = push_bit 56 tlen"
        using R by (simp add: iter_read_def)
      show "length (residual (it\<lparr>residual := ?r, residual_length := 0\<rparr>)) = 8" using r by simp
      show "data + unat clen + unat (len - clen) \<le> length p" using fit ul by simp
    qed simp
    then show ?thesis using False F copy rd unfolding cat by (simp add: siphash_iter_def Let_def clen_def)
  qed
qed

lemma iter_end_hash:
  assumes R: "iter_read km key (of_nat (length bs)) bs it"
  shows "siphash_iter_end km it = Ok (sip_hash (sip_c km) (sip_d km) key bs)"
proof -
  let ?m = "length bs mod 8"
  have "siphash_left (rd32 (residual it)) (rd16 (residual it)) (residual it) 0 (residual_length it) (it_b it) =
      Ok (it_b it OR word_of_le (take ?m (residual it)))"
    using R siphash_left_word [of "residual it" "rd32 (residual it)" "rd16 (residual it)" 0]
    by (simp add: iter_read_def le_simps)
  then show ?thesis using R by (simp add: siphash_iter_end_def iter_read_def POSTAMBLE_final sip_hash_words)
qed

definition iter_update :: "bool \<Rightarrow> siphash_iter_t \<Rightarrow> u8 list \<Rightarrow> siphash_iter_t res" where
  "iter_update km it c = siphash_iter km it c 0 (of_nat (length c))"

interpretation sip: digest "iter_read km key tlen" "iter_update km" "siphash_iter_end km"
  "\<lambda>bs. of_nat (length bs) = tlen" "sip_hash (sip_c km) (sip_d km) key"
  for km :: bool and key :: siphash_key_t and tlen :: size_t
proof unfold_locales
  fix bs s and c :: "u8 list"
  assume R: "iter_read km key tlen bs s" and c: "length c < 2 ^ 64"
  then have "unat (of_nat (length c) :: size_t) = length c" by (intro unat_of_nat_lt) simp
  then show "wp (iter_read km key tlen (bs @ c)) (iter_update km s c)"
    using siphash_iter_read [OF R, of 0 "of_nat (length c)" c] by (simp add: iter_update_def)
qed (auto intro: iter_end_hash)

section \<open>Registers\<close>

lemma start_loop_fold:
  "i \<le> 4 \<Longrightarrow> siphash_start_loop km args len i v =
     (max i (min 4 (unat len div 8)),
      fold (sip_absorb (sip_c km)) (map ((!) args) [i..<min 4 (unat len div 8)]) v)"
proof (induction km args len i v rule: siphash_start_loop.induct)
  case (1 km args len i v)
  have u: "unat (len div 8) = unat len div 8" by (simp add: unat_div)
  show ?case
  proof (cases "i < 4 \<and> i < unat len div 8")
    case True
    then have "[i..<min 4 (unat len div 8)] = i # [Suc i..<min 4 (unat len div 8)]"
      by (intro upt_conv_Cons) simp
    with True 1 u show ?thesis by (subst siphash_start_loop.simps) (auto simp: MAKE_ROUND_absorb)
  next
    case False
    then show ?thesis using 1(2) u by (subst siphash_start_loop.simps) auto
  qed
qed

text \<open>The registers hold the words of the message, the last one padded with zeros.\<close>

definition reg_words :: "u8 list \<Rightarrow> u64 list" where
  "reg_words bs = le_blocks 8 ((length bs + 7) div 8) bs"

lemma length_le_blocks [simp]: "length (le_blocks k n bs) = n"
  by (induction n arbitrary: bs) simp_all

lemma div_up_8: "n mod 8 \<noteq> 0 \<Longrightarrow> (n + 7) div 8 = Suc (n div 8)"
proof -
  assume "n mod 8 \<noteq> 0"
  moreover have "n = 8 * (n div 8) + n mod 8" "n mod 8 < 8" by simp_all
  ultimately show ?thesis by (intro div_nat_eqI; unfold mult_Suc_right; linarith)
qed

lemma siphash_start_hash:
  assumes len: "length bs \<le> 32" and args: "length args = 7"
    "\<And>i. i < length (reg_words bs) \<Longrightarrow> args ! i = reg_words bs ! i" "args ! 4 = of_nat (length bs)"
    "key = \<lparr>key_0 = args ! 5, key_1 = args ! 6\<rparr>"
  shows "siphash_start km args = (sip_hash (sip_c km) (sip_d km) key bs, args)"
proof -
  let ?n = "length bs div 8" and ?m = "length bs mod 8"
  have u: "unat (of_nat (length bs) :: u64) = length bs" using len by (intro unat_of_nat_lt) simp
  then have le: "(of_nat (length bs) :: u64) \<le> 32" using len by (simp add: word_le_nat_alt)
  have n4: "min 4 ?n = ?n" using len by simp
  have nth: "reg_words bs ! i = word_of_le (take 8 (drop (8 * i) bs))" if "i < length (reg_words bs)" for i
    using that by (simp add: reg_words_def le_blocks_upt)
  have lw: "?n \<le> length (reg_words bs)" by (simp add: reg_words_def div_le_mono)
  then have "map ((!) args) [0..<?n] = le_blocks 8 ?n bs"
    by (simp add: le_blocks_upt args(2) nth)
  then have loop: "siphash_start_loop km args (of_nat (length bs)) 0 v =
      (?n, fold (sip_absorb (sip_c km)) (le_blocks 8 ?n bs) v)" for v
    by (subst start_loop_fold) (simp_all add: u n4)
  have z: "(of_nat (length bs) :: u64) AND 7 = 0 \<longleftrightarrow> ?m = 0"
    unfolding size_t_and_7 by (metis size_t_mod_8 u unat_eq_zero)
  have "args ! ?n = word_of_le (drop (8 * ?n) bs)" if "?m \<noteq> 0"
  proof -
    have "?n < length (reg_words bs)" using that by (simp add: reg_words_def div_up_8)
    then show ?thesis using args(2) nth by (simp add: minus_mult_div_eq_mod)
  qed
  moreover have "drop (8 * ?n) bs = []" if "?m = 0" using that by (simp add: minus_mod_eq_mult_div [symmetric])
  ultimately show ?thesis
    by (cases "?m = 0")
       (simp_all add: siphash_start_def args(3,4) PREAMBLE_init loop le z POSTAMBLE_final sip_hash_words Let_def)
qed

text \<open>Longer messages: the registers after the words \<open>ws\<close>, and the calls that feed the rest
  two words at a time.\<close>

definition regs_read :: "bool \<Rightarrow> siphash_key_t \<Rightarrow> u64 \<Rightarrow> u64 list \<Rightarrow> u64 list \<Rightarrow> bool" where
  "regs_read km key len ws args \<longleftrightarrow> length args = 7 \<and> args ! 2 = push_bit 56 len \<and>
     (args ! 3, args ! 4, args ! 5, args ! 6) = fold (sip_absorb (sip_c km)) ws (sip_init key)"

fun reg_rounds :: "bool \<Rightarrow> u64 list \<Rightarrow> bool \<Rightarrow> u64 list \<Rightarrow> u64" where
  "reg_rounds km args partial [] = 0"
| "reg_rounds km args partial [x] = fst (siphash_round km (args[0 := x]) True True partial)"
| "reg_rounds km args partial [x, y] = fst (siphash_round km (args[0 := x, 1 := y]) False True partial)"
| "reg_rounds km args partial (x # y # z # ws) =
     reg_rounds km (snd (siphash_round km (args[0 := x, 1 := y]) False False partial)) partial (z # ws)"

lemma store_vars_read:
  assumes "length args = 7" shows "regs_read km key len ws (store_vars args (push_bit 56 len)
    (fold (sip_absorb (sip_c km)) ws (sip_init key)))"
  using assms by (cases "fold (sip_absorb (sip_c km)) ws (sip_init key)") (simp add: regs_read_def)

lemma regs_read_vars:
  assumes "regs_read km key len ws args"
  shows "(args ! 3, args ! 4, args ! 5, args ! 6) = fold (sip_absorb (sip_c km)) ws (sip_init key)"
    "args ! 2 = push_bit 56 len" "length args = 7"
  using assms by (simp_all add: regs_read_def)

lemma siphash_round_more:
  assumes "regs_read km key len ws args"
  shows "regs_read km key len (ws @ [x, y]) (snd (siphash_round km (args[0 := x, 1 := y]) False False partial))"
  using store_vars_read [of "args[0 := x, 1 := y]" km key len "ws @ [x, y]"] regs_read_vars [OF assms]
  by (simp add: siphash_round_def MAKE_ROUND_absorb)

text \<open>The last word of the message, or the last before the length is all there is to add.\<close>

definition reg_final :: "bool \<Rightarrow> siphash_key_t \<Rightarrow> u64 \<Rightarrow> bool \<Rightarrow> u64 list \<Rightarrow> u64" where
  "reg_final km key len partial ws =
     (let whole = (if partial then butlast ws else ws);
          b = (if partial then push_bit 56 len OR last ws else push_bit 56 len)
      in sip_final (sip_d km) (sip_absorb (sip_c km) b (fold (sip_absorb (sip_c km)) whole (sip_init key))))"

lemma reg_rounds_final:
  "ws \<noteq> [] \<Longrightarrow> regs_read km key len us args \<Longrightarrow>
     reg_rounds km args partial ws = reg_final km key len partial (us @ ws)"
proof (induction km args partial ws arbitrary: us rule: reg_rounds.induct)
  case (2 km args partial x)
  then show ?case using regs_read_vars [OF 2(2)]
    by (simp add: siphash_round_def reg_final_def MAKE_ROUND_absorb POSTAMBLE_final butlast_append)
next
  case (3 km args partial x y)
  then show ?case using regs_read_vars [OF 3(2)]
    by (simp add: siphash_round_def reg_final_def MAKE_ROUND_absorb POSTAMBLE_final butlast_append)
next
  case (4 km args partial x y z ws)
  then show ?case using siphash_round_more [OF 4(3), of x y partial] 4(1) [of "us @ [x, y]"] by simp
qed simp

lemma reg_final_hash:
  assumes "bs \<noteq> []"
  shows "reg_final km key (of_nat (length bs)) (length bs mod 8 \<noteq> 0) (reg_words bs) =
    sip_hash (sip_c km) (sip_d km) key bs"
proof (cases "length bs mod 8 = 0")
  case True
  then obtain n where n: "length bs = 8 * n" by (meson dvdE mod_eq_0_iff_dvd)
  then show ?thesis by (simp add: reg_final_def reg_words_def sip_hash_words)
next
  case False
  then have "(length bs + 7) div 8 = Suc (length bs div 8)" by (rule div_up_8)
  then have "reg_words bs = le_blocks 8 (length bs div 8) bs @ [word_of_le (drop (8 * (length bs div 8)) bs)]"
    by (simp add: reg_words_def le_blocks_Suc_last minus_mult_div_eq_mod del: le_blocks.simps(2))
  with False show ?thesis by (simp add: reg_final_def sip_hash_words)
qed

lemma siphash_chain_hash:
  assumes len: "32 < length bs" "length bs < 2 ^ 64" and args: "length args = 7"
    "\<And>i. i < 4 \<Longrightarrow> args ! i = reg_words bs ! i" "args ! 4 = of_nat (length bs)"
    "key = \<lparr>key_0 = args ! 5, key_1 = args ! 6\<rparr>"
  shows "reg_rounds km (snd (siphash_start km args)) (length bs mod 8 \<noteq> 0) (drop 4 (reg_words bs)) =
    sip_hash (sip_c km) (sip_d km) key bs"
proof -
  have u: "unat (of_nat (length bs) :: u64) = length bs" using len by (intro unat_of_nat_lt) simp
  then have gt: "\<not> (of_nat (length bs) :: u64) \<le> 32" using len by (simp add: word_le_nat_alt)
  have l: "4 < length (reg_words bs)" using len by (simp add: reg_words_def)
  have n4: "min 4 (length bs div 8) = 4" using len by simp
  have "map ((!) args) [0..<4] = take 4 (reg_words bs)"
    using args(2) l by (intro nth_equalityI) simp_all
  then have "regs_read km key (of_nat (length bs)) (take 4 (reg_words bs)) (snd (siphash_start km args))"
    using store_vars_read [of args km key "of_nat (length bs)" "take 4 (reg_words bs)"] args(1)
    by (simp add: siphash_start_def start_loop_fold u gt n4 args(3,4) PREAMBLE_init del: store_vars.simps)
  moreover have "bs \<noteq> []" using len by auto
  ultimately show ?thesis
    using l reg_rounds_final [of "drop 4 (reg_words bs)"] reg_final_hash [of bs km key] by simp
qed

section \<open>Properties\<close>

primrec siphash_iter_all :: "bool \<Rightarrow> siphash_iter_t \<Rightarrow> u8 list list \<Rightarrow> siphash_iter_t res" where
  "siphash_iter_all km it [] = Ok it"
| "siphash_iter_all km it (c # cs) =
     bind_res (siphash_iter km it c 0 (of_nat (length c))) (\<lambda>it. siphash_iter_all km it cs)"

lemma siphash_iter_all_pieces: "siphash_iter_all km it cs = sip.update_all km it cs"
  by (induction cs arbitrary: it) (simp_all add: iter_update_def)

text \<open>The key and the message of the published test vectors: the bytes 0, 1, 2 and so on.\<close>

definition test_key :: siphash_key_t where
  "test_key = \<lparr>key_0 = 0x0706050403020100, key_1 = 0x0f0e0d0c0b0a0908\<rparr>"

definition test_message :: "nat \<Rightarrow> u8 list" where
  "test_message n = map of_nat [0..<n]"

lemma length_test_message [simp]: "length (test_message n) = n"
  by (simp add: test_message_def)

text \<open>C6: \<open>siphash\<close> computes SipHash of the bytes it is given, whatever their alignment and
  whether or not the compiler knows the length, and reads no other byte. With the kernel method it
  is SipHash-2-4, without it SipHash-1-2.\<close>

theorem siphash_value:
  assumes "data + unat len \<le> length p"
  shows "siphash km const_p addr p data len key =
    Ok (if km then sip_hash 2 4 key (take (unat len) (drop data p))
        else sip_hash 1 2 key (take (unat len) (drop data p)))"
  using siphash_hash [OF assms] by (simp add: sip_c_def sip_d_def)

theorem siphash_value_witness:
  "siphash True True 0x1001 (test_message 20) 1 16 test_key = Ok (sip_hash 2 4 test_key (take 16 (drop 1 (test_message 20))))"
  using siphash_value [of 1 16 "test_message 20" True True "0x1001" test_key] by simp

text \<open>C21: the functions for a fixed number of words are SipHash of the bytes of these words.\<close>

theorem siphash_fixed_words:
  "siphash_1u64 km a key = sip_hash (sip_c km) (sip_d km) key (bytes_le 8 a) \<and>
   siphash_2u64 km a b key = sip_hash (sip_c km) (sip_d km) key (bytes_le 8 a @ bytes_le 8 b) \<and>
   siphash_3u64 km a b c key =
     sip_hash (sip_c km) (sip_d km) key (bytes_le 8 a @ bytes_le 8 b @ bytes_le 8 c) \<and>
   siphash_4u64 km a b c d key =
     sip_hash (sip_c km) (sip_d km) key (bytes_le 8 a @ bytes_le 8 b @ bytes_le 8 c @ bytes_le 8 d) \<and>
   siphash_1u32 km x key = sip_hash (sip_c km) (sip_d km) key (bytes_le 4 x) \<and>
   siphash_2u32 km x y key = sip_hash (sip_c km) (sip_d km) key (bytes_le 4 x @ bytes_le 4 y) \<and>
   siphash_3u32 km x y z key =
     sip_hash (sip_c km) (sip_d km) key (bytes_le 4 x @ bytes_le 4 y @ bytes_le 4 z) \<and>
   siphash_4u32 km x y z w key =
     sip_hash (sip_c km) (sip_d km) key (bytes_le 4 x @ bytes_le 4 y @ bytes_le 4 z @ bytes_le 4 w)"
  by (intro conjI siphash_words)

text \<open>C7: a message hashed in pieces has the hash of the whole message: after
  \<open>siphash_iter_start\<close> with the total length, any sequence of pieces given to \<open>siphash_iter\<close>,
  empty ones and ones that straddle words included, ends with the hash of their concatenation,
  and nothing outside the pieces and the residual array is accessed.\<close>

theorem siphash_in_pieces:
  assumes "length (residual it) = 8" and "\<forall>c\<in>set cs. length c < 2 ^ 64"
  shows "bind_res (siphash_iter_all km (siphash_iter_start it (of_nat (length (concat cs))) key) cs)
      (siphash_iter_end km) = Ok (sip_hash (sip_c km) (sip_d km) key (concat cs))"
  unfolding siphash_iter_all_pieces
  using sip.pieces [OF iter_start_read [OF assms(1)] assms(2)] by simp

theorem siphash_in_pieces_witness:
  "bind_res (siphash_iter_all False (siphash_iter_start \<lparr>it_v0 = 0, it_v1 = 0, it_v2 = 0, it_v3 = 0, it_b = 0,
        residual = replicate 8 0, residual_length = 3\<rparr> (of_nat (length (concat [[1, 2, 3], [], test_message 11 :: u8 list, [7]]))) test_key)
      [[1, 2, 3], [], test_message 11, [7]])
      (siphash_iter_end False) = Ok (sip_hash (sip_c False) (sip_d False) test_key (concat [[1, 2, 3], [], test_message 11, [7]]))"
  by (rule siphash_in_pieces) simp_all

text \<open>C20: the register interface computes the same hash. The registers hold the first words of
  the message, its length and the key; a message of up to 32 bytes is hashed at once, a longer one
  by feeding the remaining words two at a time, the last one partial when the length is not
  a multiple of eight.\<close>

theorem siphash_registers:
  assumes "0 < length bs" and "length bs < 2 ^ 64" and "length args = 7"
    and "\<forall>i < min 4 (length (reg_words bs)). args ! i = reg_words bs ! i" and "args ! 4 = of_nat (length bs)"
  shows "(if length bs \<le> 32 then fst (siphash_start km args)
      else reg_rounds km (snd (siphash_start km args)) (length bs mod 8 \<noteq> 0) (drop 4 (reg_words bs))) =
    sip_hash (sip_c km) (sip_d km) \<lparr>key_0 = args ! 5, key_1 = args ! 6\<rparr> bs"
proof (cases "length bs \<le> 32")
  case True
  then have "length (reg_words bs) \<le> 4" by (simp add: reg_words_def)
  with True show ?thesis using siphash_start_hash [of bs args _ km] assms by (simp add: min_def)
next
  case False
  then have "4 < length (reg_words bs)" by (simp add: reg_words_def)
  with False show ?thesis using siphash_chain_hash [of bs args _ km] assms by (simp add: min_def)
qed

theorem siphash_registers_witness:
  "(if length (test_message 42) \<le> 32 then fst (siphash_start False (take 4 (reg_words (test_message 42)) @ [42, 5, 6]))
      else reg_rounds False (snd (siphash_start False (take 4 (reg_words (test_message 42)) @ [42, 5, 6])))
        (length (test_message 42) mod 8 \<noteq> 0) (drop 4 (reg_words (test_message 42)))) =
    sip_hash (sip_c False) (sip_d False) \<lparr>key_0 = (take 4 (reg_words (test_message 42)) @ [42, 5, 6]) ! 5,
      key_1 = (take 4 (reg_words (test_message 42)) @ [42, 5, 6]) ! 6\<rparr> (test_message 42)"
proof -
  have "length (reg_words (test_message 42)) = 6" by (simp add: reg_words_def)
  then show ?thesis by (intro siphash_registers) (simp_all add: nth_append)
qed

end
