(* ===== verification/Metadata_Hash.thy ===== *)
theory Metadata_Hash
  imports Metadata Siphash
begin

text \<open>
  Hashing of metadata: \<open>XDP2_HASH_CONSISTENTIFY\<close> and \<open>XDP2_HASH_LENGTH\<close> of
  \<open>src/include/xdp2/parser_metadata.h\<close>, and the hash itself, of \<open>parser.h\<close>. The first puts the
  addresses and ports of a frame into a canonical order, so that both directions of a flow
  get the same hash.
\<close>

text \<open>The 32-bit load of a little-endian host, and \<open>memcmp\<close>.\<close>

definition le32 :: "u8 list \<Rightarrow> nat \<Rightarrow> u32" where
  "le32 bs i = word_cat (word_cat (bs ! (i + 3)) (bs ! (i + 2)) :: u16)
                        (word_cat (bs ! (i + 1)) (bs ! i) :: u16)"

fun memcmp :: "u8 list \<Rightarrow> u8 list \<Rightarrow> int" where
  "memcmp (x # xs) (y # ys) = (if x < y then - 1 else if y < x then 1 else memcmp xs ys)"
| "memcmp _ _ = 0"

definition v4_addr :: "nat \<Rightarrow> xdp2_metadata_all \<Rightarrow> u32" where
  "v4_addr i f = le32 (md_addrs f) (4 * i)"

definition v6_addr :: "nat \<Rightarrow> xdp2_metadata_all \<Rightarrow> u8 list" where
  "v6_addr i f = take 16 (drop (16 * i) (md_addrs f))"

text \<open>Exchanging the first two blocks of \<open>n\<close> bytes of the addresses, and the ports.\<close>

definition swap_blocks :: "nat \<Rightarrow> u8 list \<Rightarrow> u8 list" where
  "swap_blocks n a = take n (drop n a) @ take n a @ drop (2 * n) a"

definition swap_ends :: "nat \<Rightarrow> xdp2_metadata_all \<Rightarrow> xdp2_metadata_all" where
  "swap_ends n f = f\<lparr>md_addrs := swap_blocks n (md_addrs f), md_src_port := md_dst_port f,
     md_dst_port := md_src_port f\<rparr>"

definition XDP2_HASH_CONSISTENTIFY :: "xdp2_metadata_all \<Rightarrow> xdp2_metadata_all" where
  "XDP2_HASH_CONSISTENTIFY f =
     (if md_addr_type f = XDP2_ADDR_TYPE_IPV4 then
        let addr_diff = sint (v4_addr 1 f - v4_addr 0 f)
        in if addr_diff < 0 \<or> addr_diff = 0 \<and> md_dst_port f < md_src_port f then swap_ends 4 f else f
      else if md_addr_type f = XDP2_ADDR_TYPE_IPV6 then
        let addr_diff = memcmp (v6_addr 1 f) (v6_addr 0 f)
        in if addr_diff < 0 \<or> addr_diff = 0 \<and> md_dst_port f < md_src_port f then swap_ends 16 f else f
      else f)"

definition XDP2_HASH_LENGTH :: "xdp2_metadata_all \<Rightarrow> nat \<Rightarrow> nat" where
  "XDP2_HASH_LENGTH f hash_offset =
     (let diff = hash_offset + 32;
          diff' = (if md_addr_type f = XDP2_ADDR_TYPE_IPV4 then diff - 8
                   else if md_addr_type f = XDP2_ADDR_TYPE_IPV6 then diff - 32 else diff)
      in sizeof_metadata_all - diff')"

section \<open>The hash value\<close>

text \<open>The bytes of a frame from \<open>eth_proto\<close> (\<open>XDP2_HASH_START_FIELD_ALL\<close>) to the end of the
  structure, as the compiler lays them out: bit-fields from the lowest bit, one byte of
  padding behind \<open>ip_proto\<close> and four at the end. Padding is zero, since the objects are
  cleared before they are filled.\<close>

definition vlan_bytes :: "md_vlan_t \<Rightarrow> u8 list" where
  "vlan_bytes v =
     bytes_le 2 (ucast (vlan_id v) OR push_bit 12 (ucast (vlan_dei v)) OR
                 push_bit 13 (ucast (vlan_priority v)) :: u16) @ bytes_le 2 (vlan_tpid v)"

definition XDP2_HASH_START :: "xdp2_metadata_all \<Rightarrow> u8 list" where
  "XDP2_HASH_START f =
     bytes_le 2 (md_eth_proto f) @ [md_ip_proto f, 0] @ bytes_le 4 (md_flow_label f) @
     concat (map vlan_bytes (md_vlan f)) @ bytes_le 4 (md_keyid f) @
     bytes_le 2 (md_src_port f) @ bytes_le 2 (md_dst_port f) @
     [icmp_type (md_icmp f), icmp_code (md_icmp f)] @ bytes_le 2 (icmp_id (md_icmp f)) @
     md_addrs f @ replicate 4 0"

text \<open>\<open>__xdp2_hash_key\<close> is the argument \<open>key\<close>. The field the hash starts with is aligned to
  eight bytes, and the length is not known to the compiler. A hash of zero is
  replaced by one.\<close>

definition xdp2_compute_hash :: "siphash_key_t \<Rightarrow> u8 list \<Rightarrow> size_t \<Rightarrow> u32 res" where
  "xdp2_compute_hash key data len =
     bind_res (siphash False False 0 data 0 len key) (\<lambda>hash.
     let hash = ucast hash :: u32
     in Ok (if hash = 0 then 1 else hash))"

definition XDP2_COMMON_COMPUTE_HASH :: "siphash_key_t \<Rightarrow> xdp2_metadata_all \<Rightarrow> u32 res" where
  "XDP2_COMMON_COMPUTE_HASH key f =
     (let data = XDP2_HASH_START f;
          olen = of_nat (XDP2_HASH_LENGTH f XDP2_HASH_OFFSET_ALL)
      in xdp2_compute_hash key data olen)"

text \<open>\<open>rand\<close> is the sequence of random numbers for a key that is not given.\<close>

definition xdp2_hash_secret_init :: "(nat \<Rightarrow> u32) \<Rightarrow> siphash_key_t option \<Rightarrow> siphash_key_t" where
  "xdp2_hash_secret_init rand init_key =
     (case init_key of
        Some key \<Rightarrow> key
      | None \<Rightarrow>
          let bytes = map (\<lambda>i. ucast (rand i)) [0..<16]
          in \<lparr>key_0 = word_of_le (take 8 bytes), key_1 = word_of_le (drop 8 bytes)\<rparr>)"

lemma length_vlan_bytes [simp]: "length (vlan_bytes v) = 4"
  by (simp add: vlan_bytes_def)

lemma length_hash_start: "frame_ok f \<Longrightarrow> length (XDP2_HASH_START f) = 64"
  by (auto simp: frame_ok_def XDP2_HASH_START_def length_Suc_conv numeral_2_eq_2)

lemma hash_length_cases:
  "XDP2_HASH_LENGTH f XDP2_HASH_OFFSET_ALL =
     (if md_addr_type f = XDP2_ADDR_TYPE_IPV4 then 40
      else if md_addr_type f = XDP2_ADDR_TYPE_IPV6 then 64 else 32)"
  by (simp add: XDP2_HASH_LENGTH_def proto_simps)

lemma common_hash_value:
  assumes "frame_ok f"
  shows "XDP2_COMMON_COMPUTE_HASH key f =
    (let h = ucast (sip_hash 1 2 key (take (XDP2_HASH_LENGTH f XDP2_HASH_OFFSET_ALL) (XDP2_HASH_START f))) :: u32
     in Ok (if h = 0 then 1 else h))"
proof -
  have l: "XDP2_HASH_LENGTH f XDP2_HASH_OFFSET_ALL \<le> 64" by (simp add: hash_length_cases)
  then have "unat (of_nat (XDP2_HASH_LENGTH f XDP2_HASH_OFFSET_ALL) :: size_t) = XDP2_HASH_LENGTH f XDP2_HASH_OFFSET_ALL"
    by (intro unat_of_nat_lt) simp
  then show ?thesis
    using l length_hash_start [OF assms]
    by (simp add: XDP2_COMMON_COMPUTE_HASH_def xdp2_compute_hash_def siphash_hash sip_c_def sip_d_def Let_def)
qed

section \<open>Both directions of a flow\<close>

text \<open>The metadata of the packet that goes the other way.\<close>

definition reverse_dir :: "xdp2_metadata_all \<Rightarrow> xdp2_metadata_all" where
  "reverse_dir f = (if md_addr_type f = XDP2_ADDR_TYPE_IPV4 then swap_ends 4 f
                    else if md_addr_type f = XDP2_ADDR_TYPE_IPV6 then swap_ends 16 f else f)"

lemma swap_blocks_twice: "2 * n \<le> length a \<Longrightarrow> swap_blocks n (swap_blocks n a) = a"
proof -
  assume a: "2 * n \<le> length a"
  then have "a = take n a @ take n (drop n a) @ drop (2 * n) a"
    by (metis append_assoc append_take_drop_id mult_2 take_add)
  moreover have "length (take n a) = n" "length (take n (drop n a)) = n" using a by simp_all
  ultimately show ?thesis
    unfolding swap_blocks_def
    by (metis (no_types, lifting) append_eq_conv_conj append_assoc drop_drop mult_2)
qed

lemma swap_ends_twice: "frame_ok f \<Longrightarrow> n \<le> 16 \<Longrightarrow> swap_ends n (swap_ends n f) = f"
  by (simp add: swap_ends_def swap_blocks_twice frame_ok_def)

lemma swap_ends_v4:
  assumes "frame_ok f"
  shows "v4_addr 0 (swap_ends 4 f) = v4_addr 1 f" "v4_addr 1 (swap_ends 4 f) = v4_addr 0 f"
  using assms
  by (simp_all add: v4_addr_def le32_def swap_ends_def swap_blocks_def frame_ok_def nth_append nth_drop numeral_eq_Suc)

lemma swap_ends_v6:
  assumes "frame_ok f"
  shows "v6_addr 0 (swap_ends 16 f) = v6_addr 1 f" "v6_addr 1 (swap_ends 16 f) = v6_addr 0 f"
  using assms by (simp_all add: v6_addr_def swap_ends_def swap_blocks_def frame_ok_def)

lemma swap_ends_fields [simp]:
  "md_addr_type (swap_ends n f) = md_addr_type f" "md_src_port (swap_ends n f) = md_dst_port f"
  "md_dst_port (swap_ends n f) = md_src_port f" "frame_ok f \<Longrightarrow> n \<le> 16 \<Longrightarrow> frame_ok (swap_ends n f)"
  by (auto simp: swap_ends_def frame_ok_def swap_blocks_def)

lemma memcmp_flip: "memcmp ys xs = - memcmp xs ys"
  by (induction xs ys rule: memcmp.induct) auto

lemma memcmp_0: "length xs = length ys \<Longrightarrow> memcmp xs ys = 0 \<longleftrightarrow> xs = ys"
  by (induction xs ys rule: memcmp.induct) (auto simp: not_less_iff_gr_or_eq)

text \<open>The canonical order, for an abstract difference of the two ends that changes its sign
  when the ends are exchanged.\<close>

lemma canonical_swap:
  fixes d :: int
  assumes twice: "g (g f) = f" and flip: "diff (g f) = - diff f"
    and ports: "sp (g f) = dp f" "dp (g f) = (sp f :: u16)"
    and same: "diff f = 0 \<Longrightarrow> sp f = dp f \<Longrightarrow> g f = f"
  defines "canon x \<equiv> (if diff x < (0::int) \<or> diff x = 0 \<and> dp x < sp x then g x else x)"
  shows "canon (g f) = canon f"
proof (cases "diff f = 0 \<and> sp f = dp f")
  case True
  then show ?thesis using same by (simp add: canon_def)
next
  case False
  then show ?thesis using twice flip ports by (auto simp: canon_def)
qed

lemma sint_neg_word:
  assumes "(w :: u32) \<noteq> 2 ^ 31" shows "sint (- w) = - sint w"
proof -
  have ge: "- (2 ^ 31) \<le> sint w" and lt: "sint w < 2 ^ 31"
    using sint_ge [of w] sint_lt [of w] by simp_all
  have "sint w \<noteq> - (2 ^ 31)"
  proof
    assume m: "sint w = - (2 ^ 31)"
    have "w = word_of_int (sint w)" by simp
    also have "\<dots> = word_of_int (- (2 ^ 31))" by (simp only: m)
    also have "\<dots> = (2 ^ 31 :: u32)" by code_simp
    finally show False using assms by simp
  qed
  with ge lt have s: "signed_take_bit 31 (- sint w) = - sint w" by (intro signed_take_bit_int_eq_self) auto
  have "sint (- w) = sint (word_of_int (- sint w) :: u32)" by simp
  also have "\<dots> = signed_take_bit 31 (- sint w)" by (simp only: sint_sbintrunc') simp
  finally show ?thesis unfolding s .
qed

lemma le32_bytes:
  "ucast (le32 bs i) = bs ! i" "ucast (drop_bit 8 (le32 bs i)) = bs ! (i + 1)"
  "ucast (drop_bit 16 (le32 bs i)) = bs ! (i + 2)" "ucast (drop_bit 24 (le32 bs i)) = bs ! (i + 3)"
  by (rule bit_word_eqI; simp add: le32_def bit_word_cat_iff bit_ucast_iff bit_drop_bit_eq)+

lemma swap_blocks_same:
  assumes "2 * n \<le> length a" "take n (drop n a) = take n a" shows "swap_blocks n a = a"
  using assms unfolding swap_blocks_def
  by (metis append_assoc append_take_drop_id mult_2 take_add)

lemma swap_v4_same:
  assumes "frame_ok f" "v4_addr 0 f = v4_addr 1 f" "md_src_port f = md_dst_port f"
  shows "swap_ends 4 f = f"
proof -
  let ?a = "md_addrs f"
  have "?a ! 0 = ?a ! 4 \<and> ?a ! 1 = ?a ! 5 \<and> ?a ! 2 = ?a ! 6 \<and> ?a ! 3 = ?a ! 7"
    using le32_bytes [of ?a 0] le32_bytes [of ?a 4] assms(2) by (simp add: v4_addr_def numeral_2_eq_2)
  then have "take 4 (drop 4 ?a) = take 4 ?a"
    using assms(1) by (intro nth_equalityI) (auto simp: frame_ok_def less_Suc_eq numeral_eq_Suc eval_nat_numeral)
  then have "swap_blocks 4 ?a = ?a" using assms(1) by (intro swap_blocks_same) (auto simp: frame_ok_def)
  then show ?thesis using assms(3) by (simp add: swap_ends_def)
qed

lemma swap_v6_same:
  assumes "frame_ok f" "v6_addr 1 f = v6_addr 0 f" "md_src_port f = md_dst_port f"
  shows "swap_ends 16 f = f"
proof -
  have "swap_blocks 16 (md_addrs f) = md_addrs f"
    using assms by (intro swap_blocks_same) (auto simp: frame_ok_def v6_addr_def)
  then show ?thesis using assms(3) by (simp add: swap_ends_def)
qed

lemma consistentify_v4:
  assumes "frame_ok f" "md_addr_type f = XDP2_ADDR_TYPE_IPV4" "v4_addr 1 f - v4_addr 0 f \<noteq> 2 ^ 31"
  shows "XDP2_HASH_CONSISTENTIFY (swap_ends 4 f) = XDP2_HASH_CONSISTENTIFY f"
proof -
  let ?d = "\<lambda>f. sint (v4_addr 1 f - v4_addr 0 f)"
  have u: "XDP2_HASH_CONSISTENTIFY g =
      (if ?d g < 0 \<or> ?d g = 0 \<and> md_dst_port g < md_src_port g then swap_ends 4 g else g)"
    if "md_addr_type g = XDP2_ADDR_TYPE_IPV4" for g
    using that by (simp add: XDP2_HASH_CONSISTENTIFY_def Let_def)
  have flip: "?d (swap_ends 4 f) = - ?d f"
    unfolding swap_ends_v4 [OF assms(1)] using sint_neg_word [OF assms(3)] by (simp only: minus_diff_eq)
  have same: "swap_ends 4 f = f" if d: "?d f = 0" and pp: "md_src_port f = md_dst_port f"
  proof -
    have "v4_addr 1 f - v4_addr 0 f = word_of_int (?d f)" by simp
    then have "v4_addr 0 f = v4_addr 1 f" unfolding d by simp
    from swap_v4_same [OF assms(1) this pp] show ?thesis .
  qed
  have t: "md_addr_type (swap_ends 4 f) = XDP2_ADDR_TYPE_IPV4" using assms(2) by simp
  show ?thesis
    unfolding u [OF assms(2)] u [OF t]
    by (rule canonical_swap [OF swap_ends_twice [OF assms(1)] flip _ _ same]) simp_all
qed

lemma consistentify_v6:
  assumes "frame_ok f" "md_addr_type f = XDP2_ADDR_TYPE_IPV6"
  shows "XDP2_HASH_CONSISTENTIFY (swap_ends 16 f) = XDP2_HASH_CONSISTENTIFY f"
proof -
  let ?d = "\<lambda>f. memcmp (v6_addr 1 f) (v6_addr 0 f)"
  have u: "XDP2_HASH_CONSISTENTIFY g =
      (if ?d g < 0 \<or> ?d g = 0 \<and> md_dst_port g < md_src_port g then swap_ends 16 g else g)"
    if "md_addr_type g = XDP2_ADDR_TYPE_IPV6" for g
    using that by (simp add: XDP2_HASH_CONSISTENTIFY_def Let_def proto_simps)
  have flip: "?d (swap_ends 16 f) = - ?d f"
    unfolding swap_ends_v6 [OF assms(1)] by (rule memcmp_flip)
  have "length (v6_addr 1 f) = length (v6_addr 0 f)" using assms(1) by (simp add: v6_addr_def frame_ok_def)
  then have same: "swap_ends 16 f = f" if "?d f = 0" "md_src_port f = md_dst_port f"
    using that by (intro swap_v6_same [OF assms(1)]) (simp_all add: memcmp_0)
  have t: "md_addr_type (swap_ends 16 f) = XDP2_ADDR_TYPE_IPV6" using assms(2) by simp
  show ?thesis
    unfolding u [OF assms(2)] u [OF t]
    by (rule canonical_swap [OF swap_ends_twice [OF assms(1)] flip _ _ same]) simp_all
qed

end
