(* ===== verification/Parser_Big.thy ===== *)
theory Parser_Big
  imports Parser_Api Metadata_Hash
begin

text \<open>
  The big parser, a flow dissector: \<open>src/lib/xdp2/parsers/parser_big.c\<close> and
  \<open>src/include/xdp2/parsers/parser_big.h\<close>.

  Every parse node of the file has a number here, and \<open>big_nodes\<close> resolves the numbers. The
  graph is cyclic: GRE, IP in IP and BATMAN lead back to Ethernet and IP. Its contract is
  proved node by node, for an arbitrary packet, and gives the interpretation \<open>big_ether\<close>
  of the locale \<open>parse_graph\<close>.
\<close>

section \<open>Nodes and tables\<close>

abbreviation (input) id_ether :: node_id where "id_ether \<equiv> 0"
abbreviation (input) id_ip_overlay :: node_id where "id_ip_overlay \<equiv> 1"
abbreviation (input) id_ipv4 :: node_id where "id_ipv4 \<equiv> 2"
abbreviation (input) id_ipv4_check :: node_id where "id_ipv4_check \<equiv> 3"
abbreviation (input) id_ipv6 :: node_id where "id_ipv6 \<equiv> 4"
abbreviation (input) id_ipv6_check :: node_id where "id_ipv6_check \<equiv> 5"
abbreviation (input) id_ipv6_eh :: node_id where "id_ipv6_eh \<equiv> 6"
abbreviation (input) id_ipv6_frag :: node_id where "id_ipv6_frag \<equiv> 7"
abbreviation (input) id_ppp :: node_id where "id_ppp \<equiv> 8"
abbreviation (input) id_pppoe :: node_id where "id_pppoe \<equiv> 9"
abbreviation (input) id_gre_base :: node_id where "id_gre_base \<equiv> 10"
abbreviation (input) id_gre_v0 :: node_id where "id_gre_v0 \<equiv> 11"
abbreviation (input) id_gre_v1 :: node_id where "id_gre_v1 \<equiv> 12"
abbreviation (input) id_e8021AD :: node_id where "id_e8021AD \<equiv> 13"
abbreviation (input) id_e8021Q :: node_id where "id_e8021Q \<equiv> 14"
abbreviation (input) id_ipv4ip :: node_id where "id_ipv4ip \<equiv> 15"
abbreviation (input) id_ipv6ip :: node_id where "id_ipv6ip \<equiv> 16"
abbreviation (input) id_batman :: node_id where "id_batman \<equiv> 17"
abbreviation (input) id_ports :: node_id where "id_ports \<equiv> 18"
abbreviation (input) id_icmpv4 :: node_id where "id_icmpv4 \<equiv> 19"
abbreviation (input) id_icmpv6 :: node_id where "id_icmpv6 \<equiv> 20"
abbreviation (input) id_mpls :: node_id where "id_mpls \<equiv> 21"
abbreviation (input) id_arp :: node_id where "id_arp \<equiv> 22"
abbreviation (input) id_rarp :: node_id where "id_rarp \<equiv> 23"
abbreviation (input) id_tipc :: node_id where "id_tipc \<equiv> 24"
abbreviation (input) id_fcoe :: node_id where "id_fcoe \<equiv> 25"
abbreviation (input) id_igmp :: node_id where "id_igmp \<equiv> 26"
abbreviation (input) id_tcp :: node_id where "id_tcp \<equiv> 27"

abbreviation (input) id_opt_mss :: tlv_id where "id_opt_mss \<equiv> 0"
abbreviation (input) id_opt_window_scaling :: tlv_id where "id_opt_window_scaling \<equiv> 1"
abbreviation (input) id_opt_timestamp :: tlv_id where "id_opt_timestamp \<equiv> 2"
abbreviation (input) id_opt_sack :: tlv_id where "id_opt_sack \<equiv> 3"
abbreviation (input) id_opt_sack_1 :: tlv_id where "id_opt_sack_1 \<equiv> 4"
abbreviation (input) id_opt_sack_2 :: tlv_id where "id_opt_sack_2 \<equiv> 5"
abbreviation (input) id_opt_sack_3 :: tlv_id where "id_opt_sack_3 \<equiv> 6"
abbreviation (input) id_opt_sack_4 :: tlv_id where "id_opt_sack_4 \<equiv> 7"

text \<open>Protocol tables; Ethertypes are compared in network byte order.\<close>

definition ether_table :: "xdp2_proto_table" where
  "ether_table =
     [(uint (htons 0x0800), Some id_ipv4_check),
      (uint (htons 0x86DD), Some id_ipv6_check),
      (uint (htons 0x88A8), Some id_e8021AD),
      (uint (htons 0x8100), Some id_e8021Q),
      (uint (htons 0x8847), Some id_mpls),
      (uint (htons 0x8848), Some id_mpls),
      (uint (htons 0x0806), Some id_arp),
      (uint (htons 0x8035), Some id_rarp),
      (uint (htons 0x88CA), Some id_tipc),
      (uint (htons 0x4305), Some id_batman),
      (uint (htons 0x8906), Some id_fcoe),
      (uint (htons 0x8864), Some id_pppoe)]"

definition ipv4_table :: "xdp2_proto_table" where
  "ipv4_table =
     [(6, Some id_tcp),
      (17, Some id_ports),
      (132, Some id_ports),
      (33, Some id_ports),
      (47, Some id_gre_base),
      (1, Some id_icmpv4),
      (2, Some id_igmp),
      (137, Some id_mpls),
      (4, Some id_ipv4ip),
      (41, Some id_ipv6ip)]"

definition ipv6_table :: "xdp2_proto_table" where
  "ipv6_table =
     [(0, Some id_ipv6_eh),
      (43, Some id_ipv6_eh),
      (60, Some id_ipv6_eh),
      (44, Some id_ipv6_frag),
      (6, Some id_tcp),
      (17, Some id_ports),
      (132, Some id_ports),
      (33, Some id_ports),
      (47, Some id_gre_base),
      (58, Some id_icmpv6),
      (2, Some id_igmp),
      (137, Some id_mpls),
      (4, Some id_ipv4ip),
      (41, Some id_ipv6ip)]"

definition ip_table :: "xdp2_proto_table" where
  "ip_table =
     [(4, Some id_ipv4),
      (6, Some id_ipv6)]"

definition gre_base_table :: "xdp2_proto_table" where
  "gre_base_table =
     [(0, Some id_gre_v0),
      (1, Some id_gre_v1)]"

definition gre_v0_table :: "xdp2_proto_table" where
  "gre_v0_table =
     [(uint (htons 0x0800), Some id_ipv4_check),
      (uint (htons 0x86DD), Some id_ipv6_check),
      (uint (htons 0x6558), Some id_ether)]"

definition ppp_table :: "xdp2_proto_table" where
  "ppp_table =
     [(uint (htons 0x21), Some id_ipv4_check),
      (uint (htons 0x57), Some id_ipv6_check)]"

definition pppoe_table :: "xdp2_proto_table" where
  "pppoe_table =
     [(uint (htons 0x21), Some id_ipv4_check),
      (uint (htons 0x57), Some id_ipv6_check)]"

definition tcp_tlv_table :: "xdp2_proto_tlvs_table" where
  "tcp_tlv_table =
     [(TCPOPT_MSS, Some id_opt_mss),
      (TCPOPT_WINDOW, Some id_opt_window_scaling),
      (TCPOPT_TIMESTAMP, Some id_opt_timestamp),
      (TCPOPT_SACK, Some id_opt_sack)]"

definition tcp_sack_tlv_table :: "xdp2_proto_tlvs_table" where
  "tcp_sack_tlv_table =
     [(10, Some id_opt_sack_1),
      (18, Some id_opt_sack_2),
      (26, Some id_opt_sack_3),
      (34, Some id_opt_sack_4)]"

text \<open>Flag-field nodes and tables of the two GRE versions.\<close>

definition gre_flag_csum_node :: "frame_mem xdp2_parse_flag_field_node" where
  "gre_flag_csum_node = XDP2_MAKE_FLAG_FIELD_PARSE_NODE (Some XDP2_METADATA_TEMP_gre_checksum)"

definition gre_flag_key_node :: "frame_mem xdp2_parse_flag_field_node" where
  "gre_flag_key_node = XDP2_MAKE_FLAG_FIELD_PARSE_NODE (Some XDP2_METADATA_TEMP_gre_keyid)"

definition gre_flag_seq_node :: "frame_mem xdp2_parse_flag_field_node" where
  "gre_flag_seq_node = XDP2_MAKE_FLAG_FIELD_PARSE_NODE (Some XDP2_METADATA_TEMP_gre_seq)"

definition gre_pptp_flag_ack_node :: "frame_mem xdp2_parse_flag_field_node" where
  "gre_pptp_flag_ack_node = XDP2_MAKE_FLAG_FIELD_PARSE_NODE (Some XDP2_METADATA_TEMP_gre_pptp_ack)"

definition gre_pptp_flag_key_node :: "frame_mem xdp2_parse_flag_field_node" where
  "gre_pptp_flag_key_node = XDP2_MAKE_FLAG_FIELD_PARSE_NODE (Some XDP2_METADATA_TEMP_gre_pptp_key)"

definition gre_pptp_flag_seq_node :: "frame_mem xdp2_parse_flag_field_node" where
  "gre_pptp_flag_seq_node = XDP2_MAKE_FLAG_FIELD_PARSE_NODE (Some XDP2_METADATA_TEMP_gre_pptp_seq)"

definition gre_v0_flag_fields_table :: "frame_mem leaf_table" where
  "gre_v0_flag_fields_table =
     [(0, Some gre_flag_csum_node),
      (1, Some gre_flag_key_node),
      (2, Some gre_flag_seq_node)]"

definition gre_v1_flag_fields_table :: "frame_mem leaf_table" where
  "gre_v1_flag_fields_table =
     [(0, Some XDP2_FLAG_NODE_NULL),
      (1, Some gre_pptp_flag_key_node),
      (2, Some gre_pptp_flag_seq_node),
      (3, Some gre_pptp_flag_ack_node)]"

text \<open>Parse nodes.\<close>

definition ether_node :: "frame_mem xdp2_parse_node" where
  "ether_node = XDP2_MAKE_PARSE_NODE xdp2_parse_ether ether_table (Some XDP2_METADATA_TEMP_ether_off)"

definition ip_overlay_node :: "frame_mem xdp2_parse_node" where
  "ip_overlay_node = XDP2_MAKE_PARSE_NODE xdp2_parse_ip ip_table (Some XDP2_METADATA_TEMP_ip_overlay)"

definition ipv4_node :: "frame_mem xdp2_parse_node" where
  "ipv4_node = XDP2_MAKE_PARSE_NODE xdp2_parse_ipv4 ipv4_table (Some XDP2_METADATA_TEMP_ipv4)"

definition ipv4_check_node :: "frame_mem xdp2_parse_node" where
  "ipv4_check_node = XDP2_MAKE_AUTONEXT_PARSE_NODE xdp2_parse_ipv4_check id_ipv4 None"

definition ipv6_node :: "frame_mem xdp2_parse_node" where
  "ipv6_node = XDP2_MAKE_PARSE_NODE xdp2_parse_ipv6 ipv6_table (Some XDP2_METADATA_TEMP_ipv6)"

definition ipv6_check_node :: "frame_mem xdp2_parse_node" where
  "ipv6_check_node = XDP2_MAKE_AUTONEXT_PARSE_NODE xdp2_parse_ipv6_check id_ipv6 None"

definition ipv6_eh_node :: "frame_mem xdp2_parse_node" where
  "ipv6_eh_node = XDP2_MAKE_PARSE_NODE xdp2_parse_ipv6_eh ipv6_table (Some XDP2_METADATA_TEMP_ipv6_eh)"

definition ipv6_frag_node :: "frame_mem xdp2_parse_node" where
  "ipv6_frag_node = XDP2_MAKE_PARSE_NODE xdp2_parse_ipv6_frag_eh ipv6_table (Some XDP2_METADATA_TEMP_ipv6_frag)"

definition ppp_node :: "frame_mem xdp2_parse_node" where
  "ppp_node = XDP2_MAKE_PARSE_NODE xdp2_parse_ppp ppp_table None"

definition pppoe_node :: "frame_mem xdp2_parse_node" where
  "pppoe_node = XDP2_MAKE_PARSE_NODE xdp2_parse_pppoe pppoe_table None"

definition gre_base_node :: "frame_mem xdp2_parse_node" where
  "gre_base_node = XDP2_MAKE_PARSE_NODE xdp2_parse_gre_base gre_base_table None"

definition gre_v0_node :: "frame_mem xdp2_parse_node" where
  "gre_v0_node = XDP2_MAKE_FLAG_FIELDS_PARSE_NODE xdp2_parse_gre_v0 gre_v0_table gre_v0_flag_fields_table (Some XDP2_METADATA_TEMP_gre)"

definition gre_v1_node :: "frame_mem xdp2_parse_node" where
  "gre_v1_node = XDP2_MAKE_FLAG_FIELDS_AUTONEXT_PARSE_NODE xdp2_parse_gre_v1 id_ppp gre_v1_flag_fields_table (Some XDP2_METADATA_TEMP_gre_pptp)"

definition e8021AD_node :: "frame_mem xdp2_parse_node" where
  "e8021AD_node = XDP2_MAKE_PARSE_NODE xdp2_parse_vlan ether_table (Some XDP2_METADATA_TEMP_vlan_8021AD)"

definition e8021Q_node :: "frame_mem xdp2_parse_node" where
  "e8021Q_node = XDP2_MAKE_PARSE_NODE xdp2_parse_vlan ether_table (Some XDP2_METADATA_TEMP_vlan_8021Q)"

definition ipv4ip_node :: "frame_mem xdp2_parse_node" where
  "ipv4ip_node = XDP2_MAKE_AUTONEXT_PARSE_NODE xdp2_parse_ipv4ip id_ipv4 None"

definition ipv6ip_node :: "frame_mem xdp2_parse_node" where
  "ipv6ip_node = XDP2_MAKE_AUTONEXT_PARSE_NODE xdp2_parse_ipv6ip id_ipv6 None"

definition batman_node :: "frame_mem xdp2_parse_node" where
  "batman_node = XDP2_MAKE_PARSE_NODE xdp2_parse_batman ether_table None"

definition ports_node :: "frame_mem xdp2_parse_node" where
  "ports_node = XDP2_MAKE_LEAF_PARSE_NODE xdp2_parse_ports (Some XDP2_METADATA_TEMP_ports_off)"

definition icmpv4_node :: "frame_mem xdp2_parse_node" where
  "icmpv4_node = XDP2_MAKE_LEAF_PARSE_NODE xdp2_parse_icmpv4 (Some XDP2_METADATA_TEMP_icmp)"

definition icmpv6_node :: "frame_mem xdp2_parse_node" where
  "icmpv6_node = XDP2_MAKE_LEAF_PARSE_NODE xdp2_parse_icmpv6 (Some XDP2_METADATA_TEMP_icmp)"

definition mpls_node :: "frame_mem xdp2_parse_node" where
  "mpls_node = XDP2_MAKE_LEAF_PARSE_NODE xdp2_parse_mpls (Some XDP2_METADATA_TEMP_mpls)"

definition arp_node :: "frame_mem xdp2_parse_node" where
  "arp_node = XDP2_MAKE_LEAF_PARSE_NODE xdp2_parse_arp (Some XDP2_METADATA_TEMP_arp_rarp)"

definition rarp_node :: "frame_mem xdp2_parse_node" where
  "rarp_node = XDP2_MAKE_LEAF_PARSE_NODE xdp2_parse_rarp (Some XDP2_METADATA_TEMP_arp_rarp)"

definition tipc_node :: "frame_mem xdp2_parse_node" where
  "tipc_node = XDP2_MAKE_LEAF_PARSE_NODE xdp2_parse_tipc (Some XDP2_METADATA_TEMP_tipc)"

definition fcoe_node :: "frame_mem xdp2_parse_node" where
  "fcoe_node = XDP2_MAKE_LEAF_PARSE_NODE xdp2_parse_fcoe None"

definition igmp_node :: "frame_mem xdp2_parse_node" where
  "igmp_node = XDP2_MAKE_LEAF_PARSE_NODE xdp2_parse_igmp None"

definition tcp_node :: "frame_mem xdp2_parse_node" where
  "tcp_node = XDP2_MAKE_LEAF_TLVS_PARSE_NODE xdp2_parse_tcp_tlvs tcp_tlv_table (Some XDP2_METADATA_TEMP_ports_off)"

text \<open>TCP option nodes.\<close>

definition tcp_opt_mss_node :: "frame_mem xdp2_parse_tlv_node" where
  "tcp_opt_mss_node = XDP2_MAKE_TLV_PARSE_NODE xdp2_parse_tcp_option_mss (Some XDP2_METADATA_TEMP_tcp_option_mss)"

definition tcp_opt_window_scaling_node :: "frame_mem xdp2_parse_tlv_node" where
  "tcp_opt_window_scaling_node = XDP2_MAKE_TLV_PARSE_NODE xdp2_parse_tcp_option_window_scaling (Some XDP2_METADATA_TEMP_tcp_option_window_scaling)"

definition tcp_opt_timestamp_node :: "frame_mem xdp2_parse_tlv_node" where
  "tcp_opt_timestamp_node = XDP2_MAKE_TLV_PARSE_NODE xdp2_parse_tcp_option_timestamp (Some XDP2_METADATA_TEMP_tcp_option_timestamp)"

definition tcp_opt_sack_node :: "frame_mem xdp2_parse_tlv_node" where
  "tcp_opt_sack_node = XDP2_MAKE_TLV_OVERLAY_PARSE_NODE xdp2_parse_tlv_null tcp_sack_tlv_table None"

definition tcp_opt_sack_1 :: "frame_mem xdp2_parse_tlv_node" where
  "tcp_opt_sack_1 = XDP2_MAKE_TLV_PARSE_NODE xdp2_parse_tcp_option_sack_1 (Some XDP2_METADATA_TEMP_tcp_option_sack_1)"

definition tcp_opt_sack_2 :: "frame_mem xdp2_parse_tlv_node" where
  "tcp_opt_sack_2 = XDP2_MAKE_TLV_PARSE_NODE xdp2_parse_tcp_option_sack_2 (Some XDP2_METADATA_TEMP_tcp_option_sack_2)"

definition tcp_opt_sack_3 :: "frame_mem xdp2_parse_tlv_node" where
  "tcp_opt_sack_3 = XDP2_MAKE_TLV_PARSE_NODE xdp2_parse_tcp_option_sack_3 (Some XDP2_METADATA_TEMP_tcp_option_sack_3)"

definition tcp_opt_sack_4 :: "frame_mem xdp2_parse_tlv_node" where
  "tcp_opt_sack_4 = XDP2_MAKE_TLV_PARSE_NODE xdp2_parse_tcp_option_sack_4 (Some XDP2_METADATA_TEMP_tcp_option_sack_4)"

text \<open>The pointers.\<close>

definition big_nodes :: "node_id \<Rightarrow> frame_mem xdp2_parse_node option" where
  "big_nodes = map_of
     [(id_ether, ether_node), (id_ip_overlay, ip_overlay_node), (id_ipv4, ipv4_node), (id_ipv4_check, ipv4_check_node),
      (id_ipv6, ipv6_node), (id_ipv6_check, ipv6_check_node), (id_ipv6_eh, ipv6_eh_node), (id_ipv6_frag, ipv6_frag_node),
      (id_ppp, ppp_node), (id_pppoe, pppoe_node), (id_gre_base, gre_base_node), (id_gre_v0, gre_v0_node),
      (id_gre_v1, gre_v1_node), (id_e8021AD, e8021AD_node), (id_e8021Q, e8021Q_node), (id_ipv4ip, ipv4ip_node),
      (id_ipv6ip, ipv6ip_node), (id_batman, batman_node), (id_ports, ports_node), (id_icmpv4, icmpv4_node),
      (id_icmpv6, icmpv6_node), (id_mpls, mpls_node), (id_arp, arp_node), (id_rarp, rarp_node),
      (id_tipc, tipc_node), (id_fcoe, fcoe_node), (id_igmp, igmp_node), (id_tcp, tcp_node)]"

definition big_tlv_nodes :: "tlv_id \<Rightarrow> frame_mem xdp2_parse_tlv_node option" where
  "big_tlv_nodes = map_of
     [(id_opt_mss, tcp_opt_mss_node), (id_opt_window_scaling, tcp_opt_window_scaling_node),
      (id_opt_timestamp, tcp_opt_timestamp_node), (id_opt_sack, tcp_opt_sack_node),
      (id_opt_sack_1, tcp_opt_sack_1), (id_opt_sack_2, tcp_opt_sack_2),
      (id_opt_sack_3, tcp_opt_sack_3), (id_opt_sack_4, tcp_opt_sack_4)]"

section \<open>Parsers\<close>

definition XDP2_PARSER_BIG_NUM_FRAMES :: u16 where [proto_simps]: "XDP2_PARSER_BIG_NUM_FRAMES = 5"

text \<open>\<open>sizeof (struct xdp2_parser_big_metadata)\<close> and \<open>sizeof (struct xdp2_parser_big_metadata_one)\<close>.\<close>

definition sizeof_big_metadata :: nat where [proto_simps]:
  "sizeof_big_metadata = unat XDP2_PARSER_BIG_NUM_FRAMES * sizeof_metadata_all"
definition sizeof_big_metadata_one :: nat where [proto_simps]:
  "sizeof_big_metadata_one = sizeof_metadata_all"

definition xdp2_parser_big_ether :: "frame_mem xdp2_parser" where
  "xdp2_parser_big_ether = XDP2_PARSER id_ether
     (XDP2_PARSER_CONFIG_DEFAULTS\<lparr>max_frames := XDP2_PARSER_BIG_NUM_FRAMES, metameta_size := 0,
        frame_size := of_nat sizeof_big_metadata_one\<rparr>) big_nodes big_tlv_nodes"

text \<open>All the other parsers take the default configuration.\<close>

definition big_default_parser :: "node_id \<Rightarrow> frame_mem xdp2_parser" where
  "big_default_parser root = XDP2_PARSER root XDP2_PARSER_CONFIG_DEFAULTS big_nodes big_tlv_nodes"

definition xdp2_parser_big_ip :: "frame_mem xdp2_parser" where
  "xdp2_parser_big_ip = big_default_parser id_ip_overlay"

definition l3_parser_table :: "(int \<times> frame_mem xdp2_parser) list" where
  "l3_parser_table =
     [(uint (htons 0x0800), big_default_parser id_ipv4_check),
      (uint (htons 0x86DD), big_default_parser id_ipv6_check),
      (uint (htons 0x88A8), big_default_parser id_e8021AD),
      (uint (htons 0x8100), big_default_parser id_e8021Q),
      (uint (htons 0x8847), big_default_parser id_mpls),
      (uint (htons 0x8848), big_default_parser id_mpls),
      (uint (htons 0x0806), big_default_parser id_arp),
      (uint (htons 0x8035), big_default_parser id_rarp),
      (uint (htons 0x88CA), big_default_parser id_tipc),
      (uint (htons 0x4305), big_default_parser id_batman),
      (uint (htons 0x8906), big_default_parser id_fcoe),
      (uint (htons 0x8864), big_default_parser id_pppoe)]"

section \<open>Parsing a packet\<close>

text \<open>The control data of \<open>xdp2_parser_big_parse_ether\<close> is an uninitialised local variable,
  here the argument \<open>ctrl\<close>: its counters and \<open>pkt.start\<close>, which the header offsets are relative to, can be anything.\<close>

definition parse_is_okay :: "'m parse_result \<Rightarrow> (bool \<times> 'm ustate) res" where
  "parse_is_okay r = map_res (\<lambda>(ret, _, us). (ret = XDP2_STOP_OKAY, us)) r"

definition xdp2_parser_big_parse_ether ::
  "frame_mem entry_point \<Rightarrow> nat \<Rightarrow> packet \<Rightarrow> size_t \<Rightarrow> xdp2_ctrl_data \<Rightarrow> frame_mem ustate
   \<Rightarrow> (bool \<times> frame_mem ustate) res" where
  "xdp2_parser_big_parse_ether entry_point fuel p len ctrl mdata =
     parse_is_okay (xdp2_parse entry_point fuel xdp2_parser_big_ether p 0 len ctrl mdata)"

definition xdp2_parser_big_parse_l3 ::
  "frame_mem entry_point \<Rightarrow> nat \<Rightarrow> packet \<Rightarrow> size_t \<Rightarrow> u16 \<Rightarrow> xdp2_ctrl_data \<Rightarrow> frame_mem ustate
   \<Rightarrow> (bool \<times> frame_mem ustate) res" where
  "xdp2_parser_big_parse_l3 entry_point fuel p len proto ctrl mdata =
     parse_is_okay (xdp2_parse_from_table entry_point fuel l3_parser_table (uint proto)
                      (XDP2_CTRL_RESET_VAR_DATA ctrl) mdata)"

definition xdp2_parser_big_parse_ip ::
  "frame_mem entry_point \<Rightarrow> nat \<Rightarrow> packet \<Rightarrow> size_t \<Rightarrow> xdp2_ctrl_data \<Rightarrow> frame_mem ustate
   \<Rightarrow> (bool \<times> frame_mem ustate) res" where
  "xdp2_parser_big_parse_ip entry_point fuel p len ctrl mdata =
     parse_is_okay (xdp2_parse entry_point fuel xdp2_parser_big_ip p 0 len
                      (XDP2_CTRL_RESET_VAR_DATA ctrl) mdata)"

section \<open>Hashing a packet\<close>

text \<open>The metadata object after \<open>memset (&mdata, 0, sizeof (mdata))\<close>.\<close>

definition frame0 :: xdp2_metadata_all where
  "frame0 = \<lparr>md_addr_type = 0, md_is_fragment = 0, md_first_frag = 0, md_vlan_count = 0,
     md_eth_addrs = replicate 12 0,
     md_tcp_options = \<lparr>tcpo_mss = 0, tcpo_window_scaling = 0, tcpo_ts_value = 0, tcpo_ts_echo = 0,
       tcpo_sack = replicate 4 (0, 0)\<rparr>,
     md_mpls = \<lparr>mpls_ttl = 0, mpls_bos = 0, mpls_tc = 0, mpls_label = 0\<rparr>,
     md_arp = \<lparr>arp_sip = replicate 4 0, arp_tip = replicate 4 0, arp_op = 0, arp_sha = replicate 6 0,
       arp_tha = replicate 6 0\<rparr>,
     md_gre = \<lparr>gre_flags = 0, gre_csum = 0, gre_keyid = 0, gre_seq = 0, gre_routing = 0\<rparr>,
     md_gre_pptp = \<lparr>pptp_flags = 0, pptp_length = 0, pptp_callid = 0, pptp_seq = 0, pptp_ack = 0\<rparr>,
     md_l2_off = 0, md_l3_off = 0, md_l4_off = 0, md_eth_proto = 0, md_ip_proto = 0, md_flow_label = 0,
     md_vlan = replicate 2 \<lparr>vlan_id = 0, vlan_dei = 0, vlan_priority = 0, vlan_tpid = 0\<rparr>,
     md_keyid = 0, md_src_port = 0, md_dst_port = 0,
     md_icmp = \<lparr>icmp_type = 0, icmp_code = 0, icmp_id = 0\<rparr>, md_addrs = replicate 32 0\<rparr>"

definition mem0 :: "nat \<Rightarrow> frame_mem ustate" where
  "mem0 n = \<lparr>umeta = \<lparr>fm_size = n, fm_frames = \<lambda>_. frame0\<rparr>, counters = [], keys = []\<rparr>"

text \<open>The hash functions. Zero is returned when the packet cannot be parsed.\<close>

definition xdp2_parser_big_hash_frame :: "siphash_key_t \<Rightarrow> xdp2_metadata_all \<Rightarrow> u32 res" where
  "xdp2_parser_big_hash_frame key frame =
     XDP2_COMMON_COMPUTE_HASH key (XDP2_HASH_CONSISTENTIFY frame)"

definition hash_parsed :: "siphash_key_t \<Rightarrow> (bool \<times> frame_mem ustate) res \<Rightarrow> u32 res" where
  "hash_parsed key r =
     bind_res r (\<lambda>(ok, us). if ok then xdp2_parser_big_hash_frame key (fm_frames (umeta us) 0) else Ok 0)"

definition xdp2_parser_big_hash_ether ::
  "frame_mem entry_point \<Rightarrow> nat \<Rightarrow> siphash_key_t \<Rightarrow> packet \<Rightarrow> size_t \<Rightarrow> xdp2_ctrl_data \<Rightarrow> u32 res" where
  "xdp2_parser_big_hash_ether entry_point fuel key p len ctrl =
     hash_parsed key
       (xdp2_parser_big_parse_ether entry_point fuel p len ctrl (mem0 sizeof_big_metadata_one))"

definition xdp2_parser_big_hash_l3 ::
  "frame_mem entry_point \<Rightarrow> nat \<Rightarrow> siphash_key_t \<Rightarrow> packet \<Rightarrow> size_t \<Rightarrow> u16 \<Rightarrow> xdp2_ctrl_data \<Rightarrow> u32 res" where
  "xdp2_parser_big_hash_l3 entry_point fuel key p len proto ctrl =
     bind_res (upd_frame 0 (\<lambda>f. f\<lparr>md_eth_proto := proto\<rparr>) (mem0 sizeof_big_metadata_one)) (\<lambda>mdata.
     hash_parsed key (xdp2_parser_big_parse_l3 entry_point fuel p len proto ctrl mdata))"

definition xdp2_parser_big_hash_ip ::
  "frame_mem entry_point \<Rightarrow> nat \<Rightarrow> siphash_key_t \<Rightarrow> packet \<Rightarrow> size_t \<Rightarrow> xdp2_ctrl_data \<Rightarrow> u32 res" where
  "xdp2_parser_big_hash_ip entry_point fuel key p len ctrl =
     hash_parsed key
       (xdp2_parser_big_parse_ip entry_point fuel p len ctrl (mem0 sizeof_big_metadata_one))"

section \<open>The contract of the graph\<close>

definition big_ids :: "node_id set" where "big_ids = {..27}"
definition big_tlv_ids :: "tlv_id set" where "big_tlv_ids = {..7}"

lemma big_ids_iff [simp]: "i \<in> big_ids \<longleftrightarrow> i \<le> 27" "j \<in> big_tlv_ids \<longleftrightarrow> j \<le> 7"
  by (simp_all add: big_ids_def big_tlv_ids_def)

text \<open>The bytes of a TCP option that its extractor reads, and the ranks of the option nodes.\<close>

definition opt_bytes :: "tlv_id \<Rightarrow> nat" where
  "opt_bytes i = [4, 3, 10, 0, 10, 18, 26, 34] ! i"

definition opt_rank :: "tlv_id \<Rightarrow> nat" where
  "opt_rank i = (if i = id_opt_sack then 1 else 0)"

abbreviation big_node_ok :: "nat \<Rightarrow> packet \<Rightarrow> frame_mem xdp2_parse_node \<Rightarrow> xdp2_proto_def \<Rightarrow> bool" where
  "big_node_ok n p \<equiv> parse_node_ok xdp2_parser_big_ether p (mem_ok n) (frame_fits n)
     big_tlv_ids opt_bytes opt_rank 2 big_ids"

lemma big_tables_in:
  "table_in big_ids ether_table" "table_in big_ids ipv4_table" "table_in big_ids ipv6_table"
  "table_in big_ids ip_table" "table_in big_ids gre_base_table" "table_in big_ids gre_v0_table"
  "table_in big_ids ppp_table" "table_in big_ids pppoe_table"
  by (simp_all add: table_in_def ether_table_def ipv4_table_def ipv6_table_def ip_table_def
      gre_base_table_def gre_v0_table_def ppp_table_def pppoe_table_def)

lemma big_plain_nodes_ok:
  "big_node_ok n p ether_node xdp2_parse_ether"
  "big_node_ok n p ip_overlay_node xdp2_parse_ip"
  "big_node_ok n p ipv4_node xdp2_parse_ipv4"
  "big_node_ok n p ipv6_node xdp2_parse_ipv6"
  "big_node_ok n p ipv6_eh_node xdp2_parse_ipv6_eh"
  "big_node_ok n p ipv6_frag_node xdp2_parse_ipv6_frag_eh"
  "big_node_ok n p ppp_node xdp2_parse_ppp"
  "big_node_ok n p pppoe_node xdp2_parse_pppoe"
  "big_node_ok n p gre_base_node xdp2_parse_gre_base"
  "big_node_ok n p e8021AD_node xdp2_parse_vlan"
  "big_node_ok n p e8021Q_node xdp2_parse_vlan"
  "big_node_ok n p batman_node xdp2_parse_batman"
  unfolding ether_node_def ip_overlay_node_def ipv4_node_def ipv6_node_def ipv6_eh_node_def
    ipv6_frag_node_def ppp_node_def pppoe_node_def gre_base_node_def e8021AD_node_def e8021Q_node_def
    batman_node_def XDP2_METADATA_TEMP_vlan_8021AD_def XDP2_METADATA_TEMP_vlan_8021Q_def
  by (rule make_node_ok; (rule proto_ok big_tables_in)?; simp add: proto_simps templates_ok ip_overlay_template_ok [simplified])+

lemma big_autonext_nodes_ok:
  "big_node_ok n p ipv4_check_node xdp2_parse_ipv4_check"
  "big_node_ok n p ipv6_check_node xdp2_parse_ipv6_check"
  "big_node_ok n p ipv4ip_node xdp2_parse_ipv4ip"
  "big_node_ok n p ipv6ip_node xdp2_parse_ipv6ip"
  unfolding ipv4_check_node_def ipv6_check_node_def ipv4ip_node_def ipv6ip_node_def
  by (rule make_autonext_node_ok; (rule proto_ok)?; simp)+

lemma big_leaf_nodes_ok:
  "big_node_ok n p ports_node xdp2_parse_ports"
  "big_node_ok n p icmpv4_node xdp2_parse_icmpv4"
  "big_node_ok n p icmpv6_node xdp2_parse_icmpv6"
  "big_node_ok n p mpls_node xdp2_parse_mpls"
  "big_node_ok n p arp_node xdp2_parse_arp"
  "big_node_ok n p rarp_node xdp2_parse_rarp"
  "big_node_ok n p tipc_node xdp2_parse_tipc"
  "big_node_ok n p fcoe_node xdp2_parse_fcoe"
  "big_node_ok n p igmp_node xdp2_parse_igmp"
  unfolding ports_node_def icmpv4_node_def icmpv6_node_def mpls_node_def arp_node_def rarp_node_def
    tipc_node_def fcoe_node_def igmp_node_def
  by (rule make_leaf_node_ok; (rule proto_ok)?; simp add: proto_simps templates_ok ip_overlay_template_ok [simplified])+

text \<open>The TCP options. The block counts of a SACK option are selected by its length.\<close>

lemma big_tlv_ids_cases: "i \<in> big_tlv_ids \<longleftrightarrow> i = 0 \<or> i = 1 \<or> i = 2 \<or> i = 3 \<or> i = 4 \<or> i = 5 \<or> i = 6 \<or> i = 7"
  by auto

lemmas opt_node_simps = tcp_opt_mss_node_def tcp_opt_window_scaling_node_def tcp_opt_timestamp_node_def
  tcp_opt_sack_node_def tcp_opt_sack_1_def tcp_opt_sack_2_def tcp_opt_sack_3_def tcp_opt_sack_4_def

lemma big_tlv_node: "tlv_nodes xdp2_parser_big_ether = big_tlv_nodes"
  by (simp add: xdp2_parser_big_ether_def XDP2_PARSER_def)

lemma big_sack_len_keyed: "len_keyed xdp2_parser_big_ether id_opt_sack"
  by (simp add: len_keyed_def big_tlv_node big_tlv_nodes_def opt_node_simps make_node_simps proto_simps)

lemma big_tlv_nodes_ok:
  assumes "i \<in> big_tlv_ids"
  shows "\<exists>nd. tlv_nodes xdp2_parser_big_ether i = Some nd \<and>
    tlv_node_ok xdp2_parser_big_ether p (mem_ok n) (frame_fits n) big_tlv_ids opt_bytes opt_rank i nd"
  using assms unfolding big_tlv_ids_cases big_tlv_node
  by (elim disjE; simp add: big_tlv_nodes_def tlv_node_ok_def opt_node_simps make_node_simps
      tcp_sack_tlv_table_def opt_bytes_def opt_rank_def templates_ok big_sack_len_keyed)

lemma big_tcp_options_ok:
  assumes "tlv_proto_table tn = Some tcp_tlv_table" "tlv_wildcard_node tn = None"
  shows "tlvs_node_ok xdp2_parser_big_ether p big_tlv_ids opt_bytes opt_rank 2 tn"
proof -
  have "tlv_entries tn = {id_opt_mss, id_opt_window_scaling, id_opt_timestamp, id_opt_sack}"
    using assms by (auto simp: tlv_entries_def tcp_tlv_table_def)
  then show ?thesis
    using assms tcp_option_ok [of p] tlv_null_ok [of p]
    by (simp add: tlvs_node_ok_def tlv_entry_ok_def big_tlv_node big_tlv_nodes_def opt_node_simps
        make_node_simps opt_bytes_def opt_rank_def)
       (simp add: proto_simps)
qed

lemma big_tcp_node_ok: "big_node_ok n p tcp_node xdp2_parse_tcp_tlvs"
proof -
  have min: "unat (pd_min_len xdp2_parse_tcp_tlvs) = 20" by (simp add: proto_simps)
  have ext: "extract_ok (mem_ok n) (frame_fits n) p 20 (Some XDP2_METADATA_TEMP_ports_off)"
    by (rule extract_ok_mono [where m = 4]) (simp_all add: templates_ok)
  have sup: "pd_super xdp2_parse_tcp_tlvs = TlvsDef tcp_tlvs_def" by (simp add: xdp2_parse_tcp_tlvs_def)
  show ?thesis
    unfolding tcp_node_def
    by (rule make_leaf_tlvs_node_ok [OF _ _ sup]) (simp_all only: min ext proto_ok big_tcp_options_ok)
qed

lemma gre_leaf_tables_ok:
  "ff_leaf_table_ok (mem_ok n) (frame_fits n) p gre_flag_fields gre_v0_flag_fields_table"
  "ff_leaf_table_ok (mem_ok n) (frame_fits n) p pptp_gre_flag_fields gre_v1_flag_fields_table"
  by (auto simp: ff_leaf_table_ok_def leaf_ok_def gre_v0_flag_fields_table_def gre_v1_flag_fields_table_def
      gre_flag_fields_def pptp_gre_flag_fields_def be32_field_def gre_flag_csum_node_def gre_flag_key_node_def
      gre_flag_seq_node_def gre_pptp_flag_ack_node_def gre_pptp_flag_key_node_def gre_pptp_flag_seq_node_def
      make_node_simps templates_ok)

lemma big_gre_v0_node_ok: "big_node_ok n p gre_v0_node xdp2_parse_gre_v0"
proof -
  have sup: "pd_super xdp2_parse_gre_v0 = FlagFieldsDef gre_v0_fields" by (simp add: xdp2_parse_gre_v0_def)
  show ?thesis
    unfolding gre_v0_node_def
  proof (rule make_flag_fields_node_ok [OF _ _ _ _ sup])
    show "ff_leaf_table_ok (mem_ok n) (frame_fits n) p (flag_fields gre_v0_fields) gre_v0_flag_fields_table"
      by (simp add: gre_v0_fields_def gre_leaf_tables_ok)
  qed (rule proto_ok big_tables_in | assumption | simp add: xdp2_parse_gre_v0_def proto_simps templates_ok)+
qed

lemma big_gre_v1_node_ok: "big_node_ok n p gre_v1_node xdp2_parse_gre_v1"
proof -
  have sup: "pd_super xdp2_parse_gre_v1 = FlagFieldsDef gre_v1_fields" by (simp add: xdp2_parse_gre_v1_def)
  show ?thesis
    unfolding gre_v1_node_def
  proof (rule make_flag_fields_autonext_node_ok [OF _ _ _ sup])
    show "ff_leaf_table_ok (mem_ok n) (frame_fits n) p (flag_fields gre_v1_fields) gre_v1_flag_fields_table"
      by (simp add: gre_v1_fields_def gre_leaf_tables_ok)
  qed (rule proto_ok | assumption | simp add: xdp2_parse_gre_v1_def proto_simps templates_ok)+
qed

lemmas big_nodes_ok = big_plain_nodes_ok big_autonext_nodes_ok big_leaf_nodes_ok big_tcp_node_ok
  big_gre_v0_node_ok big_gre_v1_node_ok

lemma big_node_protos:
  "pn_proto_def ether_node = Some xdp2_parse_ether"
  "pn_proto_def ip_overlay_node = Some xdp2_parse_ip"
  "pn_proto_def ipv4_node = Some xdp2_parse_ipv4"
  "pn_proto_def ipv4_check_node = Some xdp2_parse_ipv4_check"
  "pn_proto_def ipv6_node = Some xdp2_parse_ipv6"
  "pn_proto_def ipv6_check_node = Some xdp2_parse_ipv6_check"
  "pn_proto_def ipv6_eh_node = Some xdp2_parse_ipv6_eh"
  "pn_proto_def ipv6_frag_node = Some xdp2_parse_ipv6_frag_eh"
  "pn_proto_def ppp_node = Some xdp2_parse_ppp"
  "pn_proto_def pppoe_node = Some xdp2_parse_pppoe"
  "pn_proto_def gre_base_node = Some xdp2_parse_gre_base"
  "pn_proto_def gre_v0_node = Some xdp2_parse_gre_v0"
  "pn_proto_def gre_v1_node = Some xdp2_parse_gre_v1"
  "pn_proto_def e8021AD_node = Some xdp2_parse_vlan"
  "pn_proto_def e8021Q_node = Some xdp2_parse_vlan"
  "pn_proto_def ipv4ip_node = Some xdp2_parse_ipv4ip"
  "pn_proto_def ipv6ip_node = Some xdp2_parse_ipv6ip"
  "pn_proto_def batman_node = Some xdp2_parse_batman"
  "pn_proto_def ports_node = Some xdp2_parse_ports"
  "pn_proto_def icmpv4_node = Some xdp2_parse_icmpv4"
  "pn_proto_def icmpv6_node = Some xdp2_parse_icmpv6"
  "pn_proto_def mpls_node = Some xdp2_parse_mpls"
  "pn_proto_def arp_node = Some xdp2_parse_arp"
  "pn_proto_def rarp_node = Some xdp2_parse_rarp"
  "pn_proto_def tipc_node = Some xdp2_parse_tipc"
  "pn_proto_def fcoe_node = Some xdp2_parse_fcoe"
  "pn_proto_def igmp_node = Some xdp2_parse_igmp"
  "pn_proto_def tcp_node = Some xdp2_parse_tcp_tlvs"
  by (simp_all add: make_node_simps
    ether_node_def ip_overlay_node_def ipv4_node_def ipv4_check_node_def ipv6_node_def
    ipv6_check_node_def ipv6_eh_node_def ipv6_frag_node_def ppp_node_def pppoe_node_def
    gre_base_node_def gre_v0_node_def gre_v1_node_def e8021AD_node_def e8021Q_node_def ipv4ip_node_def
    ipv6ip_node_def batman_node_def ports_node_def icmpv4_node_def icmpv6_node_def mpls_node_def
    arp_node_def rarp_node_def tipc_node_def fcoe_node_def igmp_node_def tcp_node_def)

lemma big_parse_nodes:
  "\<forall>i\<in>{..27}. \<exists>nd pd. big_nodes i = Some nd \<and> pn_proto_def nd = Some pd \<and> big_node_ok n p nd pd"
  by (simp add: atMost_nat_numeral big_nodes_def big_node_protos big_nodes_ok)

lemma big_config:
  "max_frames (config xdp2_parser_big_ether) = 5" "max_encaps (config xdp2_parser_big_ether) = 4"
  "metameta_size (config xdp2_parser_big_ether) = 0" "frame_size (config xdp2_parser_big_ether) = 200"
  "okay_node (config xdp2_parser_big_ether) = None" "fail_node (config xdp2_parser_big_ether) = None"
  "atencap_node (config xdp2_parser_big_ether) = None" "nodes xdp2_parser_big_ether = big_nodes"
  "root_node xdp2_parser_big_ether = id_ether" "parser_type xdp2_parser_big_ether = XDP2_GENERIC"
  by (simp_all add: xdp2_parser_big_ether_def XDP2_PARSER_def XDP2_PARSER_CONFIG_DEFAULTS_def proto_simps)

text \<open>With the five frames of \<open>struct xdp2_parser_big_metadata\<close>, of which at most four
  encapsulations are used beside the first, the graph keeps the contract on every packet.\<close>

interpretation big_ether: parse_graph xdp2_parser_big_ether p "mem_ok sizeof_big_metadata"
    "frame_fits sizeof_big_metadata" big_tlv_ids opt_bytes opt_rank big_ids 2
  for p
proof unfold_locales
  fix i assume "i \<in> big_tlv_ids"
  then show "\<exists>nd. tlv_nodes xdp2_parser_big_ether i = Some nd \<and>
      tlv_node_ok xdp2_parser_big_ether p (mem_ok sizeof_big_metadata) (frame_fits sizeof_big_metadata)
        big_tlv_ids opt_bytes opt_rank i nd"
    by (rule big_tlv_nodes_ok)
next
  fix i assume "i \<in> big_ids"
  then show "\<exists>nd pd. nodes xdp2_parser_big_ether i = Some nd \<and> pn_proto_def nd = Some pd \<and>
      big_node_ok sizeof_big_metadata p nd pd"
    using big_parse_nodes [of p sizeof_big_metadata] by (simp add: big_config big_ids_def)
qed (auto simp: big_config frame_fits_def exit_node_ok_def proto_simps)

end
