(* ===== verification/Parser_Big_Flow.thy ===== *)
theory Parser_Big_Flow
  imports Parser_Big
begin

text \<open>
  The path of the big parser through Ethernet and IPv4 to the ports of a transport protocol,
  step by step: what one iteration of \<open>__xdp2_parse\<close> does at each of the nodes, and what the
  frame holds afterwards.
\<close>

text \<open>One iteration at a plain node without handlers.\<close>

definition plain_node :: "'m xdp2_parse_node \<Rightarrow> bool" where
  "plain_node nd \<longleftrightarrow> pn_node_type nd = XDP2_NODE_TYPE_PLAIN \<and> pn_handler nd = None \<and>
     pn_post_handler nd = None \<and> pn_flags nd = 0"

definition past_header :: "xdp2_proto_def \<Rightarrow> ssize_t \<Rightarrow> 'm pstate \<Rightarrow> 'm pstate" where
  "past_header pd hlen st =
     (if pd_overlay pd then st else st\<lparr>ps_hdr := ps_hdr st + unat hlen, ps_len := ps_len st - hlen\<rparr>)"

lemma hdr_offset_set_last [simp]: "xdp2_parse_hdr_offset h (set_last_node n ctrl) = xdp2_parse_hdr_offset h ctrl"
  by (simp add: xdp2_parse_hdr_offset_def set_last_node_def)

lemma pkt_set_last [simp]: "pkt (set_last_node n ctrl) = pkt ctrl" "encaps (var (set_last_node n ctrl)) = encaps (var ctrl)"
  by (simp_all add: set_last_node_def)

lemma plain_step:
  assumes "nodes P n = Some nd" "ps_node st = Some n" "pn_proto_def nd = Some pd" "plain_node nd"
    "header_length pd p (ps_hdr st) (ps_len st) = Ok (Inr hlen)"
    "call_extract (pn_extract_metadata nd) p (Some (ps_hdr st)) hlen (ps_frame st)
       (set_last_node (Some n) (ps_ctrl st)) (ps_us st) = Ok us"
  shows "parse_step fuel P p st =
    to_next P p nd pd hlen (st\<lparr>ps_ctrl := set_last_node (Some n) (ps_ctrl st), ps_us := us\<rparr>)"
  using assms by (simp add: parse_step_def deref_def parse_super_def call_handler_def plain_node_def)

lemma to_next_table:
  assumes "plain_node nd" "pn_proto_table nd = Some t" "\<not> pd_encap pd"
    "op_next_proto_keyin (pd_ops pd) = None" "op_next_proto (pd_ops pd) = Some f"
    "f p (ps_hdr st) = Ok ty" "0 \<le> ty" "lookup_node ty t = Some m"
  shows "to_next P p nd pd hlen st = Ok (Continue ((past_header pd hlen st)\<lparr>ps_node := Some m\<rparr>))"
  using assms
  by (simp add: to_next_def encap_step_def find_next_def next_type_def advance_def past_header_def plain_node_def)

lemma to_next_autonext:
  assumes "plain_node nd" "pn_proto_table nd = None" "pn_wildcard_node nd = Some w" "\<not> pd_encap pd"
  shows "to_next P p nd pd hlen st = Ok (Continue ((past_header pd hlen st)\<lparr>ps_node := Some w\<rparr>))"
  using assms
  by (simp add: to_next_def encap_step_def find_next_def wildcard_next_def advance_def past_header_def plain_node_def)

lemma to_next_leaf:
  assumes "pn_proto_table nd = None" "pn_wildcard_node nd = None"
  shows "to_next P p nd pd hlen st = Ok (Out XDP2_STOP_OKAY st)"
  using assms by (simp add: to_next_def)

lemma big_plain_nodes:
  "plain_node ether_node" "plain_node ipv4_check_node" "plain_node ipv4_node" "plain_node ports_node"
  by (simp_all add: plain_node_def make_node_simps ether_node_def ipv4_check_node_def ipv4_node_def ports_node_def)

lemma big_lookups:
  "nodes xdp2_parser_big_ether id_ether = Some ether_node"
  "nodes xdp2_parser_big_ether id_ipv4_check = Some ipv4_check_node"
  "nodes xdp2_parser_big_ether id_ipv4 = Some ipv4_node"
  "nodes xdp2_parser_big_ether id_ports = Some ports_node"
  by (simp_all add: big_config big_nodes_def)

lemma upd_frame_0:
  "mem_ok n us \<Longrightarrow> 200 \<le> n \<Longrightarrow> upd_frame 0 g us =
     Ok (us\<lparr>umeta := (umeta us)\<lparr>fm_frames := (fm_frames (umeta us))(0 := g (fm_frames (umeta us) 0))\<rparr>\<rparr>)"
  by (simp add: upd_frame_def mem_ok_def sizeof_metadata_all_def)

definition frame_set :: "(xdp2_metadata_all \<Rightarrow> xdp2_metadata_all) \<Rightarrow> frame_mem ustate \<Rightarrow> frame_mem ustate" where
  "frame_set g us = us\<lparr>umeta := (umeta us)\<lparr>fm_frames := (fm_frames (umeta us))(0 := g (fm_frames (umeta us) 0))\<rparr>\<rparr>"

text \<open>The state after a step of the big parser that stays in the first frame: the next node,
  the header position, and the frame.\<close>

definition goes_to ::
  "frame_mem pstate \<Rightarrow> node_id \<Rightarrow> nat \<Rightarrow> (xdp2_metadata_all \<Rightarrow> xdp2_metadata_all) \<Rightarrow> frame_mem pstate \<Rightarrow> bool" where
  "goes_to st n h g st' \<longleftrightarrow> ps_node st' = Some n \<and> ps_hdr st' = ps_hdr st + h \<and>
     ps_len st' = ps_len st - of_nat h \<and> ps_frame st' = ps_frame st \<and>
     ps_frame_num st' = ps_frame_num st \<and> pkt (ps_ctrl st') = pkt (ps_ctrl st) \<and>
     encaps (var (ps_ctrl st')) = encaps (var (ps_ctrl st)) \<and> ps_us st' = frame_set g (ps_us st)"

definition ether_frame :: "packet \<Rightarrow> xdp2_ctrl_data \<Rightarrow> xdp2_metadata_all \<Rightarrow> xdp2_metadata_all" where
  "ether_frame p ctrl f = f\<lparr>md_l2_off := ucast (xdp2_parse_hdr_offset 0 ctrl),
     md_eth_proto := htons 0x0800, md_eth_addrs := take 12 p\<rparr>"

lemma ether_step:
  assumes "ps_node st = Some id_ether" "ps_hdr st = 0" "ps_frame st = 0" "14 \<le> unat (ps_len st)"
    "unat (ps_len st) \<le> length p" "rd16 p 12 = Ok (htons 0x0800)" "mem_ok n (ps_us st)" "200 \<le> n"
  shows "\<exists>st'. parse_step fuel xdp2_parser_big_ether p st = Ok (Continue st') \<and>
    goes_to st id_ipv4_check 14 (ether_frame p (ps_ctrl st)) st'"
proof -
  have h: "header_length xdp2_parse_ether p (ps_hdr st) (ps_len st) = Ok (Inr 14)"
    using assms by (simp add: header_length_def proto_simps word_less_nat_alt)
  have e: "call_extract (pn_extract_metadata ether_node) p (Some (ps_hdr st)) 14 (ps_frame st)
       (set_last_node (Some id_ether) (ps_ctrl st)) (ps_us st) = Ok (frame_set (ether_frame p (ps_ctrl st)) (ps_us st))"
    using assms
    by (simp add: call_extract_def ether_node_def make_node_simps XDP2_METADATA_TEMP_ether_off_def
      template_def rd_bytes_def upd_frame_0 frame_set_def ether_frame_def)
  have l: "lookup_node (uint (htons 0x0800)) ether_table = Some id_ipv4_check"
    by (simp add: lookup_node_def ether_table_def)
  show ?thesis
    unfolding plain_step [OF big_lookups(1) assms(1) big_node_protos(1) big_plain_nodes(1) h e]
    using assms(2,6) l
    by (subst to_next_table [where t = ether_table and f = ether_proto and ty = "uint (htons 0x0800)"])
      (simp_all add: ether_node_def make_node_simps proto_simps past_header_def plain_node_def goes_to_def)
qed

text \<open>The IPv4 header: the version, the header length in bytes and the first-fragment test.\<close>

definition ipv4_at :: "packet \<Rightarrow> nat \<Rightarrow> nat \<Rightarrow> u16 \<Rightarrow> bool" where
  "ipv4_at p h ihl fo \<longleftrightarrow> h + ihl \<le> length p \<and> 20 \<le> ihl \<and> drop_bit 4 (p ! h) = 4 \<and>
     unat (p ! h AND 0xF) * 4 = ihl \<and>
     rd16 p (h + 6) = Ok fo \<and> fo AND htons IP_OFFSET = 0"

lemma ipv4_len_at:
  assumes "ipv4_at p h ihl fo"
  shows "ipv4_len p h = Ok (of_nat ihl)" "ihl \<le> 60"
proof -
  have b: "h < length p" using assms by (simp add: ipv4_at_def)
  have "p ! h AND 0xF = take_bit 4 (p ! h)" by (simp add: take_bit_eq_mask mask_eq_exp_minus_1)
  then have lt: "unat (p ! h AND 0xF) < 16"
    using take_bit_nat_less_exp [of 4 "unat (p ! h)"] by (simp add: unsigned_take_bit_eq)
  then show "ihl \<le> 60" using assms by (simp add: ipv4_at_def)
  have "(ucast (p ! h AND 0xF) * 4 :: size_t) = of_nat ihl"
    using assms lt by (intro word_unat_eq_iff [THEN iffD2]) (simp add: ipv4_at_def unat_word_ariths unat_of_nat)
  then show "ipv4_len p h = Ok (of_nat ihl)"
    using b by (simp add: ipv4_len_def rd8_def)
qed

lemma ipv4_check_step:
  assumes "ps_node st = Some id_ipv4_check" "ipv4_at p (ps_hdr st) ihl fo" "ihl \<le> unat (ps_len st)"
  shows "\<exists>st'. parse_step fuel xdp2_parser_big_ether p st = Ok (Continue st') \<and> goes_to st id_ipv4 0 id st'"
proof -
  have ihl: "20 \<le> ihl" "ihl \<le> 60" using assms(2) ipv4_len_at by (auto simp: ipv4_at_def)
  then have u: "unat (of_nat ihl :: size_t) = ihl" by (simp add: unat_of_nat)
  have s: "sint (of_nat ihl :: size_t) = int ihl"
    using ihl u by (subst sint_nonneg_eq) simp_all
  have h: "header_length xdp2_parse_ipv4_check p (ps_hdr st) (ps_len st) = Ok (Inr (of_nat ihl))"
    using assms ihl u s ipv4_len_at(1) [OF assms(2)]
    by (simp add: header_length_def xdp2_parse_ipv4_check_def ipv4_length_check_def proto_def0_def parse_ops0_def
       word_less_nat_alt ipv4_at_def rd8_def)
  have e: "call_extract (pn_extract_metadata ipv4_check_node) p (Some (ps_hdr st)) (of_nat ihl) (ps_frame st)
       (set_last_node (Some id_ipv4_check) (ps_ctrl st)) (ps_us st) = Ok (ps_us st)"
    by (simp add: call_extract_def ipv4_check_node_def make_node_simps)
  show ?thesis
    unfolding plain_step [OF big_lookups(2) assms(1) big_node_protos(4) big_plain_nodes(2) h e]
    by (subst to_next_autonext [where w = id_ipv4])
      (simp_all add: ipv4_check_node_def make_node_simps proto_simps past_header_def plain_node_def goes_to_def frame_set_def)
qed

definition ipv4_frame :: "packet \<Rightarrow> nat \<Rightarrow> u16 \<Rightarrow> xdp2_ctrl_data \<Rightarrow> xdp2_metadata_all \<Rightarrow> xdp2_metadata_all" where
  "ipv4_frame p h fo ctrl f =
     (if fo AND htons (IP_MF OR IP_OFFSET) \<noteq> 0 then f\<lparr>md_is_fragment := 1, md_first_frag := 1\<rparr> else f)
     \<lparr>md_l3_off := ucast (xdp2_parse_hdr_offset h ctrl), md_addr_type := XDP2_ADDR_TYPE_IPV4,
      md_ip_proto := p ! (h + 9), md_addrs := overwrite (take 8 (drop (h + 12) p)) (md_addrs f)\<rparr>"

lemma ipv4_header_length:
  assumes "ipv4_at p h ihl fo" "ihl \<le> unat len"
  shows "header_length xdp2_parse_ipv4 p h len = Ok (Inr (of_nat ihl))"
proof -
  have ihl: "20 \<le> ihl" "ihl \<le> 60" using assms(1) ipv4_len_at by (auto simp: ipv4_at_def)
  then have u: "unat (of_nat ihl :: size_t) = ihl" by (simp add: unat_of_nat)
  have s: "sint (of_nat ihl :: size_t) = int ihl"
    using ihl u by (subst sint_nonneg_eq) simp_all
  show ?thesis using assms ihl u s ipv4_len_at(1) [OF assms(1)]
    by (simp add: header_length_def xdp2_parse_ipv4_def ipv4_length_def proto_def0_def parse_ops0_def
       word_less_nat_alt)
qed

lemma ipv4_step:
  assumes "ps_node st = Some id_ipv4" "ipv4_at p (ps_hdr st) ihl fo" "ihl \<le> unat (ps_len st)"
    "ps_frame st = 0" "mem_ok n (ps_us st)" "200 \<le> n" "lookup_node (uint (p ! (ps_hdr st + 9))) ipv4_table = Some m"
  shows "\<exists>st'. parse_step fuel xdp2_parser_big_ether p st = Ok (Continue st') \<and>
    goes_to st m ihl (ipv4_frame p (ps_hdr st) fo (ps_ctrl st)) st'"
proof -
  let ?h = "ps_hdr st"
  have ihl: "20 \<le> ihl" "ihl \<le> 60" "?h + ihl \<le> length p"
    and fo: "rd16 p (?h + 6) = Ok fo" "fo AND htons IP_OFFSET = 0"
    using assms(2) ipv4_len_at by (auto simp: ipv4_at_def)
  then have u: "unat (of_nat ihl :: size_t) = ihl" by (simp add: unat_of_nat)
  note h = ipv4_header_length [OF assms(2,3)]
  have e: "call_extract (pn_extract_metadata ipv4_node) p (Some ?h) (of_nat ihl) (ps_frame st)
       (set_last_node (Some id_ipv4) (ps_ctrl st)) (ps_us st) =
     Ok (frame_set (ipv4_frame p ?h fo (ps_ctrl st)) (ps_us st))"
    using assms(4-6) fo ihl
    by (simp add: call_extract_def ipv4_node_def make_node_simps XDP2_METADATA_TEMP_ipv4_def ipv4_frame_def
      template_def rd_bytes_def rd8_def ip_is_fragment_def upd_frame_0 frame_set_def)
  have f: "ipv4_proto p ?h = Ok (uint (p ! (?h + 9)))"
    using fo ihl by (simp add: ipv4_proto_def ip_is_fragment_def rd8_def)
  show ?thesis
    unfolding plain_step [OF big_lookups(3) assms(1) big_node_protos(3) big_plain_nodes(3) h e]
    using f assms(7) u
    by (subst to_next_table [where t = ipv4_table and f = ipv4_proto and m = m])
      (simp_all add: ipv4_node_def make_node_simps xdp2_parse_ipv4_def proto_def0_def parse_ops0_def
        past_header_def plain_node_def goes_to_def)
qed

lemma ports_step:
  assumes "ps_node st = Some id_ports" "4 \<le> unat (ps_len st)" "ps_hdr st + unat (ps_len st) \<le> length p"
    "ps_frame st = 0" "mem_ok n (ps_us st)" "200 \<le> n"
  shows "\<exists>sp dp. rd16 p (ps_hdr st) = Ok sp \<and> rd16 p (ps_hdr st + 2) = Ok dp \<and>
      parse_step fuel xdp2_parser_big_ether p st =
      Ok (Out XDP2_STOP_OKAY (st\<lparr>ps_ctrl := set_last_node (Some id_ports) (ps_ctrl st),
        ps_us := frame_set (\<lambda>f. f\<lparr>md_src_port := sp, md_dst_port := dp,
          md_l4_off := ucast (xdp2_parse_hdr_offset (ps_hdr st) (ps_ctrl st))\<rparr>) (ps_us st)\<rparr>))"
proof -
  obtain sp dp where r: "rd16 p (ps_hdr st) = Ok sp" "rd16 p (ps_hdr st + 2) = Ok dp"
    using assms(2,3) by (simp add: rd16_def)
  have h: "header_length xdp2_parse_ports p (ps_hdr st) (ps_len st) = Ok (Inr 4)"
    using assms by (simp add: header_length_def proto_simps word_less_nat_alt)
  have e: "call_extract (pn_extract_metadata ports_node) p (Some (ps_hdr st)) 4 (ps_frame st)
       (set_last_node (Some id_ports) (ps_ctrl st)) (ps_us st) =
     Ok (frame_set (\<lambda>f. f\<lparr>md_src_port := sp, md_dst_port := dp,
          md_l4_off := ucast (xdp2_parse_hdr_offset (ps_hdr st) (ps_ctrl st))\<rparr>) (ps_us st))"
    using assms r
    by (simp add: call_extract_def ports_node_def make_node_simps XDP2_METADATA_TEMP_ports_off_def
      template_def rd_ports_def upd_frame_0 frame_set_def)
  show ?thesis
    unfolding plain_step [OF big_lookups(4) assms(1) big_node_protos(19) big_plain_nodes(4) h e]
    using r by (simp add: to_next_leaf ports_node_def make_node_simps)
qed

lemma mem_ok_frame_set: "mem_ok n us \<Longrightarrow> (\<And>f. frame_ok f \<Longrightarrow> frame_ok (g f)) \<Longrightarrow> mem_ok n (frame_set g us)"
  by (simp add: mem_ok_def frame_set_def)

lemma parse_loop_Continue:
  "parse_step fuel P p st = Ok (Continue st') \<Longrightarrow> 0 < k \<Longrightarrow> parse_loop k fuel P p st = parse_loop (k - 1) fuel P p st'"
  by (cases k) simp_all

lemma parse_loop_Out:
  "parse_step fuel P p st = Ok (Out ret st') \<Longrightarrow> parse_loop k fuel P p st = parse_out P p ret st'"
  by (cases k) simp_all

lemma frame_set_0 [simp]: "fm_frames (umeta (frame_set g us)) 0 = g (fm_frames (umeta us) 0)"
  by (simp add: frame_set_def)

text \<open>What the frame holds of the Ethernet and IPv4 headers.\<close>

definition l3_fields :: "packet \<Rightarrow> xdp2_ctrl_data \<Rightarrow> xdp2_metadata_all \<Rightarrow> bool" where
  "l3_fields p ctrl f \<longleftrightarrow>
     md_eth_proto f = htons 0x0800 \<and> md_eth_addrs f = take 12 p \<and>
     md_l2_off f = ucast (xdp2_parse_hdr_offset 0 ctrl) \<and>
     md_addr_type f = XDP2_ADDR_TYPE_IPV4 \<and> md_ip_proto f = p ! 23 \<and>
     md_l3_off f = ucast (xdp2_parse_hdr_offset 14 ctrl) \<and> take 8 (md_addrs f) = take 8 (drop 26 p)"

lemma ether_ipv4_steps:
  assumes "rd16 p 12 = Ok (htons 0x0800)" and "ipv4_at p 14 ihl fo" and "lookup_node (uint (p ! 23)) ipv4_table = Some m"
    and "14 + ihl \<le> unat len" and "unat len \<le> length p" and "mem_ok n mdata" and "200 \<le> n"
  shows "\<exists>st. parse_loop 255 fuel xdp2_parser_big_ether p (parse_init xdp2_parser_big_ether 0 len ctrl mdata) =
      parse_loop 252 fuel xdp2_parser_big_ether p st \<and> ps_node st = Some m \<and>
    ps_hdr st = 14 + ihl \<and> unat (ps_len st) = unat len - 14 - ihl \<and> ps_frame st = 0 \<and> ps_frame_num st = 0 \<and>
    mem_ok n (ps_us st) \<and> pkt (ps_ctrl st) = pkt ctrl \<and> encaps (var (ps_ctrl st)) = encaps (var ctrl) \<and> l3_fields p ctrl (fm_frames (umeta (ps_us st)) 0) \<and>
    (\<exists>c. fm_frames (umeta (ps_us st)) 0 = ipv4_frame p 14 fo c (ether_frame p ctrl (fm_frames (umeta mdata) 0)))"
proof -
  let ?P = xdp2_parser_big_ether
  let ?st0 = "parse_init ?P 0 len ctrl mdata"
  have init: "ps_node ?st0 = Some id_ether" "ps_hdr ?st0 = 0" "ps_frame ?st0 = 0" "ps_len ?st0 = len"
    "ps_us ?st0 = mdata" "ps_ctrl ?st0 = ctrl" "ps_frame_num ?st0 = 0"
    by (simp_all add: parse_init_def big_config)
  have ihl: "ihl \<le> 60" "20 \<le> ihl" "14 + ihl \<le> length p" using assms(2) ipv4_len_at by (auto simp: ipv4_at_def)
  have len: "unat (len - 14) = unat len - 14" "unat (len - 14 - of_nat ihl) = unat len - 14 - ihl"
    using assms(4) ihl by (simp_all add: unat_sub word_le_nat_alt unat_of_nat)
  have fit: "ihl \<le> unat (len - 14)" using assms(4) len by simp
  obtain st1 where s1: "parse_step fuel ?P p ?st0 = Ok (Continue st1)" "goes_to ?st0 id_ipv4_check 14 (ether_frame p ctrl) st1"
    using ether_step [of ?st0 p n fuel] assms by (auto simp: init)
  then have st1: "ps_hdr st1 = 14" "ps_len st1 = len - 14" "ps_node st1 = Some id_ipv4_check" "ps_frame st1 = 0"
    "ps_frame_num st1 = 0" "encaps (var (ps_ctrl st1)) = encaps (var ctrl)"
    by (simp_all add: goes_to_def init)
  obtain st2 where s2: "parse_step fuel ?P p st1 = Ok (Continue st2)" "goes_to st1 id_ipv4 0 id st2"
    using ipv4_check_step [of st1 p ihl fo fuel] assms(2) fit by (auto simp: st1)
  then have st2: "ps_hdr st2 = 14" "ps_len st2 = len - 14" "ps_node st2 = Some id_ipv4" "ps_frame st2 = 0"
    "ps_us st2 = frame_set (ether_frame p ctrl) mdata" "pkt (ps_ctrl st2) = pkt ctrl"
    "ps_frame_num st2 = 0" "encaps (var (ps_ctrl st2)) = encaps (var ctrl)"
    using s1 st1 by (simp_all add: goes_to_def init frame_set_def)
  have mem2: "mem_ok n (ps_us st2)"
    unfolding st2 by (rule mem_ok_frame_set [OF assms(6)]) (simp add: ether_frame_def frame_ok_def)
  obtain st3 where s3: "parse_step fuel ?P p st2 = Ok (Continue st3)"
    "goes_to st2 m ihl (ipv4_frame p 14 fo (ps_ctrl st2)) st3"
    using ipv4_step [of st2 p ihl fo n m fuel] assms(2,3,7) fit mem2 by (auto simp: st2(1-4))
  have "mem_ok n (ps_us st3)"
    using s3(2) ihl by (auto simp: goes_to_def ipv4_frame_def frame_ok_def length_overwrite intro!: mem_ok_frame_set [OF mem2])
  moreover have "parse_loop 255 fuel ?P p ?st0 = parse_loop 252 fuel ?P p st3"
    by (simp add: parse_loop_Continue [OF s1(1)] parse_loop_Continue [OF s2(1)] parse_loop_Continue [OF s3(1)])
  moreover have "l3_fields p ctrl (fm_frames (umeta (ps_us st3)) 0)"
    using s3(2) st2 ihl
    by (simp add: goes_to_def l3_fields_def overwrite_def ipv4_frame_def ether_frame_def xdp2_parse_hdr_offset_def)
  moreover have "fm_frames (umeta (ps_us st3)) 0 =
      ipv4_frame p 14 fo (ps_ctrl st2) (ether_frame p ctrl (fm_frames (umeta mdata) 0))"
    using s3(2) st2 by (simp add: goes_to_def)
  ultimately show ?thesis
    using s3(2) len st2 by (intro exI [of _ st3]) (simp add: goes_to_def, blast)
qed

text \<open>The frame after an Ethernet and an IPv4 header and ports.\<close>

lemma ether_ipv4_ports_parse:
  assumes "rd16 p 12 = Ok (htons 0x0800)" and "ipv4_at p 14 ihl fo" and "p ! 23 \<in> {17, 33, 132}"
    and "14 + ihl + 4 \<le> unat len" and "unat len \<le> length p" and "mem_ok n mdata" and "200 \<le> n"
  shows "\<exists>mdata' c sp dp. xdp2_parser_big_parse_ether entry_point fuel p len ctrl mdata = Ok (True, mdata') \<and>
    rd16 p (14 + ihl) = Ok sp \<and> rd16 p (14 + ihl + 2) = Ok dp \<and>
    l3_fields p ctrl (fm_frames (umeta mdata') 0) \<and>
    fm_frames (umeta mdata') 0 =
      (ipv4_frame p 14 fo c (ether_frame p ctrl (fm_frames (umeta mdata) 0)))
        \<lparr>md_src_port := sp, md_dst_port := dp, md_l4_off := ucast (xdp2_parse_hdr_offset (14 + ihl) ctrl)\<rparr>"
proof -
  have l: "14 + ihl \<le> unat len" using assms(4) by simp
  have m: "lookup_node (uint (p ! 23)) ipv4_table = Some id_ports"
    using assms(3) by (auto simp: lookup_node_def ipv4_table_def)
  obtain st c where st: "parse_loop 255 fuel xdp2_parser_big_ether p (parse_init xdp2_parser_big_ether 0 len ctrl mdata) =
      parse_loop 252 fuel xdp2_parser_big_ether p st" "ps_node st = Some id_ports"
    "ps_hdr st = 14 + ihl" "unat (ps_len st) = unat len - 14 - ihl" "ps_frame st = 0"
    "mem_ok n (ps_us st)" "pkt (ps_ctrl st) = pkt ctrl" "l3_fields p ctrl (fm_frames (umeta (ps_us st)) 0)"
    "fm_frames (umeta (ps_us st)) 0 = ipv4_frame p 14 fo c (ether_frame p ctrl (fm_frames (umeta mdata) 0))"
    using ether_ipv4_steps [OF assms(1,2) m l assms(5-7), of fuel ctrl] by blast
  obtain sp dp where r: "rd16 p (14 + ihl) = Ok sp" "rd16 p (14 + ihl + 2) = Ok dp"
    and s: "parse_step fuel xdp2_parser_big_ether p st =
      Ok (Out XDP2_STOP_OKAY (st\<lparr>ps_ctrl := set_last_node (Some id_ports) (ps_ctrl st),
        ps_us := frame_set (\<lambda>f. f\<lparr>md_src_port := sp, md_dst_port := dp,
          md_l4_off := ucast (xdp2_parse_hdr_offset (14 + ihl) (ps_ctrl st))\<rparr>) (ps_us st)\<rparr>))"
    using ports_step [of st p n fuel, unfolded st(3)] st(2,4-6) assms(4,5,7) by fastforce
  have o: "xdp2_parse_hdr_offset h (ps_ctrl st) = xdp2_parse_hdr_offset h ctrl" for h
    using st(7) by (simp add: xdp2_parse_hdr_offset_def)
  have "max_nodes (config xdp2_parser_big_ether) = 255"
    by (simp add: xdp2_parser_big_ether_def XDP2_PARSER_def XDP2_PARSER_CONFIG_DEFAULTS_def)
  then have "xdp2_parser_big_parse_ether entry_point fuel p len ctrl mdata =
      Ok (True, frame_set (\<lambda>f. f\<lparr>md_src_port := sp, md_dst_port := dp,
          md_l4_off := ucast (xdp2_parse_hdr_offset (14 + ihl) ctrl)\<rparr>) (ps_us st))"
    using o
    by (simp add: xdp2_parser_big_parse_ether_def parse_is_okay_def xdp2_parse_def big_config parse_result_def
        xdp2_parse_generic_def st(1) parse_loop_Out [OF s] parse_out_def XDP2_CODE_IS_OKAY_def xdp2_consts)
  then show ?thesis
    using r st(8) by (auto simp: st(9) l3_fields_def intro!: exI [of _ c])
qed

text \<open>An IPv4 header inside an IPv4 header: the parser goes on to the second frame.\<close>

lemma ipv4ip_step:
  assumes "ps_node st = Some id_ipv4ip" "20 \<le> unat (ps_len st)" "ps_frame st = 0" "ps_frame_num st = 0"
    "unat (encaps (var (ps_ctrl st))) < 4"
  shows "\<exists>st'. parse_step fuel xdp2_parser_big_ether p st = Ok (Continue st') \<and> ps_node st' = Some id_ipv4 \<and>
    ps_hdr st' = ps_hdr st \<and> ps_len st' = ps_len st \<and> ps_frame st' = 200 \<and> ps_us st' = ps_us st"
proof -
  have u: "unat (encaps (var (ps_ctrl st)) + 1) = unat (encaps (var (ps_ctrl st))) + 1"
    using assms(5) by (simp add: unat_word_ariths)
  have h: "header_length xdp2_parse_ipv4ip p (ps_hdr st) (ps_len st) = Ok (Inr 20)"
    using assms by (simp add: header_length_def proto_simps word_less_nat_alt)
  have e: "call_extract (pn_extract_metadata ipv4ip_node) p (Some (ps_hdr st)) 20 (ps_frame st)
       (set_last_node (Some id_ipv4ip) (ps_ctrl st)) (ps_us st) = Ok (ps_us st)"
    by (simp add: call_extract_def ipv4ip_node_def make_node_simps)
  have n: "nodes xdp2_parser_big_ether id_ipv4ip = Some ipv4ip_node" "pn_proto_def ipv4ip_node = Some xdp2_parse_ipv4ip"
    "plain_node ipv4ip_node"
    by (simp_all add: big_config big_nodes_def plain_node_def make_node_simps ipv4ip_node_def)
  show ?thesis
    unfolding plain_step [OF n(1) assms(1) n(2,3) h e]
    using assms(3-5) u
    by (simp add: to_next_def encap_step_def bump_encap_def big_config find_next_def wildcard_next_def advance_def inc_encaps_def
        ipv4ip_node_def make_node_simps proto_simps Let_def)
qed

lemma ipv4_step_overflows:
  assumes "ps_node st = Some id_ipv4" "ipv4_at p (ps_hdr st) ihl fo" "ihl \<le> unat (ps_len st)"
    "mem_ok n (ps_us st)" "n < ps_frame st + 200"
  shows "parse_step fuel xdp2_parser_big_ether p st = Err OutOfBounds"
proof -
  have "call_extract (pn_extract_metadata ipv4_node) p (Some (ps_hdr st)) (of_nat ihl) (ps_frame st)
       (set_last_node (Some id_ipv4) (ps_ctrl st)) (ps_us st) = Err OutOfBounds"
    using assms(2,4,5)
    by (simp add: call_extract_def ipv4_node_def make_node_simps XDP2_METADATA_TEMP_ipv4_def ipv4_at_def
      template_def rd_bytes_def rd8_def ip_is_fragment_def upd_frame_def mem_ok_def sizeof_metadata_all_def)
  then show ?thesis
    using assms(1) ipv4_header_length [OF assms(2,3)] by (simp add: parse_step_def deref_def big_lookups big_node_protos(3))
qed

lemma parse_loop_Err: "parse_step fuel P p st = Err e \<Longrightarrow> parse_loop k fuel P p st = Err e"
  by (cases k) simp_all

text \<open>An object that has no room for two frames.\<close>

lemma ether_ipip_overflows:
  assumes "rd16 p 12 = Ok (htons 0x0800)" "ipv4_at p 14 ihl fo" "p ! 23 = 4" "ipv4_at p (14 + ihl) ihl' fo'"
    and l: "14 + ihl + ihl' \<le> unat len" "unat len \<le> length p" and "mem_ok n mdata" "200 \<le> n" "n < 400"
    and "unat (encaps (var ctrl)) < 4"
  shows "xdp2_parser_big_parse_ether entry_point fuel p len ctrl mdata = Err OutOfBounds"
proof -
  have m: "lookup_node (uint (p ! 23)) ipv4_table = Some id_ipv4ip"
    unfolding assms(3) by (simp add: lookup_node_def ipv4_table_def)
  have "14 + ihl \<le> unat len" using l(1) by simp
  then obtain st where st: "parse_loop 255 fuel xdp2_parser_big_ether p (parse_init xdp2_parser_big_ether 0 len ctrl mdata) =
      parse_loop 252 fuel xdp2_parser_big_ether p st" "ps_node st = Some id_ipv4ip"
    "ps_hdr st = 14 + ihl" "unat (ps_len st) = unat len - 14 - ihl" "ps_frame st = 0" "ps_frame_num st = 0"
    "mem_ok n (ps_us st)" "encaps (var (ps_ctrl st)) = encaps (var ctrl)"
    using ether_ipv4_steps [OF assms(1,2) m _ l(2) assms(7,8), of fuel ctrl] by blast
  have "20 \<le> ihl'" using assms(4) by (simp add: ipv4_at_def)
  then have "20 \<le> unat (ps_len st)" using l(1) unfolding st(4) by linarith
  then obtain st' where st': "parse_step fuel xdp2_parser_big_ether p st = Ok (Continue st')" "ps_node st' = Some id_ipv4"
    "ps_hdr st' = ps_hdr st" "ps_len st' = ps_len st" "ps_frame st' = 200" "ps_us st' = ps_us st"
    using ipv4ip_step [of st fuel p] st(2,5,6,8) assms(10) by auto
  then have "parse_step fuel xdp2_parser_big_ether p st' = Err OutOfBounds"
    using ipv4_step_overflows [of st' p ihl' fo' n fuel] assms(4,9) l(1) st(3,4,7) by simp
  then have "parse_loop 252 fuel xdp2_parser_big_ether p st = Err OutOfBounds"
    using parse_loop_Continue [OF st'(1)] by (simp add: parse_loop_Err)
  moreover have "max_nodes (config xdp2_parser_big_ether) = 255"
    by (simp add: xdp2_parser_big_ether_def XDP2_PARSER_def XDP2_PARSER_CONFIG_DEFAULTS_def)
  ultimately show ?thesis
    by (simp add: xdp2_parser_big_parse_ether_def parse_is_okay_def xdp2_parse_def big_config parse_result_def
        xdp2_parse_generic_def st(1))
qed

section \<open>Hashing a flow\<close>

text \<open>A packet of a flow: Ethernet, IPv4 with protocol \<open>pr\<close>, first or only fragment, ports.\<close>

definition ipv4_flow :: "packet \<Rightarrow> size_t \<Rightarrow> u8 \<Rightarrow> u8 list \<Rightarrow> u8 list \<Rightarrow> u16 \<Rightarrow> u16 \<Rightarrow> bool" where
  "ipv4_flow p len pr sa da sp dp \<longleftrightarrow>
     (\<exists>ihl fo. rd16 p 12 = Ok (htons 0x0800) \<and> ipv4_at p 14 ihl fo \<and> p ! 23 = pr \<and>
        14 + ihl + 4 \<le> unat len \<and> unat len \<le> length p \<and>
        take 4 (drop 26 p) = sa \<and> take 4 (drop 30 p) = da \<and>
        rd16 p (14 + ihl) = Ok sp \<and> rd16 p (14 + ihl + 2) = Ok dp)"

lemma ipv4_flow_addrs: "ipv4_flow p len pr sa da sp dp \<Longrightarrow> length sa = 4 \<and> length da = 4"
  by (auto simp: ipv4_flow_def ipv4_at_def)

text \<open>The part of its frame that is hashed.\<close>

definition flow_frame :: "u8 \<Rightarrow> u8 list \<Rightarrow> u8 list \<Rightarrow> u16 \<Rightarrow> u16 \<Rightarrow> xdp2_metadata_all" where
  "flow_frame pr sa da sp dp =
     frame0\<lparr>md_addr_type := XDP2_ADDR_TYPE_IPV4, md_eth_proto := htons 0x0800, md_ip_proto := pr,
       md_addrs := sa @ da @ replicate 24 0, md_src_port := sp, md_dst_port := dp\<rparr>"

text \<open>Frames with the same address type and the same bytes from \<open>eth_proto\<close> on.\<close>

definition same_hashed :: "xdp2_metadata_all \<Rightarrow> xdp2_metadata_all \<Rightarrow> bool" where
  "same_hashed f g \<longleftrightarrow> md_addr_type f = md_addr_type g \<and> md_addrs f = md_addrs g \<and>
     md_src_port f = md_src_port g \<and> md_dst_port f = md_dst_port g \<and>
     md_eth_proto f = md_eth_proto g \<and> md_ip_proto f = md_ip_proto g \<and>
     md_flow_label f = md_flow_label g \<and> md_vlan f = md_vlan g \<and> md_keyid f = md_keyid g \<and>
     md_icmp f = md_icmp g"

lemma same_hashed_hash:
  assumes "same_hashed f g"
  shows "xdp2_parser_big_hash_frame key f = xdp2_parser_big_hash_frame key g"
proof -
  have "same_hashed (XDP2_HASH_CONSISTENTIFY f) (XDP2_HASH_CONSISTENTIFY g)"
    using assms
    by (simp add: same_hashed_def XDP2_HASH_CONSISTENTIFY_def v4_addr_def v6_addr_def swap_ends_def Let_def)
  then show ?thesis
    by (simp add: xdp2_parser_big_hash_frame_def XDP2_COMMON_COMPUTE_HASH_def same_hashed_def XDP2_HASH_START_def
        XDP2_HASH_LENGTH_def Let_def)
qed

lemma hash_ether_flow:
  assumes "ipv4_flow p len pr sa da sp dp" "pr \<in> {17, 33, 132}"
  shows "xdp2_parser_big_hash_ether entry_point fuel key p len ctrl =
    xdp2_parser_big_hash_frame key (flow_frame pr sa da sp dp)"
proof -
  obtain ihl fo where f: "rd16 p 12 = Ok (htons 0x0800)" "ipv4_at p 14 ihl fo" "p ! 23 = pr"
    "14 + ihl + 4 \<le> unat len" "unat len \<le> length p" "take 4 (drop 26 p) = sa" "take 4 (drop 30 p) = da"
    "rd16 p (14 + ihl) = Ok sp" "rd16 p (14 + ihl + 2) = Ok dp"
    using assms(1) by (auto simp: ipv4_flow_def)
  have mem: "mem_ok sizeof_big_metadata_one (mem0 sizeof_big_metadata_one)"
    by (simp add: mem_ok_def mem0_def frame0_def frame_ok_def)
  have pr: "p ! 23 \<in> {17, 33, 132}" using f(3) assms(2) by simp
  have n: "200 \<le> sizeof_big_metadata_one" by (simp add: proto_simps sizeof_big_metadata_one_def)
  obtain mdata' c where m: "xdp2_parser_big_parse_ether entry_point fuel p len ctrl (mem0 sizeof_big_metadata_one) = Ok (True, mdata')"
    "fm_frames (umeta mdata') 0 = (ipv4_frame p 14 fo c (ether_frame p ctrl frame0))
        \<lparr>md_src_port := sp, md_dst_port := dp, md_l4_off := ucast (xdp2_parse_hdr_offset (14 + ihl) ctrl)\<rparr>"
    using ether_ipv4_ports_parse [OF f(1,2) pr f(4,5) mem n, of entry_point fuel ctrl] f(8,9)
    by (auto simp: mem0_def)
  have "20 \<le> ihl" using f(2) by (simp add: ipv4_at_def)
  then have "34 \<le> length p" using f(4,5) by linarith
  moreover from this have "length sa = 4" "length da = 4" using f(6,7) by auto
  moreover have "take 8 (drop 26 p) = sa @ da" using take_more [of 4 4 26 p] f(6,7) by simp
  ultimately have "same_hashed (fm_frames (umeta mdata') 0) (flow_frame pr sa da sp dp)"
    using f(3) unfolding m(2)
    by (simp add: same_hashed_def flow_frame_def ipv4_frame_def ether_frame_def frame0_def overwrite_def)
  then show ?thesis
    by (simp add: xdp2_parser_big_hash_ether_def m(1) hash_parsed_def same_hashed_hash)
qed

lemma flow_frame_reverse:
  assumes "length sa = 4" "length da = 4"
  shows "flow_frame pr da sa dp sp = swap_ends 4 (flow_frame pr sa da sp dp)"
  using assms by (simp add: flow_frame_def swap_ends_def swap_blocks_def frame0_def)

lemma hash_frame_nonzero:
  assumes "frame_ok f"
  shows "\<exists>h. h \<noteq> 0 \<and> xdp2_parser_big_hash_frame key f = Ok h"
proof -
  have "frame_ok (XDP2_HASH_CONSISTENTIFY f)"
    using assms by (auto simp: XDP2_HASH_CONSISTENTIFY_def Let_def)
  then show ?thesis by (simp add: xdp2_parser_big_hash_frame_def common_hash_value Let_def)
qed

end
