(* ===== verification/Proto_Protobuf.thy ===== *)
theory Proto_Protobuf
  imports Proto_Base
begin

text \<open>
  Protocol buffers: \<open>src/include/xdp2/proto_defs/proto_protobuf.h\<close>.

  \<open>parse_varint\<close> shifts an \<open>int\<close>, so a shift by 32 or more, or one whose result is no
  \<open>int\<close>, is undefined behaviour; the model has \<open>shl_int\<close> for it. A value is \<open>None\<close> when
  the function returns without writing it. A maximal length of zero means no limit, which
  is also what \<open>protobuf_len\<close> passes on when the tag used up the buffer.
\<close>

definition shl_int :: "int \<Rightarrow> nat \<Rightarrow> int res" where
  "shl_int v shift =
     (if 32 \<le> shift \<or> v * 2 ^ shift \<ge> 2 ^ 31 then Err UndefinedShift else Ok (v * 2 ^ shift))"

primrec varint_loop ::
  "nat \<Rightarrow> packet \<Rightarrow> nat \<Rightarrow> size_t \<Rightarrow> nat \<Rightarrow> nat \<Rightarrow> u64 \<Rightarrow> (u64 option \<times> ssize_t) res" where
  "varint_loop 0 p v max_len i shift result = Ok (Some 0, ret_len XDP2_STOP_TLV_LENGTH)"
| "varint_loop (Suc k) p v max_len i shift result =
     (if max_len \<noteq> 0 \<and> unat max_len \<le> i then Ok (None, ret_len XDP2_STOP_TLV_LENGTH)
      else
        bind_res (rd8 p (v + i)) (\<lambda>ch.
        bind_res (shl_int (uint (ch AND NOT 0x80)) shift) (\<lambda>x.
        let result = result + word_of_int x
        in if ch AND 0x80 = 0 then Ok (Some result, of_nat (i + 1))
           else varint_loop k p v max_len (i + 1) (shift + 7) result)))"

definition parse_varint :: "packet \<Rightarrow> nat \<Rightarrow> size_t \<Rightarrow> (u64 option \<times> ssize_t) res" where
  "parse_varint p v max_len = varint_loop 11 p v max_len 0 0 0"

text \<open>\<open>parse_string\<close>: the return value and what it stores through \<open>ptr\<close> and \<open>str_len\<close>.\<close>

definition parse_string :: "packet \<Rightarrow> nat \<Rightarrow> size_t \<Rightarrow> (ssize_t \<times> (nat \<times> size_t) option) res" where
  "parse_string p v max_len =
     bind_res (parse_varint p v max_len) (\<lambda>(value, len).
     if sint len < 0 then Ok (len, None)
     else (case value of
             None \<Rightarrow> Ok (len, None)
           | Some value \<Rightarrow>
               let total = len + value
               in Ok (if max_len = 0 \<or> total \<le> max_len then total else ret_len XDP2_STOP_TLV_LENGTH,
                      Some (v + unat len, value))))"

definition protobuf_len :: len_fn where
  "protobuf_len p v max_len =
     bind_res (parse_varint p v max_len) (\<lambda>(value, tl_len).
     if sint tl_len < 0 then Ok tl_len
     else (case value of
             None \<Rightarrow> Ok tl_len
           | Some value \<Rightarrow>
               let v' = v + unat tl_len; max_len' = max_len - tl_len; type = value AND 0x7
               in if type = 0 then
                    bind_res (parse_varint p v' max_len') (\<lambda>(_, v_len).
                    Ok (if sint v_len < 0 then v_len else tl_len + v_len))
                  else if type = 2 then
                    bind_res (parse_string p v' max_len') (\<lambda>(v_len, _).
                    Ok (if sint v_len < 0 then v_len else tl_len + v_len))
                  else Ok (ret_len XDP2_STOP_UNKNOWN_TLV)))"

text \<open>The loop of \<open>protobuf_top_len\<close>; it need not end, so it takes fuel.\<close>

primrec protobuf_top_loop :: "nat \<Rightarrow> packet \<Rightarrow> nat \<Rightarrow> size_t \<Rightarrow> size_t \<Rightarrow> ssize_t res" where
  "protobuf_top_loop 0 p v max_len omax_len = Err StillRunning"
| "protobuf_top_loop (Suc k) p v max_len omax_len =
     (if max_len = 0 then Ok omax_len
      else bind_res (protobuf_len p v max_len) (\<lambda>len.
        if sint len < 0 then Ok len
        else protobuf_top_loop k p (v + unat len) (max_len - len) omax_len))"

definition protobuf_top_len :: "nat \<Rightarrow> len_fn" where
  "protobuf_top_len fuel p v max_len = protobuf_top_loop fuel p v max_len max_len"

text \<open>\<open>protobuf_type\<close> and \<open>protobuf_nested_offset\<close> do not look at the return value of
  \<open>parse_varint\<close>; without a limit it always writes the value.\<close>

definition protobuf_type :: type_fn where
  "protobuf_type p v =
     bind_res (parse_varint p v 0) (\<lambda>(value, _).
     (case value of None \<Rightarrow> Err NullPointer
      | Some x \<Rightarrow> Ok (sint (ucast (drop_bit 3 x) :: 32 word))))"

definition protobuf_start_offset :: offset_fn where
  "protobuf_start_offset p hdr = Ok 0"

definition protobuf_nested_offset :: nested_fn where
  "protobuf_nested_offset p hdr len =
     bind_res (parse_varint p hdr 0) (\<lambda>(_, tl_len).
     bind_res (parse_varint p (hdr + unat tl_len) 0) (\<lambda>(_, v_len).
     Ok (tl_len + v_len)))"

definition protobufs_tlvs_def :: xdp2_proto_tlvs_def where
  "protobufs_tlvs_def = \<lparr>tlvs_len = Some protobuf_len, tlvs_type = protobuf_type,
     tlvs_start_offset = protobuf_start_offset, pad1_val = 0, eol_val = 0,
     pad1_enable = False, eol_enable = False, tlvs_min_len = 0\<rparr>"

definition xdp2_parse_protobufs :: "nat \<Rightarrow> xdp2_proto_def" where
  "xdp2_parse_protobufs fuel = proto_def0\<lparr>pd_node_type := XDP2_NODE_TYPE_TLVS,
     pd_name := ''Parse protobufs'', pd_ops := parse_ops0\<lparr>op_len := Some (protobuf_top_len fuel)\<rparr>,
     pd_super := TlvsDef protobufs_tlvs_def\<rparr>"

definition xdp2_parse_nested_protobuf :: xdp2_proto_tlv_def where
  "xdp2_parse_nested_protobuf = tlv_def0\<lparr>nested_offset := Some protobuf_nested_offset\<rparr>"

section \<open>Variable-length integers\<close>

text \<open>The reference encoding: seven bits a byte, low bits first, the top bit set on every
  byte but the last.\<close>

fun encode_varint :: "nat \<Rightarrow> u8 list" where
  "encode_varint n =
     (if n < 128 then [of_nat n] else of_nat (n mod 128 + 128) # encode_varint (n div 128))"

declare encode_varint.simps [simp del]

lemma and_not_128: "uint ((b :: u8) AND NOT 0x80) = int (unat b mod 128)"
proof -
  have "NOT (0x80 :: u8) = mask 7" by code_simp
  then have "b AND NOT 0x80 = take_bit 7 b" by (simp only: take_bit_eq_mask)
  moreover have "uint (take_bit 7 b) = take_bit 7 (uint b)" by (simp add: unsigned_take_bit_eq)
  ultimately show ?thesis by (simp add: take_bit_int_def of_nat_mod)
qed

lemma and_128: "(b :: u8) AND 0x80 = 0 \<longleftrightarrow> unat b < 128"
proof -
  have "b AND 2 ^ 7 = 0 \<longleftrightarrow> \<not> bit b 7" by (rule and_exp_eq_0_iff_not_bit)
  also have "bit b 7 \<longleftrightarrow> bit (unat b) 7" by (simp add: bit_unsigned_iff)
  also have "\<not> bit (unat b) 7 \<longleftrightarrow> even (unat b div 128)" by (simp add: bit_iff_odd)
  also have "\<dots> \<longleftrightarrow> unat b < 128"
  proof -
    have "unat b < 256" using unsigned_less [of b, where 'a = nat] by simp
    then have "unat b div 128 < 2" by auto
    then show ?thesis by (cases "unat b < 128") (auto simp: div_eq_0_iff less_2_cases_iff)
  qed
  finally show ?thesis by simp
qed

lemma encode_varint_nonempty: "encode_varint n \<noteq> []"
  by (subst encode_varint.simps) simp

lemma rd8_drop: "drop i p = x # xs \<Longrightarrow> rd8 p i = Ok x"
  by (metis drop_all hd_drop_conv_nth leI list.distinct(1) list.sel(1) rd8_def)

lemma drop_Suc_Cons: "drop i p = x # xs \<Longrightarrow> drop (Suc i) p = xs"
  by (metis drop_Suc list.sel(3) tl_drop)

text \<open>One round of the loop, with the seven bits \<open>d\<close> of the byte.\<close>

lemma varint_loop_byte:
  assumes "drop (v + i) p = b # rest" "max_len = 0 \<or> i < unat max_len"
    "unat b mod 128 = d" "\<not> 32 \<le> shift" "d * 2 ^ shift < 2 ^ 31"
  shows "varint_loop (Suc k) p v max_len i shift r =
    (if unat b < 128 then Ok (Some (r + of_nat (d * 2 ^ shift)), of_nat (i + 1))
     else varint_loop k p v max_len (i + 1) (shift + 7) (r + of_nat (d * 2 ^ shift)))"
proof -
  have "int d * 2 ^ shift = int (d * 2 ^ shift)" by simp
  also have "\<dots> < int (2 ^ 31)" using assms(5) by (simp only: of_nat_less_iff)
  finally have lt: "int d * 2 ^ shift < 2 ^ 31" by simp
  have u: "uint (b AND NOT 0x80) = int d" using assms(3) by (simp only: and_not_128)
  have s: "shl_int (int d) shift = Ok (int (d * 2 ^ shift))"
    using assms(4) lt by (simp add: shl_int_def)
  have lim: "\<not> (max_len \<noteq> 0 \<and> unat max_len \<le> i)" using assms(2) by auto
  show ?thesis
    unfolding varint_loop.simps rd8_drop [OF assms(1)] bind_res.simps u s Let_def
    using lim by (auto simp only: and_128 if_False if_True of_int_of_nat_eq split: if_splits)
qed

lemma varint_loop_ok:
  assumes "drop (v + i) p = encode_varint m @ rest" "m * 2 ^ (7 * i) < 2 ^ 31" "0 < m \<or> i = 0"
    "length (encode_varint m) \<le> k" "max_len = 0 \<or> i + length (encode_varint m) \<le> unat max_len"
  shows "varint_loop k p v max_len i (7 * i) r =
    Ok (Some (r + of_nat (m * 2 ^ (7 * i))), of_nat (i + length (encode_varint m)))"
  using assms
proof (induction m arbitrary: i k r rule: encode_varint.induct)
  case (1 m)
  have sh: "\<not> 32 \<le> 7 * i"
  proof
    assume a: "32 \<le> 7 * i"
    then have "(2::nat) ^ 32 \<le> 2 ^ (7 * i)" by (intro power_increasing) auto
    also have "\<dots> \<le> m * 2 ^ (7 * i)" using a "1.prems"(3) by auto
    finally show False using "1.prems"(2) by simp
  qed
  obtain k' where k: "k = Suc k'"
    using "1.prems"(4) encode_varint_nonempty [of m] by (cases k) auto
  let ?b = "of_nat (m mod 128 + (if m < 128 then 0 else 128)) :: u8"
  have b: "unat ?b = m mod 128 + (if m < 128 then 0 else 128)"
    by (rule unat_of_nat_lt) (auto intro: less_le_trans [of _ "128 + 128"])
  have e: "encode_varint m = ?b # (if m < 128 then [] else encode_varint (m div 128))"
    by (subst encode_varint.simps) simp
  have lt: "m mod 128 * 2 ^ (7 * i) < 2 ^ 31"
    using "1.prems"(2) by (rule le_less_trans [rotated]) simp
  have step: "varint_loop k p v max_len i (7 * i) r =
    (if m < 128 then Ok (Some (r + of_nat (m mod 128 * 2 ^ (7 * i))), of_nat (i + 1))
     else varint_loop k' p v max_len (i + 1) (7 * i + 7) (r + of_nat (m mod 128 * 2 ^ (7 * i))))"
    unfolding k using "1.prems"(1,5) e b sh lt
    by (subst varint_loop_byte [where b = ?b and d = "m mod 128"]) auto
  show ?case
  proof (cases "m < 128")
    case True
    then show ?thesis using step e by simp
  next
    case False
    have split: "m * 2 ^ (7 * i) = m mod 128 * 2 ^ (7 * i) + m div 128 * 2 ^ (7 * (i + 1))"
    proof -
      have "m * 2 ^ (7 * i) = (m mod 128 + m div 128 * 128) * 2 ^ (7 * i)" by simp
      also have "\<dots> = m mod 128 * 2 ^ (7 * i) + m div 128 * (128 * 2 ^ (7 * i))"
        by (simp only: distrib_right mult.assoc)
      also have "(128::nat) * 2 ^ (7 * i) = 2 ^ (7 * (i + 1))" by (simp add: power_add)
      finally show ?thesis .
    qed
    have "varint_loop k' p v max_len (i + 1) (7 * (i + 1)) (r + of_nat (m mod 128 * 2 ^ (7 * i))) =
        Ok (Some (r + of_nat (m mod 128 * 2 ^ (7 * i)) + of_nat (m div 128 * 2 ^ (7 * (i + 1)))),
            of_nat (i + 1 + length (encode_varint (m div 128))))"
      using False "1.prems" e k split
      by (intro "1.IH") (auto dest: drop_Suc_Cons)
    then show ?thesis using step False e split by (simp add: add.assoc add.commute [of "7 * i" 7])
  qed
qed

text \<open>Larger values: the shift of the \<open>int\<close> overflows.\<close>

lemma varint_loop_undef_byte:
  assumes "drop (v + i) p = b # rest" "max_len = 0 \<or> i < unat max_len"
    "32 \<le> shift \<or> 2 ^ 31 \<le> (unat b mod 128) * 2 ^ shift"
  shows "varint_loop (Suc k) p v max_len i shift r = Err UndefinedShift"
proof -
  have lim: "\<not> (max_len \<noteq> 0 \<and> unat max_len \<le> i)" using assms(2) by auto
  have "shl_int (int (unat b mod 128)) shift = Err UndefinedShift"
  proof (cases "32 \<le> shift")
    case False
    then have "int (2 ^ 31) \<le> int (unat b mod 128 * 2 ^ shift)" using assms(3) by (simp only: of_nat_le_iff simp_thms)
    then show ?thesis by (simp add: shl_int_def)
  qed (simp add: shl_int_def)
  then show ?thesis
    unfolding varint_loop.simps rd8_drop [OF assms(1)] bind_res.simps and_not_128
    using lim by (simp only: if_False bind_res.simps)
qed

lemma varint_digit_carry:
  fixes m :: nat
  assumes "2 ^ 31 \<le> m * 2 ^ (7 * i)" "m mod 128 * 2 ^ (7 * i) < 2 ^ 31" "\<not> 32 \<le> 7 * i"
  shows "2 ^ 31 \<le> m div 128 * 2 ^ (7 * (i + 1)) \<and> 128 \<le> m"
proof -
  have m: "128 \<le> m"
  proof (rule ccontr)
    assume "\<not> 128 \<le> m"
    then have "m mod 128 = m" by simp
    with assms(1,2) show False by (simp only: not_le [symmetric] simp_thms)
  qed
  have "2 ^ 31 \<le> m div 128 * 2 ^ (7 * (i + 1))"
  proof (cases "i = 4")
    case True
    have "1 \<le> m div 128" using m div_le_mono [of 128 m 128] by simp
    then have "1 * 2 ^ (7 * (i + 1)) \<le> m div 128 * 2 ^ (7 * (i + 1))" by (rule mult_le_mono1)
    moreover have "(2::nat) ^ 31 \<le> 2 ^ (7 * (i + 1))" unfolding True by simp
    ultimately show ?thesis by linarith
  next
    case False
    then have i: "7 * i \<le> 21" using assms(3) by auto
    have "(2::nat) ^ (24 - 7 * i) * 2 ^ (7 * (i + 1)) = 2 ^ (24 - 7 * i + 7 * (i + 1))"
      by (simp only: power_add)
    also have "24 - 7 * i + 7 * (i + 1) = 31" using i by simp
    finally have e: "(2::nat) ^ (24 - 7 * i) * 2 ^ (7 * (i + 1)) = 2 ^ 31" .
    show ?thesis
    proof (rule ccontr)
      assume "\<not> ?thesis"
      then have "m div 128 * 2 ^ (7 * (i + 1)) < 2 ^ (24 - 7 * i) * 2 ^ (7 * (i + 1))"
        unfolding e by (simp only: not_le)
      then have "m div 128 < 2 ^ (24 - 7 * i)" by (simp only: mult_less_cancel2)
      then have "m < 2 ^ (24 - 7 * i) * 128" by (simp only: div_less_iff_less_mult)
      then have "m * 2 ^ (7 * i) < 2 ^ (24 - 7 * i) * 128 * 2 ^ (7 * i)" by simp
      also have "\<dots> = 2 ^ (24 - 7 * i) * 2 ^ (7 * (i + 1))"
        by (simp only: mult.assoc distrib_left power_add) simp
      finally show False using assms(1) unfolding e by (simp only: not_le [symmetric] simp_thms)
    qed
  qed
  with m show ?thesis by simp
qed

lemma varint_loop_undef:
  assumes "drop (v + i) p = encode_varint m @ rest" "2 ^ 31 \<le> m * 2 ^ (7 * i)"
    "length (encode_varint m) \<le> k" "max_len = 0 \<or> i + length (encode_varint m) \<le> unat max_len"
  shows "varint_loop k p v max_len i (7 * i) r = Err UndefinedShift"
  using assms
proof (induction m arbitrary: i k r rule: encode_varint.induct)
  case (1 m)
  let ?b = "of_nat (m mod 128 + (if m < 128 then 0 else 128)) :: u8"
  have b: "unat ?b = m mod 128 + (if m < 128 then 0 else 128)"
    by (rule unat_of_nat_lt) (auto intro: less_le_trans [of _ "128 + 128"])
  have e: "encode_varint m = ?b # (if m < 128 then [] else encode_varint (m div 128))"
    by (subst encode_varint.simps) simp
  obtain k' where k: "k = Suc k'"
    using "1.prems"(3) encode_varint_nonempty [of m] by (cases k) auto
  have d: "drop (v + i) p = ?b # (if m < 128 then [] else encode_varint (m div 128)) @ rest"
    using "1.prems"(1) e by simp
  have lim: "max_len = 0 \<or> i < unat max_len" using "1.prems"(4) e by auto
  have bm: "unat ?b mod 128 = m mod 128" unfolding b by simp
  show ?case
  proof (cases "32 \<le> 7 * i \<or> 2 ^ 31 \<le> m mod 128 * 2 ^ (7 * i)")
    case True
    then show ?thesis unfolding k by (intro varint_loop_undef_byte [OF d lim]) (simp only: bm)
  next
    case False
    then have c: "2 ^ 31 \<le> m div 128 * 2 ^ (7 * (i + 1))" "128 \<le> m"
      using varint_digit_carry [OF "1.prems"(2)] by auto
    have "varint_loop k' p v max_len (i + 1) (7 * (i + 1)) (r + of_nat (m mod 128 * 2 ^ (7 * i))) =
        Err UndefinedShift"
      using c "1.prems" e k drop_Suc_Cons [OF d] by (intro "1.IH") auto
    moreover have "\<not> unat ?b < 128" unfolding b using c(2) by simp
    ultimately show ?thesis
      unfolding k using varint_loop_byte [OF d lim bm, of "7 * i" k' r] False
      by (simp add: add.commute [of "7 * i" 7])
  qed
qed

lemma length_encode_varint: "n < 2 ^ (7 * l) \<Longrightarrow> 0 < l \<Longrightarrow> length (encode_varint n) \<le> l"
proof (induction n arbitrary: l rule: encode_varint.induct)
  case (1 n)
  show ?case
  proof (cases "n < 128")
    case True
    then show ?thesis using "1.prems" by (simp add: encode_varint.simps)
  next
    case False
    then obtain l' where l: "l = Suc l'" "0 < l'"
      using "1.prems" by (cases l; cases "l - 1") auto
    then have "n div 128 < 2 ^ (7 * l')"
      using "1.prems"(1) by (simp add: power_add div_less_iff_less_mult mult.commute)
    from "1.IH" [OF False this l(2)] show ?thesis using False l by (subst encode_varint.simps) simp
  qed
qed

lemma parse_varint_encoded:
  assumes "n < 2 ^ 31" "drop v p = encode_varint n @ rest"
    "max_len = 0 \<or> length (encode_varint n) \<le> unat max_len"
  shows "parse_varint p v max_len = Ok (Some (of_nat n), of_nat (length (encode_varint n)))"
    and "length (encode_varint n) \<le> 5"
proof -
  show l: "length (encode_varint n) \<le> 5"
    by (rule length_encode_varint) (rule less_trans [OF assms(1)], simp_all)
  then show "parse_varint p v max_len = Ok (Some (of_nat n), of_nat (length (encode_varint n)))"
    using varint_loop_ok [of v 0 p n rest 11 max_len 0] assms by (simp add: parse_varint_def)
qed

lemma parse_varint_past_end: "length p \<le> v \<Longrightarrow> parse_varint p v 0 = Err OutOfBounds"
proof -
  assume a: "length p \<le> v"
  have "varint_loop (Suc 10) p v 0 0 0 0 = Err OutOfBounds"
    using a by (subst varint_loop.simps) (simp add: rd8_def)
  then show ?thesis by (simp add: parse_varint_def)
qed

lemma and_7: "(of_nat n :: u64) AND 7 = of_nat (n mod 8)"
proof -
  have "(7 :: u64) = mask 3" by code_simp
  then have "(of_nat n :: u64) AND 7 = take_bit 3 (of_nat n)" by (simp only: take_bit_eq_mask)
  also have "\<dots> = of_nat (take_bit 3 n)" by (simp add: take_bit_of_nat)
  also have "take_bit 3 n = n mod 8" by (simp add: take_bit_eq_mod)
  finally show ?thesis .
qed

section \<open>Properties\<close>

text \<open>C11: \<open>parse_varint\<close> decodes the varint encoding of every value below \<open>2 ^ 31\<close>, from any
  position of a buffer and whatever follows, and returns its length.\<close>

theorem varint_roundtrip:
  assumes "n < 2 ^ 31" and "drop v p = encode_varint n @ rest"
    and "max_len = 0 \<or> length (encode_varint n) \<le> unat max_len"
  shows "parse_varint p v max_len = Ok (Some (of_nat n), of_nat (length (encode_varint n)))"
  using assms by (rule parse_varint_encoded)

theorem varint_roundtrip_witness:
  "parse_varint [0xFF, 0xAC, 0x02, 0x07] 1 0 = Ok (Some (of_nat 300), of_nat (length (encode_varint 300)))"
proof -
  have "drop 1 [0xFF, 0xAC, 0x02, 0x07] = encode_varint 300 @ [0x07]" by (simp add: encode_varint.simps)
  then show ?thesis by (rule varint_roundtrip [rotated]) simp_all
qed

text \<open>C27: on the encoding of every larger 64-bit value \<open>parse_varint\<close> has undefined behaviour:
  it shifts an \<open>int\<close> out of its range before it adds it to the 64-bit result.\<close>

theorem varint_large_undefined:
  assumes "2 ^ 31 \<le> n" and "n < 2 ^ 64" and "drop v p = encode_varint n @ rest"
    and "max_len = 0 \<or> length (encode_varint n) \<le> unat max_len"
  shows "parse_varint p v max_len = Err UndefinedShift"
proof -
  have "length (encode_varint n) \<le> 10"
    by (rule length_encode_varint) (rule less_trans [OF assms(2)], simp_all)
  then show ?thesis
    using varint_loop_undef [of v 0 p n rest 11 max_len 0] assms by (simp add: parse_varint_def)
qed

theorem varint_large_undefined_witness:
  "parse_varint [0x80, 0x80, 0x80, 0x80, 0x08] 0 0 = Err UndefinedShift"
proof -
  have "drop 0 [0x80, 0x80, 0x80, 0x80, 0x08] = encode_varint 2147483648 @ []" by (simp add: encode_varint.simps)
  then show ?thesis by (rule varint_large_undefined [rotated 2]) simp_all
qed

text \<open>C28: \<open>protobuf_len\<close> reads past the end of every buffer that holds just the tag of a
  varint field: the remaining length is zero then, which \<open>parse_varint\<close> takes for no
  limit.\<close>

theorem protobuf_len_overreads:
  assumes "n < 2 ^ 31" and "n mod 8 = 0"
  shows "protobuf_len (encode_varint n) 0 (of_nat (length (encode_varint n))) = Err OutOfBounds"
proof -
  let ?l = "length (encode_varint n)"
  have l: "?l \<le> 5" using parse_varint_encoded(2) [OF assms(1), of 0 "encode_varint n" "[]" 0] by simp
  then have u: "unat (of_nat ?l :: size_t) = ?l" by (simp add: unat_of_nat)
  then have "parse_varint (encode_varint n) 0 (of_nat ?l) = Ok (Some (of_nat n), of_nat ?l)"
    using assms(1) by (intro parse_varint_encoded [where rest = "[]"]) simp_all
  moreover have "\<not> sint (of_nat ?l :: size_t) < 0" using u l by (simp add: sint_nonneg_eq)
  ultimately show ?thesis
    using assms(2) u parse_varint_past_end [of "encode_varint n" ?l] by (simp add: protobuf_len_def and_7)
qed

theorem protobuf_len_overreads_witness:
  "protobuf_len (encode_varint 8) 0 (of_nat (length (encode_varint 8))) = Err OutOfBounds"
  by (rule protobuf_len_overreads) simp_all

end
