(* ===== verification/Hsiphash.thy ===== *)
theory Hsiphash
  imports Siphash
begin

text \<open>
  HalfSipHash, \<open>src/lib/siphash/siphash.c\<close>: the 32-bit variant for hash tables. User space
  does not define \<open>BITS_PER_LONG\<close>, so the second of the two implementations is compiled, the
  one on 32-bit words; the key is two \<open>unsigned long\<close>, cut to 32 bits when it is mixed in.
  All entry points are proved to compute HalfSipHash-1-3.
\<close>

section \<open>Rounds\<close>

record hsiphash_key_t =
  hkey_0 :: u64
  hkey_1 :: u64

definition rol32 :: "u32 \<Rightarrow> u32 \<Rightarrow> u32" where
  "rol32 word shift =
     push_bit (unat (shift AND 31)) word OR drop_bit (unat ((- shift) AND 31)) word"

type_synonym hsipvars = "u32 \<times> u32 \<times> u32 \<times> u32"

fun HSIPROUND :: "hsipvars \<Rightarrow> hsipvars" where
  "HSIPROUND (v0, v1, v2, v3) =
     (let v0 = v0 + v1; v1 = rol32 v1 5; v1 = v1 XOR v0; v0 = rol32 v0 16;
          v2 = v2 + v3; v3 = rol32 v3 8; v3 = v3 XOR v2;
          v0 = v0 + v3; v3 = rol32 v3 7; v3 = v3 XOR v0;
          v2 = v2 + v1; v1 = rol32 v1 13; v1 = v1 XOR v2; v2 = rol32 v2 16
      in (v0, v1, v2, v3))"

definition HPREAMBLE :: "u64 \<Rightarrow> hsiphash_key_t \<Rightarrow> hsipvars \<times> u32" where
  "HPREAMBLE len key =
     (let v0 = 0; v1 = 0; v2 = 0x6c796765; v3 = 0x74656462;
          b = push_bit 24 (ucast len :: u32);
          v3 = v3 XOR ucast (hkey_1 key);
          v2 = v2 XOR ucast (hkey_0 key);
          v1 = v1 XOR ucast (hkey_1 key);
          v0 = v0 XOR ucast (hkey_0 key)
      in ((v0, v1, v2, v3), b))"

text \<open>\<open>v3 ^= m; HSIPROUND; v0 ^= m;\<close>\<close>

definition hround :: "u32 \<Rightarrow> hsipvars \<Rightarrow> hsipvars" where
  "hround m v =
     (let (v0, v1, v2, v3) = v;
          v3 = v3 XOR m;
          (v0, v1, v2, v3) = HSIPROUND (v0, v1, v2, v3);
          v0 = v0 XOR m
      in (v0, v1, v2, v3))"

definition HPOSTAMBLE :: "hsipvars \<Rightarrow> u32 \<Rightarrow> u32" where
  "HPOSTAMBLE v b =
     (let (v0, v1, v2, v3) = v;
          v3 = v3 XOR b;
          (v0, v1, v2, v3) = HSIPROUND (v0, v1, v2, v3);
          v0 = v0 XOR b;
          v2 = v2 XOR 0xff;
          (v0, v1, v2, v3) = HSIPROUND (v0, v1, v2, v3);
          (v0, v1, v2, v3) = HSIPROUND (v0, v1, v2, v3);
          (v0, v1, v2, v3) = HSIPROUND (v0, v1, v2, v3)
      in v1 XOR v3)"

section \<open>Hash of a byte string\<close>

function hsiphash_loop :: "(nat \<Rightarrow> u32 res) \<Rightarrow> nat \<Rightarrow> nat \<Rightarrow> hsipvars \<Rightarrow> hsipvars res" where
  "hsiphash_loop ld32 data end v =
     (if data = end then Ok v
      else if end < data then Err OutOfBounds
      else bind_res (ld32 data) (\<lambda>m. hsiphash_loop ld32 (data + 4) end (hround m v)))"
  by pat_completeness auto
termination by (relation "measure (\<lambda>(ld, data, end, v). end - data)") auto

declare hsiphash_loop.simps [simp del]

definition hsiphash_left :: "(nat \<Rightarrow> u16 res) \<Rightarrow> packet \<Rightarrow> nat \<Rightarrow> u8 \<Rightarrow> u32 \<Rightarrow> u32 res" where
  "hsiphash_left ld16 p end left b =
     bind_res (if left = 3 then bind_res (rd8 p (end + 2)) (\<lambda>x. Ok (b OR push_bit 16 (ucast x)))
               else Ok b) (\<lambda>b.
     if left \<in> {3, 2} then bind_res (ld16 end) (\<lambda>x. Ok (b OR ucast x))
     else if left = 1 then bind_res (rd8 p end) (\<lambda>x. Ok (b OR ucast x))
     else Ok b)"

definition hsiphash_with ::
  "(nat \<Rightarrow> u32 res) \<Rightarrow> (nat \<Rightarrow> u16 res) \<Rightarrow> packet \<Rightarrow> nat \<Rightarrow> size_t \<Rightarrow> hsiphash_key_t \<Rightarrow> u32 res" where
  "hsiphash_with ld32 ld16 p data len key =
     (let end = data + unat len - unat (len mod 4);
          left = ucast (len AND (4 - 1)) :: u8;
          (v, b) = HPREAMBLE len key
      in bind_res (hsiphash_loop ld32 data end v) (\<lambda>v.
         bind_res (hsiphash_left ld16 p end left b) (\<lambda>b.
         Ok (HPOSTAMBLE v b))))"

definition hsiphash_aligned :: "packet \<Rightarrow> nat \<Rightarrow> size_t \<Rightarrow> hsiphash_key_t \<Rightarrow> u32 res" where
  "hsiphash_aligned p = hsiphash_with (rd32 p) (rd16 p) p"

definition hsiphash_unaligned :: "packet \<Rightarrow> nat \<Rightarrow> size_t \<Rightarrow> hsiphash_key_t \<Rightarrow> u32 res" where
  "hsiphash_unaligned p = hsiphash_with (get_unaligned_le32 p) (get_unaligned_le16 p) p"

definition hsiphash_1u32 :: "u32 \<Rightarrow> hsiphash_key_t \<Rightarrow> u32" where
  "hsiphash_1u32 first key =
     (let (v, b) = HPREAMBLE 4 key;
          v = hround first v
      in HPOSTAMBLE v b)"

definition hsiphash_2u32 :: "u32 \<Rightarrow> u32 \<Rightarrow> hsiphash_key_t \<Rightarrow> u32" where
  "hsiphash_2u32 first second key =
     (let (v, b) = HPREAMBLE 8 key;
          v = hround first v;
          v = hround second v
      in HPOSTAMBLE v b)"

definition hsiphash_3u32 :: "u32 \<Rightarrow> u32 \<Rightarrow> u32 \<Rightarrow> hsiphash_key_t \<Rightarrow> u32" where
  "hsiphash_3u32 first second third key =
     (let (v, b) = HPREAMBLE 12 key;
          v = hround first v;
          v = hround second v;
          v = hround third v
      in HPOSTAMBLE v b)"

definition hsiphash_4u32 :: "u32 \<Rightarrow> u32 \<Rightarrow> u32 \<Rightarrow> u32 \<Rightarrow> hsiphash_key_t \<Rightarrow> u32" where
  "hsiphash_4u32 first second third forth key =
     (let (v, b) = HPREAMBLE 16 key;
          v = hround first v;
          v = hround second v;
          v = hround third v;
          v = hround forth v
      in HPOSTAMBLE v b)"

definition hsiphash_aligned_const :: "bool \<Rightarrow> packet \<Rightarrow> nat \<Rightarrow> size_t \<Rightarrow> hsiphash_key_t \<Rightarrow> u32 res" where
  "hsiphash_aligned_const const_p p data len key =
     (if const_p \<and> len = 4 then bind_res (rd32 p data) (\<lambda>a. Ok (hsiphash_1u32 a key))
      else if const_p \<and> len = 8 then
        bind_res (rd32 p data) (\<lambda>a. bind_res (rd32 p (data + 4)) (\<lambda>b. Ok (hsiphash_2u32 a b key)))
      else if const_p \<and> len = 12 then
        bind_res (rd32 p data) (\<lambda>a. bind_res (rd32 p (data + 4)) (\<lambda>b.
        bind_res (rd32 p (data + 8)) (\<lambda>c. Ok (hsiphash_3u32 a b c key))))
      else if const_p \<and> len = 16 then
        bind_res (rd32 p data) (\<lambda>a. bind_res (rd32 p (data + 4)) (\<lambda>b.
        bind_res (rd32 p (data + 8)) (\<lambda>c. bind_res (rd32 p (data + 12)) (\<lambda>d.
        Ok (hsiphash_4u32 a b c d key)))))
      else hsiphash_aligned p data len key)"

text \<open>The alignment asked for is that of \<open>unsigned long\<close>.\<close>

definition hsiphash :: "bool \<Rightarrow> u64 \<Rightarrow> packet \<Rightarrow> nat \<Rightarrow> size_t \<Rightarrow> hsiphash_key_t \<Rightarrow> u32 res" where
  "hsiphash const_p addr p data len key =
     (if addr AND (8 - 1) \<noteq> 0 then hsiphash_unaligned p data len key
      else hsiphash_aligned_const const_p p data len key)"

section \<open>The published function\<close>

fun half_round :: "hsipvars \<Rightarrow> hsipvars" where
  "half_round (v0, v1, v2, v3) =
     (let a0 = v0 + v1; a1 = word_rotl 5 v1 XOR a0; a2 = v2 + v3; a3 = word_rotl 8 v3 XOR a2;
          b0 = word_rotl 16 a0 + a3; b3 = word_rotl 7 a3 XOR b0;
          b2 = a2 + a1; b1 = word_rotl 13 a1 XOR b2
      in (b0, b1, word_rotl 16 b2, b3))"

definition half_absorb :: "nat \<Rightarrow> u32 \<Rightarrow> hsipvars \<Rightarrow> hsipvars" where
  "half_absorb c m v =
     (case v of (v0, v1, v2, v3) \<Rightarrow>
      case (half_round ^^ c) (v0, v1, v2, v3 XOR m) of (w0, w1, w2, w3) \<Rightarrow> (w0 XOR m, w1, w2, w3))"

definition half_init :: "u32 \<Rightarrow> u32 \<Rightarrow> hsipvars" where
  "half_init k0 k1 = (k0, k1, 0x6c796765 XOR k0, 0x74656462 XOR k1)"

definition half_final :: "nat \<Rightarrow> hsipvars \<Rightarrow> u32" where
  "half_final d v =
     (case v of (v0, v1, v2, v3) \<Rightarrow>
      case (half_round ^^ d) (v0, v1, v2 XOR 0xff, v3) of (w0, w1, w2, w3) \<Rightarrow> w1 XOR w3)"

definition half_pad :: "u8 list \<Rightarrow> u8 list" where
  "half_pad bs = bs @ replicate (3 - length bs mod 4) 0 @ [of_nat (length bs)]"

definition half_hash :: "nat \<Rightarrow> nat \<Rightarrow> u32 \<Rightarrow> u32 \<Rightarrow> u8 list \<Rightarrow> u32" where
  "half_hash c d k0 k1 bs =
     half_final d (fold (half_absorb c) (le_blocks 4 (length bs div 4 + 1) (half_pad bs)) (half_init k0 k1))"

abbreviation hkey_hash :: "hsiphash_key_t \<Rightarrow> u8 list \<Rightarrow> u32" where
  "hkey_hash key \<equiv> half_hash 1 3 (ucast (hkey_0 key)) (ucast (hkey_1 key))"

section \<open>All variants compute the published function\<close>

lemma rol32_rotl:
  assumes "0 < m" "m < 32" shows "push_bit m w OR drop_bit (32 - m) w = word_rotl m (w :: u32)"
proof (rule bit_word_eqI)
  fix n assume "n < LENGTH(32)"
  then have n: "n < 32" by simp
  have over: "\<not> bit w k" if "32 \<le> k" for k using that bit_imp_le_length [of w k] by auto
  show "bit (push_bit m w OR drop_bit (32 - m) w) n = bit (word_rotl m w) n"
  proof (cases "n < m")
    case True
    then have "(n + (32 - m)) mod 32 = 32 - m + n" using assms by simp
    with True n assms show ?thesis by (simp add: bit_or_iff bit_push_bit_iff bit_drop_bit_eq bit_word_rotl_iff)
  next
    case False
    then obtain k where k: "n = m + k" using le_Suc_ex not_less by blast
    have "(n + (32 - m)) mod 32 = k" using assms n k by simp
    then show ?thesis using n assms k over [of "32 - m + n"]
      by (simp add: bit_or_iff bit_push_bit_iff bit_drop_bit_eq bit_word_rotl_iff)
  qed
qed

lemma rol32_consts:
  "rol32 w 5 = word_rotl 5 w" "rol32 w 16 = word_rotl 16 w" "rol32 w 8 = word_rotl 8 w"
  "rol32 w 7 = word_rotl 7 w" "rol32 w 13 = word_rotl 13 w"
  using rol32_rotl [of 5 w] rol32_rotl [of 16 w] rol32_rotl [of 8 w] rol32_rotl [of 7 w] rol32_rotl [of 13 w]
  by (simp_all add: rol32_def)

lemma HSIPROUND_half_round: "HSIPROUND v = half_round v"
  by (cases v) (simp add: Let_def rol32_consts)

lemma hround_absorb: "hround m v = half_absorb 1 m v"
  by (cases v) (simp add: hround_def half_absorb_def HSIPROUND_half_round Let_def
      split: prod.split del: half_round.simps)

lemma funpow_three: "(f ^^ 3) x = f (f (f x))"
  by (simp add: numeral_eq_Suc)

lemma HPOSTAMBLE_final: "HPOSTAMBLE v b = half_final 3 (half_absorb 1 b v)"
  by (cases v) (simp add: HPOSTAMBLE_def half_absorb_def half_final_def HSIPROUND_half_round Let_def
      funpow_three split: prod.split del: half_round.simps)

lemma HPREAMBLE_init:
  "HPREAMBLE len key = (half_init (ucast (hkey_0 key)) (ucast (hkey_1 key)), push_bit 24 (ucast len))"
  by (simp add: HPREAMBLE_def half_init_def Let_def)

lemmas half_defs = hround_absorb HPOSTAMBLE_final HPREAMBLE_init

lemma hsiphash_loop_fold:
  assumes "\<And>off. off + 4 \<le> length p \<Longrightarrow> ld off = Ok (word_of_le (take 4 (drop off p)))"
    "data + 4 * n \<le> length p"
  shows "hsiphash_loop ld data (data + 4 * n) v =
    Ok (fold (half_absorb 1) (le_blocks 4 n (drop data p)) v)"
  using assms(2)
proof (induction n arbitrary: data v)
  case (Suc n)
  have "hsiphash_loop ld (data + 4) (data + (4 + 4 * n)) w =
      Ok (fold (half_absorb 1) (le_blocks 4 n (drop (data + 4) p)) w)" for w
    using Suc.prems Suc.IH [of "data + 4" w] by (simp add: add.assoc)
  then show ?case using Suc.prems
    by (subst hsiphash_loop.simps) (simp add: assms(1) hround_absorb add.commute)
qed (simp add: hsiphash_loop.simps)

lemma hsiphash_left_word:
  assumes ld: "\<And>off. off + 2 \<le> length p \<Longrightarrow> ld16 off = Ok (word_of_le (take 2 (drop off p)))"
    and fit: "end + unat left \<le> length p" and left: "unat left < 4"
  shows "hsiphash_left ld16 p end left b = Ok (b OR word_of_le (take (unat left) (drop end p)))"
proof -
  have u16: "ucast (word_of_le (take 2 (drop end p)) :: u16) = (word_of_le (take 2 (drop end p)) :: u32)"
    by (rule ucast_word_of_le) simp_all
  have "unat left \<in> {0, 1, 2, 3}" using left by auto
  then have "left \<in> {0, 1, 2, 3}" by (auto simp: word_unat_eq_iff)
  then show ?thesis using fit
    by (elim insertE emptyE; hypsubst;
        simp add: hsiphash_left_def ld u16 rd8_word or.assoc or.left_commute or.commute word_of_le_snocs)
qed

lemma push_bit_24_of_nat: "push_bit 24 (ucast (of_nat n :: u8)) = (push_bit 24 (of_nat n) :: u32)"
  by (rule bit_word_eqI) (auto simp: bit_simps)

lemma half_pad_blocks:
  "le_blocks 4 (length bs div 4 + 1) (half_pad bs) =
     le_blocks 4 (length bs div 4) bs @
       [push_bit 24 (of_nat (length bs)) OR word_of_le (drop (4 * (length bs div 4)) bs) :: u32]"
proof -
  let ?n = "length bs div 4" and ?r = "length bs mod 4"
  have len: "4 * ?n + ?r = length bs" by simp
  then have d: "drop (4 * ?n) (half_pad bs) = drop (4 * ?n) bs @ replicate (3 - ?r) 0 @ [of_nat (length bs)]"
    by (simp add: half_pad_def)
  have l: "length (drop (4 * ?n) bs) = ?r" using len by (simp add: minus_mult_div_eq_mod)
  have r: "?r < 4" by simp
  then have e: "8 * ?r + 8 * (3 - ?r) = 24" by simp
  have t: "take 4 (drop (4 * ?n) (half_pad bs)) = drop (4 * ?n) bs @ replicate (3 - ?r) 0 @ [of_nat (length bs)]"
    unfolding d using l r by simp
  have "word_of_le (drop (4 * ?n) bs @ replicate (3 - ?r) 0 @ [of_nat (length bs)]) =
      (word_of_le (drop (4 * ?n) bs) OR
        push_bit (8 * ?r + 8 * (3 - ?r)) (ucast (of_nat (length bs) :: u8)) :: u32)"
    by (simp only: word_of_le_append l length_replicate push_bit_or word_of_le_zeros push_bit_push_bit
        word_of_le.simps push_bit_of_0 or.right_neutral or.left_neutral)
  then show ?thesis
    using le_blocks_append [of 4 ?n bs] len t push_bit_24_of_nat [of "length bs"] unfolding e
    by (simp add: le_blocks_Suc_last half_pad_def or.commute del: le_blocks.simps)
qed

lemma half_hash_words:
  "half_hash c d k0 k1 bs = half_final d (half_absorb c (push_bit 24 (of_nat (length bs)) OR
       word_of_le (drop (4 * (length bs div 4)) bs))
     (fold (half_absorb c) (le_blocks 4 (length bs div 4) bs) (half_init k0 k1)))"
  unfolding half_hash_def half_pad_blocks by simp

lemma size_t_and_3: "(len :: size_t) AND 3 = len mod 4"
proof -
  have "len AND 3 = take_bit 2 len" by (simp add: take_bit_eq_mask mask_eq_exp_minus_1)
  then show ?thesis by (simp add: take_bit_eq_mod)
qed

lemma hsiphash_with_half_hash:
  assumes ld: "\<And>off. off + 4 \<le> length p \<Longrightarrow> ld32 off = Ok (word_of_le (take 4 (drop off p)))"
    "\<And>off. off + 2 \<le> length p \<Longrightarrow> ld16 off = Ok (word_of_le (take 2 (drop off p)))"
    and fit: "data + unat len \<le> length p"
  shows "hsiphash_with ld32 ld16 p data len key = Ok (hkey_hash key (take (unat len) (drop data p)))"
proof -
  let ?n = "unat len div 4" and ?bs = "take (unat len) (drop data p)"
  have whole: "unat len = 4 * ?n + unat len mod 4" by simp
  have m4: "unat (len mod 4) = unat len mod 4" by (simp add: unat_mod)
  have e: "data + unat len - unat (len mod 4) = data + 4 * ?n" unfolding m4 using whole by linarith
  have "data + 4 * ?n \<le> length p" using fit whole by linarith
  note loop = hsiphash_loop_fold [OF ld(1) this]
  have u: "unat (ucast (len mod 4) :: u8) = unat len mod 4"
    by (simp add: m4 unsigned_ucast_eq take_bit_nat_eq_self less_trans [of _ 4])
  have "data + 4 * ?n + unat (ucast (len mod 4) :: u8) \<le> length p" using fit whole by (simp only: u)
  then have tail: "hsiphash_left ld16 p (data + 4 * ?n) (ucast (len mod 4)) b =
      Ok (b OR word_of_le (take (unat len mod 4) (drop (data + 4 * ?n) p)))" for b
    using hsiphash_left_word [of p ld16 "data + 4 * ?n" "ucast (len mod 4)" b] ld(2) by (simp add: u)
  have l: "length ?bs = unat len" using fit by simp
  have "le_blocks 4 ?n (drop data p) = le_blocks 4 ?n (?bs @ drop (unat len) (drop data p))"
    by (simp only: append_take_drop_id)
  also have "\<dots> = le_blocks 4 ?n ?bs" using whole l by (intro le_blocks_append) simp
  finally have blocks: "le_blocks 4 ?n (drop data p) = (le_blocks 4 ?n ?bs :: u32 list)" .
  have rest: "take (unat len mod 4) (drop (data + 4 * ?n) p) = drop (4 * ?n) ?bs"
    by (simp add: drop_take minus_mult_div_eq_mod add.commute)
  have "(of_nat (unat len) :: u32) = ucast len" by simp
  then show ?thesis unfolding half_hash_words l
    by (simp add: hsiphash_with_def e size_t_and_3 half_defs loop tail blocks rest)
qed

lemma le_blocks_of_words4:
  "le_blocks 4 (length ws) (concat (map (bytes_le 4) ws)) = (ws :: u32 list)"
  by (induction ws) (simp_all add: word_of_bytes_le)

lemma half_hash_of_words:
  "half_hash c d k0 k1 (concat (map (bytes_le 4) (ws :: u32 list))) =
    half_final d (half_absorb c (push_bit 24 (of_nat (4 * length ws)))
      (fold (half_absorb c) ws (half_init k0 k1)))"
proof -
  have l: "length (concat (map (bytes_le 4) ws)) = 4 * length ws" by (induction ws) simp_all
  then have "drop (4 * length ws) (concat (map (bytes_le 4) ws)) = []" by simp
  then show ?thesis unfolding half_hash_words l by (simp add: le_blocks_of_words4)
qed

lemma hsiphash_words:
  "hsiphash_1u32 a key = hkey_hash key (bytes_le 4 a)"
  "hsiphash_2u32 a b key = hkey_hash key (bytes_le 4 a @ bytes_le 4 b)"
  "hsiphash_3u32 a b c key = hkey_hash key (bytes_le 4 a @ bytes_le 4 b @ bytes_le 4 c)"
  "hsiphash_4u32 a b c d key = hkey_hash key (bytes_le 4 a @ bytes_le 4 b @ bytes_le 4 c @ bytes_le 4 d)"
  using half_hash_of_words [of 1 3 "ucast (hkey_0 key)" "ucast (hkey_1 key)" "[a]"]
    half_hash_of_words [of 1 3 "ucast (hkey_0 key)" "ucast (hkey_1 key)" "[a, b]"]
    half_hash_of_words [of 1 3 "ucast (hkey_0 key)" "ucast (hkey_1 key)" "[a, b, c]"]
    half_hash_of_words [of 1 3 "ucast (hkey_0 key)" "ucast (hkey_1 key)" "[a, b, c, d]"]
  by (simp_all add: hsiphash_1u32_def hsiphash_2u32_def hsiphash_3u32_def hsiphash_4u32_def half_defs)

lemma hsiphash_hash:
  assumes fit: "data + unat len \<le> length p"
  shows "hsiphash const_p addr p data len key = Ok (hkey_hash key (take (unat len) (drop data p)))"
proof -
  have 8: "take 8 (drop data p) = take 4 (drop data p) @ take 4 (drop (data + 4) p)"
    using take_more [of 4 4 data p] by simp
  have 12: "take 12 (drop data p) = take 8 (drop data p) @ take 4 (drop (data + 8) p)"
    using take_more [of 8 4 data p] by simp
  have 16: "take 16 (drop data p) = take 12 (drop data p) @ take 4 (drop (data + 12) p)"
    using take_more [of 12 4 data p] by simp
  have "hsiphash_unaligned p data len key = Ok (hkey_hash key (take (unat len) (drop data p)))"
    unfolding hsiphash_unaligned_def using fit
    by (rule hsiphash_with_half_hash [rotated 2]) (simp_all add: get_unaligned_le32_word get_unaligned_le16_word)
  moreover have "hsiphash_aligned p data len key = Ok (hkey_hash key (take (unat len) (drop data p)))"
    unfolding hsiphash_aligned_def using fit
    by (rule hsiphash_with_half_hash [rotated 2]) (simp_all add: le_simps)
  ultimately show ?thesis using fit
    by (auto simp: hsiphash_def hsiphash_aligned_const_def hsiphash_words le_simps bytes_le_load4 8 12 16)
qed

text \<open>C22: \<open>hsiphash\<close> computes HalfSipHash-1-3 of the bytes it is given, with the key cut to 32 bits
  per word, whatever the alignment of the bytes and whether or not the compiler knows the length. A comment
  in the source says that 64-bit machines use SipHash-1-3 here; \<open>BITS_PER_LONG\<close>, which selects it,
  is not defined in user space.\<close>

theorem hsiphash_value:
  assumes "data + unat len \<le> length p"
  shows "hsiphash const_p addr p data len key =
    Ok (half_hash 1 3 (ucast (hkey_0 key)) (ucast (hkey_1 key)) (take (unat len) (drop data p)))"
  by (rule hsiphash_hash [OF assms])

theorem hsiphash_value_witness:
  "hsiphash True 0 (test_message 13) 1 12 \<lparr>hkey_0 = 5, hkey_1 = 7\<rparr> =
    Ok (half_hash 1 3 (ucast (hkey_0 \<lparr>hkey_0 = 5, hkey_1 = 7\<rparr>)) (ucast (hkey_1 \<lparr>hkey_0 = 5, hkey_1 = 7\<rparr>))
      (take (unat (12 :: size_t)) (drop 1 (test_message 13))))"
  by (rule hsiphash_value) simp

end
