(* ===== verification/Buffers.thy ===== *)
theory Buffers
  imports Le_Words
begin

text \<open>
  Buffers that are written byte by byte. A pointer into a buffer is an offset; a pointer that
  may lie in front of it is an integer. A store outside the buffer is a fault.
\<close>

definition wr8 :: "u8 list \<Rightarrow> nat \<Rightarrow> u8 \<Rightarrow> u8 list res" where
  "wr8 buf off v = (if off < length buf then Ok (buf[off := v]) else Err OutOfBounds)"

definition rd8_int :: "packet \<Rightarrow> int \<Rightarrow> u8 res" where
  "rd8_int p off = (if 0 \<le> off then rd8 p (nat off) else Err OutOfBounds)"

text \<open>\<open>memcpy\<close> within one buffer; overlapping areas are undefined behaviour.\<close>

definition memcpy_in :: "u8 list \<Rightarrow> nat \<Rightarrow> nat \<Rightarrow> nat \<Rightarrow> u8 list res" where
  "memcpy_in buf dst src n =
     (if dst + n \<le> length buf \<and> src + n \<le> length buf \<and> (src + n \<le> dst \<or> dst + n \<le> src)
      then Ok (take dst buf @ take n (drop src buf) @ drop (dst + n) buf) else Err OutOfBounds)"

lemma wr8_Ok: "off < length buf \<Longrightarrow> wr8 buf off v = Ok (buf[off := v])"
  by (simp add: wr8_def)

lemma wp_wr8 [simp]: "wp P (wr8 buf off v) \<longleftrightarrow> off < length buf \<and> P (buf[off := v])"
  by (simp add: wr8_def)

lemma rd8_int_nat [simp]: "rd8_int p (int off) = rd8 p off"
  by (simp add: rd8_int_def)

lemma wp_rd8_int [simp]:
  "wp P (rd8_int p off) \<longleftrightarrow> 0 \<le> off \<and> nat off < length p \<and> P (p ! nat off)"
  by (simp add: rd8_int_def)

lemma take_update_snoc: "i < length xs \<Longrightarrow> take (Suc i) (xs[i := v]) = take i xs @ [v]"
  by (simp add: take_Suc_conv_app_nth)

lemma take_update_below: "n \<le> i \<Longrightarrow> take n (xs[i := v]) = take n xs"
  by (simp add: take_update_cancel)

end
