(* ===== verification/Lzf.thy ===== *)
theory Lzf
  imports Buffers
begin

text \<open>
  LZF compression, \<open>src/lib/lzf/lzf_compress.c\<close> and \<open>lzf_decompress.c\<close>, in the configuration of
  \<open>lzfP.h\<close>: \<open>HLOG\<close> 16, \<open>VERY_FAST\<close>, pointers in the hash table, the table not initialised, and
  the input of the decompressor checked.

  Input and output are two byte lists; \<open>ip\<close> and \<open>op\<close> are offsets. The entries of the hash table are
  pointers, that is, offsets from the input that may be any integer: what an uninitialised
  entry holds is not known. The main loops run on fuel, one unit per iteration.
\<close>

section \<open>Compression\<close>

definition MAX_LIT :: nat where "MAX_LIT = 32"
definition MAX_OFF :: int where "MAX_OFF = 8192"
definition MAX_REF :: nat where "MAX_REF = 264"

definition FRST :: "packet \<Rightarrow> nat \<Rightarrow> u32 res" where
  "FRST p i = bind_res (rd8 p i) (\<lambda>a. bind_res (rd8 p (i + 1)) (\<lambda>b.
     Ok (push_bit 8 (ucast a) OR ucast b)))"

definition NEXT :: "u32 \<Rightarrow> packet \<Rightarrow> nat \<Rightarrow> u32 res" where
  "NEXT v p i = bind_res (rd8 p (i + 2)) (\<lambda>c. Ok (push_bit 8 v OR ucast c))"

definition IDX :: "u32 \<Rightarrow> nat" where
  "IDX h = unat ((drop_bit 8 h - h * 5) AND 0xFFFF)"

type_synonym lzf_state = "nat \<Rightarrow> int"

record lzf_vars =
  lz_ip :: nat
  lz_op :: nat
  lz_lit :: nat
  lz_hval :: u32
  lz_htab :: lzf_state
  lz_out :: "u8 list"

text \<open>\<open>op [- lit - 1] = lit - 1;\<close> where the run ends.\<close>

definition stop_run :: "lzf_vars \<Rightarrow> lzf_vars res" where
  "stop_run s =
     bind_res (if lz_lit s + 1 \<le> lz_op s then wr8 (lz_out s) (lz_op s - lz_lit s - 1) (of_nat (lz_lit s) - 1)
               else Err OutOfBounds) (\<lambda>out.
     Ok (s\<lparr>lz_out := out\<rparr>))"

text \<open>\<open>lit++; *op++ = *ip++;\<close> and the end of a full run.\<close>

definition put_lit :: "packet \<Rightarrow> lzf_vars \<Rightarrow> lzf_vars res" where
  "put_lit inp s =
     bind_res (rd8 inp (lz_ip s)) (\<lambda>b. bind_res (wr8 (lz_out s) (lz_op s) b) (\<lambda>out.
     let s = s\<lparr>lz_lit := lz_lit s + 1, lz_op := lz_op s + 1, lz_ip := lz_ip s + 1, lz_out := out\<rparr>
     in if lz_lit s = MAX_LIT
        then bind_res (stop_run s) (\<lambda>s. Ok (s\<lparr>lz_lit := 0, lz_op := lz_op s + 1\<rparr>))
        else Ok s))"

text \<open>The length of a match: sixteen comparisons written out, then a loop.\<close>

primrec match_unrolled :: "nat \<Rightarrow> packet \<Rightarrow> int \<Rightarrow> nat \<Rightarrow> nat \<Rightarrow> (bool \<times> nat) res" where
  "match_unrolled 0 inp ref ip len = Ok (False, len)"
| "match_unrolled (Suc n) inp ref ip len =
     bind_res (rd8_int inp (ref + int (len + 1))) (\<lambda>a. bind_res (rd8 inp (ip + (len + 1))) (\<lambda>b.
     if a \<noteq> b then Ok (True, len + 1) else match_unrolled n inp ref ip (len + 1)))"

function match_while :: "packet \<Rightarrow> int \<Rightarrow> nat \<Rightarrow> nat \<Rightarrow> nat \<Rightarrow> nat res" where
  "match_while inp ref ip maxlen len =
     (let len = len + 1
      in if len < maxlen
         then bind_res (rd8_int inp (ref + int len)) (\<lambda>a. bind_res (rd8 inp (ip + len)) (\<lambda>b.
              if a = b then match_while inp ref ip maxlen len else Ok len))
         else Ok len)"
  by pat_completeness auto
termination by (relation "measure (\<lambda>(inp, ref, ip, maxlen, len). maxlen - len)") auto

declare match_while.simps [simp del]

definition match_length :: "packet \<Rightarrow> int \<Rightarrow> nat \<Rightarrow> nat \<Rightarrow> nat res" where
  "match_length inp ref ip maxlen =
     (if 16 < maxlen then
        bind_res (match_unrolled 16 inp ref ip 2) (\<lambda>(stop, len).
        if stop then Ok len else match_while inp ref ip maxlen len)
      else match_while inp ref ip maxlen 2)"

text \<open>\<open>*op++ = v\<close>\<close>

definition put_byte :: "u8 \<Rightarrow> lzf_vars \<Rightarrow> lzf_vars res" where
  "put_byte v s =
     bind_res (wr8 (lz_out s) (lz_op s) v) (\<lambda>out. Ok (s\<lparr>lz_out := out, lz_op := lz_op s + 1\<rparr>))"

text \<open>The reference of \<open>len\<close> + 2 octets at distance \<open>off\<close> + 1.\<close>

definition put_ref :: "nat \<Rightarrow> nat \<Rightarrow> lzf_vars \<Rightarrow> lzf_vars res" where
  "put_ref off len s =
     bind_res
       (if len < 7 then put_byte (of_nat (off div 256) + push_bit 5 (of_nat len)) s
        else bind_res (put_byte (of_nat (off div 256) + push_bit 5 7) s)
               (put_byte (of_nat (len - 7)))) (\<lambda>s.
     put_byte (of_nat off) s)"

text \<open>\<open>hval = NEXT (hval, ip); htab [IDX (hval)] = ip; ip++;\<close>\<close>

definition enter_hash :: "packet \<Rightarrow> lzf_vars \<Rightarrow> lzf_vars res" where
  "enter_hash inp s =
     bind_res (NEXT (lz_hval s) inp (lz_ip s)) (\<lambda>h.
     Ok (s\<lparr>lz_hval := h, lz_htab := (lz_htab s)(IDX h := int (lz_ip s)), lz_ip := lz_ip s + 1\<rparr>))"

text \<open>After a match: leave the loop at the end of the input, or enter the last two positions of the
  match into the table.\<close>

definition lzf_rehash :: "packet \<Rightarrow> nat \<Rightarrow> lzf_vars \<Rightarrow> (bool \<times> lzf_vars) res" where
  "lzf_rehash inp in_end s =
     (if lz_ip s \<ge> in_end - 2 then Ok (False, s)
      else
        let s = s\<lparr>lz_ip := lz_ip s - 2\<rparr>
        in bind_res (FRST inp (lz_ip s)) (\<lambda>h.
           bind_res (enter_hash inp (s\<lparr>lz_hval := h\<rparr>)) (\<lambda>s.
           bind_res (enter_hash inp s) (\<lambda>s. Ok (True, s)))))"

text \<open>One iteration of the main loop. \<open>None\<close> is \<open>return 0\<close>; the flag says to leave the loop.\<close>

definition lzf_match :: "packet \<Rightarrow> nat \<Rightarrow> int \<Rightarrow> nat \<Rightarrow> lzf_vars \<Rightarrow> (bool \<times> lzf_vars) option res" where
  "lzf_match inp in_end ref off s =
     (let maxlen = min MAX_REF (in_end - lz_ip s - 2);
          out_end = length (lz_out s)
      in if lz_op s + 3 + 1 \<ge> out_end \<and> lz_op s - (if lz_lit s = 0 then 1 else 0) + 3 + 1 \<ge> out_end
         then Ok None
         else
           bind_res (stop_run s) (\<lambda>s.
           let s = s\<lparr>lz_op := lz_op s - (if lz_lit s = 0 then 1 else 0)\<rparr>
           in bind_res (match_length inp ref (lz_ip s) maxlen) (\<lambda>len.
              let len = len - 2
              in bind_res (put_ref off len s) (\<lambda>s.
                 map_res Some (lzf_rehash inp in_end
                   (s\<lparr>lz_lit := 0, lz_op := lz_op s + 1, lz_ip := lz_ip s + 1 + (len + 1)\<rparr>))))))"

text \<open>The condition for a match: \<open>(off = ip - ref - 1) < MAX_OFF\<close>, unsigned, \<open>ref > (u8 *)in_data\<close>
  and three equal octets, the third one compared first.\<close>

definition lzf_found :: "packet \<Rightarrow> int \<Rightarrow> nat \<Rightarrow> bool res" where
  "lzf_found inp ref ip =
     (if 0 \<le> int ip - ref - 1 \<and> int ip - ref - 1 < MAX_OFF \<and> 0 < ref then
        bind_res (rd8_int inp (ref + 2)) (\<lambda>r2. bind_res (rd8 inp (ip + 2)) (\<lambda>i2.
        if r2 \<noteq> i2 then Ok False
        else
          bind_res (rd8_int inp ref) (\<lambda>r0. bind_res (rd8_int inp (ref + 1)) (\<lambda>r1.
          bind_res (rd8 inp ip) (\<lambda>i0. bind_res (rd8 inp (ip + 1)) (\<lambda>i1.
          Ok (r0 = i0 \<and> r1 = i1)))))))
      else Ok False)"

definition lzf_step :: "packet \<Rightarrow> nat \<Rightarrow> lzf_vars \<Rightarrow> (bool \<times> lzf_vars) option res" where
  "lzf_step inp in_end s =
     bind_res (NEXT (lz_hval s) inp (lz_ip s)) (\<lambda>h.
     let ref = lz_htab s (IDX h);
         s = s\<lparr>lz_hval := h, lz_htab := (lz_htab s)(IDX h := int (lz_ip s))\<rparr>
     in bind_res (lzf_found inp ref (lz_ip s)) (\<lambda>found.
        if found then lzf_match inp in_end ref (nat (int (lz_ip s) - ref - 1)) s
        else if lz_op s \<ge> length (lz_out s) then Ok None
        else map_res (\<lambda>s. Some (True, s)) (put_lit inp s)))"

primrec lzf_loop :: "nat \<Rightarrow> packet \<Rightarrow> nat \<Rightarrow> lzf_vars \<Rightarrow> lzf_vars option res" where
  "lzf_loop 0 inp in_end s = Err StillRunning"
| "lzf_loop (Suc n) inp in_end s =
     (if lz_ip s < in_end - 2 then
        bind_res (lzf_step inp in_end s) (\<lambda>r.
        case r of
          None \<Rightarrow> Ok None
        | Some (go, s) \<Rightarrow> if go then lzf_loop n inp in_end s else Ok (Some s))
      else Ok (Some s))"

primrec lzf_rest :: "nat \<Rightarrow> packet \<Rightarrow> nat \<Rightarrow> lzf_vars \<Rightarrow> lzf_vars res" where
  "lzf_rest 0 inp in_end s = Err StillRunning"
| "lzf_rest (Suc n) inp in_end s =
     (if lz_ip s < in_end then bind_res (put_lit inp s) (lzf_rest n inp in_end) else Ok s)"

text \<open>The result is the number of octets written, zero for failure, and the output buffer after a
  success.\<close>

definition lzf_compress :: "nat \<Rightarrow> lzf_state \<Rightarrow> packet \<Rightarrow> nat \<Rightarrow> u8 list \<Rightarrow> (nat \<times> u8 list) res" where
  "lzf_compress fuel htab inp in_len out =
     (if in_len = 0 \<or> length out = 0 then Ok (0, out)
      else
        bind_res (FRST inp 0) (\<lambda>h.
        bind_res (lzf_loop fuel inp in_len
            \<lparr>lz_ip = 0, lz_op = 1, lz_lit = 0, lz_hval = h, lz_htab = htab, lz_out = out\<rparr>) (\<lambda>r.
        case r of
          None \<Rightarrow> Ok (0, out)
        | Some s \<Rightarrow>
            if lz_op s + 3 > length (lz_out s) then Ok (0, lz_out s)
            else
              bind_res (lzf_rest fuel inp in_len s) (\<lambda>s.
              bind_res (stop_run s) (\<lambda>s.
              Ok (lz_op s - (if lz_lit s = 0 then 1 else 0), lz_out s))))))"

section \<open>Decompression\<close>

datatype lzf_errno = E2BIG | EINVAL

type_synonym lzf_result = "nat \<times> lzf_errno option \<times> u8 list"

text \<open>\<open>*op++ = *ip++\<close>, \<open>n\<close> times, from the input.\<close>

primrec copy_in :: "packet \<Rightarrow> nat \<Rightarrow> u8 list \<Rightarrow> nat \<Rightarrow> nat \<Rightarrow> u8 list res" where
  "copy_in inp ip out op 0 = Ok out"
| "copy_in inp ip out op (Suc n) =
     bind_res (rd8 inp ip) (\<lambda>b. bind_res (wr8 out op b) (\<lambda>out. copy_in inp (ip + 1) out (op + 1) n))"

text \<open>\<open>*op++ = *ref++\<close>, \<open>n\<close> times, within the output.\<close>

primrec copy_ref :: "u8 list \<Rightarrow> nat \<Rightarrow> nat \<Rightarrow> nat \<Rightarrow> u8 list res" where
  "copy_ref out op ref 0 = Ok out"
| "copy_ref out op ref (Suc n) =
     bind_res (rd8 out ref) (\<lambda>b. bind_res (wr8 out op b) (\<lambda>out. copy_ref out (op + 1) (ref + 1) n))"

definition copy_back :: "u8 list \<Rightarrow> nat \<Rightarrow> nat \<Rightarrow> nat \<Rightarrow> u8 list res" where
  "copy_back out op ref len =
     (if 9 < len then
        if op \<ge> ref + (len + 2) then memcpy_in out op ref (len + 2)
        else copy_ref out op ref (len + 2)
      else copy_ref out op ref (len + 2))"

datatype lzf_dstep = Fail lzf_errno | More nat nat "u8 list"

definition unlzf_literal :: "packet \<Rightarrow> nat \<Rightarrow> nat \<Rightarrow> nat \<Rightarrow> u8 list \<Rightarrow> nat \<Rightarrow> lzf_dstep res" where
  "unlzf_literal inp in_end ip op out ctrl =
     (let ctrl = ctrl + 1
      in if op + ctrl > length out then Ok (Fail E2BIG)
         else if ip + ctrl > in_end then Ok (Fail EINVAL)
         else map_res (More (ip + ctrl) (op + ctrl)) (copy_in inp ip out op ctrl))"

text \<open>\<open>ref -= *ip++\<close>, the checks and the copy.\<close>

definition unlzf_copy :: "packet \<Rightarrow> nat \<Rightarrow> nat \<Rightarrow> u8 list \<Rightarrow> nat \<Rightarrow> int \<Rightarrow> lzf_dstep res" where
  "unlzf_copy inp ip op out len ref =
     bind_res (rd8 inp ip) (\<lambda>b.
     let ref = ref - int (unat b)
     in if op + len + 2 > length out then Ok (Fail E2BIG)
        else if ref < 0 then Ok (Fail EINVAL)
        else map_res (More (ip + 1) (op + len + 2)) (copy_back out op (nat ref) len))"

definition unlzf_backref :: "packet \<Rightarrow> nat \<Rightarrow> nat \<Rightarrow> nat \<Rightarrow> u8 list \<Rightarrow> nat \<Rightarrow> lzf_dstep res" where
  "unlzf_backref inp in_end ip op out ctrl =
     (let len = ctrl div 32;
          ref = int op - int (ctrl mod 32 * 256) - 1
      in if ip \<ge> in_end then Ok (Fail EINVAL)
         else if len = 7 then
           bind_res (rd8 inp ip) (\<lambda>b.
           if ip + 1 \<ge> in_end then Ok (Fail EINVAL)
           else unlzf_copy inp (ip + 1) op out (len + unat b) ref)
         else unlzf_copy inp ip op out len ref)"

primrec unlzf_loop :: "nat \<Rightarrow> packet \<Rightarrow> nat \<Rightarrow> nat \<Rightarrow> nat \<Rightarrow> u8 list \<Rightarrow> lzf_result res" where
  "unlzf_loop 0 inp in_end ip op out = Err StillRunning"
| "unlzf_loop (Suc n) inp in_end ip op out =
     (if ip < in_end then
        bind_res (rd8 inp ip) (\<lambda>b.
        let ctrl = unat b
        in bind_res (if ctrl < 32 then unlzf_literal inp in_end (ip + 1) op out ctrl
                     else unlzf_backref inp in_end (ip + 1) op out ctrl) (\<lambda>r.
           case r of
             Fail e \<Rightarrow> Ok (0, Some e, out)
           | More ip op out \<Rightarrow> unlzf_loop n inp in_end ip op out))
      else Ok (op, None, out))"

definition lzf_decompress :: "nat \<Rightarrow> packet \<Rightarrow> nat \<Rightarrow> u8 list \<Rightarrow> lzf_result res" where
  "lzf_decompress fuel inp in_len out = unlzf_loop fuel inp in_len 0 0 out"

section \<open>The compressed format\<close>

text \<open>The octets that a reference of \<open>n\<close> octets at distance \<open>off\<close> + 1 stands for.\<close>

primrec repeat_back :: "nat \<Rightarrow> nat \<Rightarrow> u8 list \<Rightarrow> u8 list" where
  "repeat_back off 0 d = d"
| "repeat_back off (Suc n) d =
     (let d' = repeat_back off n d in d' @ [d' ! (length d' - off - 1)])"

definition ref_token :: "nat \<Rightarrow> nat \<Rightarrow> u8 list" where
  "ref_token off len =
     (if len < 7 then [of_nat (off div 256) + push_bit 5 (of_nat len)]
      else [of_nat (off div 256) + push_bit 5 7, of_nat (len - 7)]) @ [of_nat off]"

text \<open>\<open>lzf_encodes e d\<close>: the compressed octets \<open>e\<close> stand for the octets \<open>d\<close>.\<close>

inductive lzf_encodes :: "u8 list \<Rightarrow> u8 list \<Rightarrow> bool" where
  lzf_empty: "lzf_encodes [] []"
| lzf_literal: "lzf_encodes e d \<Longrightarrow> l \<noteq> [] \<Longrightarrow> length l \<le> 32 \<Longrightarrow>
    lzf_encodes (e @ (of_nat (length l) - 1) # l) (d @ l)"
| lzf_backref: "lzf_encodes e d \<Longrightarrow> off < 8192 \<Longrightarrow> off < length d \<Longrightarrow> len \<le> 262 \<Longrightarrow> 1 \<le> len \<Longrightarrow>
    lzf_encodes (e @ ref_token off len) (repeat_back off (len + 2) d)"

lemma length_repeat_back [simp]: "length (repeat_back off n d) = length d + n"
  by (induction n) (simp_all add: Let_def)

lemma repeat_back_first:
  "repeat_back off (Suc n) d = repeat_back off n (d @ [d ! (length d - off - 1)])"
  by (induction n) (simp_all add: Let_def)

declare repeat_back.simps(2) [simp del]

lemma repeat_back_prefix:
  assumes "\<And>i. i < n \<Longrightarrow> inp ! (ip + i) = inp ! (ip - off - 1 + i)" "off < ip" "ip + n \<le> length inp"
  shows "repeat_back off n (take ip inp) = take (ip + n) inp"
  using assms
proof (induction n)
  case (Suc n)
  then have IH: "repeat_back off n (take ip inp) = take (ip + n) inp" by simp
  have "take (ip + n) inp ! (ip + n - off - 1) = inp ! (ip + n)"
    using Suc.prems(1) [of n] Suc.prems(2,3) by simp
  moreover have "min (length inp) (ip + n) = ip + n" using Suc.prems(3) by simp
  ultimately show ?case using Suc.prems(3) by (simp add: repeat_back.simps(2) IH Let_def take_Suc_conv_app_nth)
qed simp

section \<open>The decompressor inverts the format\<close>

lemma copy_in_Ok:
  "ip + n \<le> length inp \<Longrightarrow> op + n \<le> length out \<Longrightarrow>
   copy_in inp ip out op n = Ok (take op out @ take n (drop ip inp) @ drop (op + n) out)"
proof (induction n arbitrary: ip op out)
  case (Suc n)
  have "copy_in inp (ip + 1) (out[op := inp ! ip]) (op + 1) n =
      Ok (take (op + 1) (out[op := inp ! ip]) @ take n (drop (ip + 1) inp) @ drop (op + 1 + n) (out[op := inp ! ip]))"
    using Suc.prems by (intro Suc.IH) simp_all
  moreover have "take (op + 1) (out[op := inp ! ip]) = take op out @ [inp ! ip]"
    using Suc.prems by (simp add: take_update_snoc)
  moreover have "drop (op + 1 + n) (out[op := inp ! ip]) = drop (op + 1 + n) out" by simp
  moreover have "take (Suc n) (drop ip inp) = inp ! ip # take n (drop (ip + 1) inp)"
    using Suc.prems by (simp add: Cons_nth_drop_Suc [symmetric])
  ultimately show ?case using Suc.prems by (simp add: rd8_word wr8_Ok)
qed simp

lemma copy_ref_Ok:
  "ref < op \<Longrightarrow> op + n \<le> length out \<Longrightarrow>
   copy_ref out op ref n = Ok (repeat_back (op - ref - 1) n (take op out) @ drop (op + n) out)"
proof (induction n arbitrary: out op ref)
  case (Suc n)
  let ?out = "out[op := out ! ref]"
  have "copy_ref ?out (op + 1) (ref + 1) n =
      Ok (repeat_back (op - ref - 1) n (take (op + 1) ?out) @ drop (op + 1 + n) ?out)"
    using Suc.prems Suc.IH [of "ref + 1" "op + 1" ?out] by simp
  moreover have "take (op + 1) ?out = take op out @ [take op out ! (length (take op out) - (op - ref - 1) - 1)]"
    using Suc.prems by (simp add: take_update_snoc)
  ultimately show ?case using Suc.prems
    by (simp add: rd8_word wr8_Ok repeat_back_first del: take_update_snoc)
qed simp

text \<open>Copying with \<open>memcpy\<close> gives the same when the areas do not overlap.\<close>

lemma repeat_back_disjoint:
  "n \<le> off + 1 \<Longrightarrow> off < length d \<Longrightarrow>
   repeat_back off n d = d @ take n (drop (length d - off - 1) d)"
proof (induction n)
  case (Suc n)
  have "length d - off - 1 + n < length d" using Suc.prems by simp
  then have t: "take (Suc n) (drop (length d - off - 1) d) =
      take n (drop (length d - off - 1) d) @ [d ! (length d - off - 1 + n)]"
    by (simp add: take_Suc_conv_app_nth)
  have "(d @ take n (drop (length d - off - 1) d)) ! (length d + n - off - 1) = d ! (length d - off - 1 + n)"
    using Suc.prems by (simp add: nth_append)
  then show ?case using Suc.prems unfolding t by (simp add: repeat_back.simps(2) Suc.IH Let_def min_def)
qed simp

lemma copy_back_Ok:
  assumes "ref < op" "op + (len + 2) \<le> length out"
  shows "copy_back out op ref len =
    Ok (repeat_back (op - ref - 1) (len + 2) (take op out) @ drop (op + (len + 2)) out)"
proof (cases "9 < len \<and> ref + (len + 2) \<le> op")
  case True
  have l: "length (take op out) = op" using assms by simp
  have c: "len + 2 \<le> op - ref - 1 + 1" "op - ref - 1 < length (take op out)" using True assms l by linarith+
  have "repeat_back (op - ref - 1) (len + 2) (take op out) =
      take op out @ take (len + 2) (drop (op - (op - ref - 1) - 1) (take op out))"
    using repeat_back_disjoint [OF c] unfolding l .
  also have "op - (op - ref - 1) - 1 = ref" using assms by simp
  also have "take (len + 2) (drop ref (take op out)) = take (len + 2) (drop ref out)"
    using True by (auto simp add: drop_take take_take min_def)
  finally show ?thesis using True assms by (simp add: copy_back_def memcpy_in_def)
next
  case False
  then show ?thesis using copy_ref_Ok [OF assms] by (auto simp: copy_back_def)
qed

text \<open>Whatever the input, the decompressor stays in both buffers and ends.\<close>

definition dstep_ok :: "nat \<Rightarrow> nat \<Rightarrow> u8 list \<Rightarrow> lzf_dstep \<Rightarrow> bool" where
  "dstep_ok in_end ip out r \<longleftrightarrow>
     (case r of
        Fail _ \<Rightarrow> True
      | More ip' op' out' \<Rightarrow> ip < ip' \<and> length out' = length out \<and> op' \<le> length out)"

lemma unlzf_literal_safe:
  "in_end \<le> length inp \<Longrightarrow> wp (dstep_ok in_end ip out) (unlzf_literal inp in_end ip op out ctrl)"
  by (auto simp: unlzf_literal_def dstep_ok_def copy_in_Ok simp del: copy_in.simps)

lemma unlzf_copy_safe:
  assumes "ip < length inp" "ref < int op"
  shows "wp (dstep_ok in_end ip out) (unlzf_copy inp ip op out len ref)"
proof -
  have "wp (\<lambda>out'. length out' = length out) (copy_back out op (nat ref') len)"
    if "op + len + 2 \<le> length out" "0 \<le> ref'" "ref' < int op" for ref'
    using that by (subst copy_back_Ok) (auto simp: nat_less_iff)
  moreover have "ref - int (unat (inp ! ip)) < int op" using assms(2) by linarith
  ultimately show ?thesis
    using assms(1) by (auto simp: unlzf_copy_def dstep_ok_def Let_def not_le not_less simp del: of_nat_unat)
qed

lemma unlzf_backref_safe:
  assumes "in_end \<le> length inp"
  shows "wp (dstep_ok in_end ip out) (unlzf_backref inp in_end ip op out ctrl)"
proof -
  have "wp (dstep_ok in_end ip out) (unlzf_copy inp (ip + 1) op out len ref)" if "ip + 1 < in_end" "ref < int op" for len ref
    using unlzf_copy_safe [of "ip + 1" inp ref op in_end out len] that assms
    by (auto simp: dstep_ok_def elim!: wp_mono split: lzf_dstep.splits)
  then show ?thesis
    using assms unlzf_copy_safe [of ip inp _ op in_end out] by (simp add: unlzf_backref_def Let_def dstep_ok_def)
qed

lemma unlzf_loop_safe:
  assumes "in_end \<le> length inp"
  shows "in_end - ip < fuel \<Longrightarrow> op \<le> length out \<Longrightarrow>
    wp (\<lambda>(n, e, out'). length out' = length out \<and> n \<le> length out \<and> (e = None \<or> n = 0))
       (unlzf_loop fuel inp in_end ip op out)"
proof (induction fuel arbitrary: ip op out)
  case (Suc fuel)
  show ?case
  proof (cases "ip < in_end")
    case True
    let ?step = "if unat (inp ! ip) < 32 then unlzf_literal inp in_end (ip + 1) op out (unat (inp ! ip))
      else unlzf_backref inp in_end (ip + 1) op out (unat (inp ! ip))"
    have s: "wp (dstep_ok in_end (ip + 1) out) ?step"
      using assms by (simp add: unlzf_literal_safe unlzf_backref_safe)
    have "wp (\<lambda>(n, e, out'). length out' = length out \<and> n \<le> length out \<and> (e = None \<or> n = 0))
        (case r of Fail e \<Rightarrow> Ok (0, Some e, out) | More ip op out \<Rightarrow> unlzf_loop fuel inp in_end ip op out)"
      if d: "dstep_ok in_end (ip + 1) out r" for r
    proof (cases r)
      case (More ip' op' out')
      then have o: "ip + 1 < ip'" "length out' = length out" "op' \<le> length out"
        using d by (simp_all add: dstep_ok_def)
      then have "in_end - ip' < fuel" using Suc.prems(1) True by linarith
      then show ?thesis using o More Suc.IH [of ip' op' out'] by simp
    qed simp
    then show ?thesis using True assms wp_mono [OF s] by (simp add: rd8_word Let_def)
  qed (use Suc.prems in simp)
qed simp

section \<open>Decompression of the format\<close>

lemma unat_lit_ctrl:
  assumes "l \<noteq> []" "length l \<le> 32" shows "unat (of_nat (length l) - 1 :: u8) = length l - 1"
proof -
  have "unat (of_nat (length l) :: u8) = length l" using assms by (intro unat_of_nat_lt) simp
  then show ?thesis using assms by (subst unat_sub) (auto simp: word_le_nat_alt Suc_le_eq)
qed

lemma unat_ref_ctrl:
  assumes "off < 8192" "len \<le> 7"
  shows "unat (of_nat (off div 256) + push_bit 5 (of_nat len) :: u8) = off div 256 + 32 * len"
proof -
  have o: "off div 256 < 32" using assms by (simp add: div_less_iff_less_mult)
  have "of_nat (off div 256) + push_bit 5 (of_nat len) = (of_nat (off div 256 + 32 * len) :: u8)"
    by (simp add: push_bit_eq_mult)
  moreover have "off div 256 + 32 * len < 2 ^ LENGTH(8)" using o assms by simp
  ultimately show ?thesis by (simp only: unat_of_nat_lt)
qed

lemma unat_off_low: "unat (of_nat off :: u8) = off mod 256"
  by (simp add: unat_of_nat)

text \<open>A prefix of the input that is in the format is decompressed, and the loop goes on behind it.\<close>

definition unlzf_reaches :: "packet \<Rightarrow> nat \<Rightarrow> u8 list \<Rightarrow> u8 list \<Rightarrow> u8 list \<Rightarrow> bool" where
  "unlzf_reaches inp in_end out e d \<longleftrightarrow>
     (\<exists>k \<le> length e. \<forall>m. unlzf_loop (k + m) inp in_end 0 0 out =
        unlzf_loop m inp in_end (length e) (length d) (d @ drop (length d) out))"

lemma unlzf_reaches_step:
  assumes "unlzf_reaches inp in_end out e d" "length e < in_end" "in_end \<le> length inp"
    "length e < length e'"
    "(if unat (inp ! length e) < 32 then unlzf_literal inp in_end (length e + 1) (length d) (d @ drop (length d) out) (unat (inp ! length e))
      else unlzf_backref inp in_end (length e + 1) (length d) (d @ drop (length d) out) (unat (inp ! length e))) =
     Ok (More (length e') (length d') (d' @ drop (length d') out))"
  shows "unlzf_reaches inp in_end out e' d'"
proof -
  obtain k where k: "k \<le> length e" "\<And>m. unlzf_loop (k + m) inp in_end 0 0 out =
        unlzf_loop m inp in_end (length e) (length d) (d @ drop (length d) out)"
    using assms(1) by (auto simp: unlzf_reaches_def)
  have "unlzf_loop (Suc k + m) inp in_end 0 0 out =
      unlzf_loop m inp in_end (length e') (length d') (d' @ drop (length d') out)" for m
    using k(2) [of "Suc m"] assms(2,3,5) by (simp add: rd8_word Let_def)
  then show ?thesis using k(1) assms(4) unfolding unlzf_reaches_def by (intro exI [of _ "Suc k"]) auto
qed

lemma take_append_nth: "take (length (e @ x # l)) inp = e @ x # l \<Longrightarrow> inp ! length e = x"
  by (metis (no_types, lifting) length_append length_Cons less_add_same_cancel1 nth_append_length nth_take zero_less_Suc)

lemma unlzf_reaches_literal:
  assumes R: "unlzf_reaches inp in_end out e d" and l: "l \<noteq> []" "length l \<le> 32"
    and inp: "take (length (e @ (of_nat (length l) - 1) # l)) inp = e @ (of_nat (length l) - 1) # l"
    and fit: "length (e @ (of_nat (length l) - 1 :: u8) # l) \<le> in_end" "in_end \<le> length inp"
      "length (d @ l) \<le> length out"
  shows "unlzf_reaches inp in_end out (e @ (of_nat (length l) - 1) # l) (d @ l)"
proof (rule unlzf_reaches_step [OF R _ fit(2)])
  let ?c = "of_nat (length l) - 1 :: u8" and ?out = "d @ drop (length d) out"
  have c: "inp ! length e = ?c" "unat ?c = length l - 1" "unat ?c < 32"
    using take_append_nth [OF inp] unat_lit_ctrl [OF l] l by simp_all
  have "take (length l) (drop (length e + 1) (take (length (e @ ?c # l)) inp)) = l" unfolding inp by simp
  then have t: "take (length l) (drop (length e + 1) inp) = l" by (simp add: drop_take)
  have copy: "copy_in inp (length e + 1) ?out (length d) (length l) =
      Ok (d @ l @ drop (length d + length l) out)"
    using fit t by (subst copy_in_Ok) (simp_all add: add.commute)
  have "length l - 1 + 1 = length l" using l(1) by (cases l) simp_all
  then show "(if unat (inp ! length e) < 32 then unlzf_literal inp in_end (length e + 1) (length d) ?out (unat (inp ! length e))
      else unlzf_backref inp in_end (length e + 1) (length d) ?out (unat (inp ! length e))) =
     Ok (More (length (e @ ?c # l)) (length (d @ l)) ((d @ l) @ drop (length (d @ l)) out))"
    using c fit l copy by (simp add: unlzf_literal_def Let_def)
qed (use fit l in simp_all)

lemma unlzf_copy_ref:
  assumes "ip < length inp" "inp ! ip = of_nat off" "off < length d" "length d + len + 2 \<le> length out"
  shows "unlzf_copy inp ip (length d) (d @ drop (length d) out) len (int (length d) - int (off div 256 * 256) - 1) =
    Ok (More (ip + 1) (length d + len + 2) (repeat_back off (len + 2) d @ drop (length d + len + 2) out))"
proof -
  let ?ref = "length d - off - 1"
  have "int (off div 256 * 256) + int (off mod 256) = int off" by (metis div_mult_mod_eq of_nat_add)
  then have r: "int (length d) - int (off div 256 * 256) - 1 - int (unat (inp ! ip)) = int ?ref"
    using assms(3) by (simp add: assms(2) unat_off_low)
  have "copy_back (d @ drop (length d) out) (length d) ?ref len =
      Ok (repeat_back off (len + 2) d @ drop (length d + (len + 2)) out)"
    using assms(3,4) by (subst copy_back_Ok) (simp_all add: add.commute)
  then show ?thesis
    using assms(1,4) unfolding unlzf_copy_def rd8_word [OF assms(1)] bind_res.simps Let_def r
    by (simp add: add.assoc)
qed

lemma unlzf_reaches_backref:
  assumes R: "unlzf_reaches inp in_end out e d" and off: "off < 8192" "off < length d"
    and len: "len \<le> 262" "1 \<le> len"
    and inp: "take (length (e @ ref_token off len)) inp = e @ ref_token off len"
    and fit: "length (e @ ref_token off len) \<le> in_end" "in_end \<le> length inp"
      "length d + len + 2 \<le> length out"
  shows "unlzf_reaches inp in_end out (e @ ref_token off len) (repeat_back off (len + 2) d)"
proof -
  let ?out = "d @ drop (length d) out" and ?tok = "ref_token off len"
  have nth: "inp ! (length e + i) = ?tok ! i" if "i < length ?tok" for i
    using inp that by (metis add_less_cancel_left length_append nth_append_length_plus nth_take)
  have lt: "length e + length ?tok \<le> in_end" using fit(1) by simp
  have o: "off div 256 < 32" using off(1) by (simp add: div_less_iff_less_mult)
  note copy = unlzf_copy_ref [OF _ _ off(2) fit(3)]
  have "unlzf_backref inp in_end (length e + 1) (length d) ?out (unat (inp ! length e)) =
      Ok (More (length e + length ?tok) (length d + len + 2) (repeat_back off (len + 2) d @ drop (length d + len + 2) out))
    \<and> 32 \<le> unat (inp ! length e)"
  proof (cases "len < 7")
    case True
    then have c: "unat (inp ! length e) = off div 256 + 32 * len" "inp ! (length e + 1) = of_nat off" "length ?tok = 2"
      using nth [of 0] nth [of 1] unat_ref_ctrl [OF off(1), of len] by (simp_all add: ref_token_def)
    then show ?thesis
      using True copy [of "length e + 1"] lt fit(2) o len(2) by (simp add: unlzf_backref_def Let_def)
  next
    case False
    then have t: "?tok = [of_nat (off div 256) + push_bit 5 7, of_nat (len - 7), of_nat off]"
      by (simp add: ref_token_def)
    have u: "unat (of_nat (len - 7) :: u8) = len - 7" using len False by (intro unat_of_nat_lt) simp
    have c: "unat (inp ! length e) = off div 256 + 32 * 7" "unat (inp ! (length e + 1)) = len - 7"
      "inp ! (length e + 2) = of_nat off"
      using nth [of 0] nth [of 1] nth [of 2] unat_ref_ctrl [OF off(1), of 7] u by (simp_all add: t)
    have "(a + 32 * k) div 32 = k \<and> (a + 32 * k) mod 32 = a" if "a < 32" for a k :: nat using that by simp
    from this [OF o, of 7] have dm: "(off div 256 + 224) div 32 = 7" "(off div 256 + 224) mod 32 = off div 256"
      by simp_all
    have "length e + 2 < in_end" "length ?tok = 3" using lt by (simp_all add: t)
    then show ?thesis
      using False c copy [of "length e + 2"] lt fit(2) o
      by (simp add: unlzf_backref_def Let_def rd8_word dm)
  qed
  then show ?thesis
    using lt fit(2) by (intro unlzf_reaches_step [OF R]) (auto simp: ref_token_def add.assoc)
qed

lemma lzf_encodes_reaches:
  assumes "lzf_encodes e d"
  shows "take (length e) inp = e \<Longrightarrow> length e \<le> in_end \<Longrightarrow> in_end \<le> length inp \<Longrightarrow> length d \<le> length out
    \<Longrightarrow> unlzf_reaches inp in_end out e d"
  using assms
proof (induction rule: lzf_encodes.induct)
  case lzf_empty
  then show ?case by (auto simp: unlzf_reaches_def)
next
  case (lzf_literal e d l)
  have "take (length e) inp = e"
    using lzf_literal.prems(1) by (metis append_eq_conv_conj take_append take_take length_append min.absorb1 le_add1)
  with lzf_literal show ?case by (intro unlzf_reaches_literal) simp_all
next
  case (lzf_backref e d off len)
  have "take (length e) inp = e"
    using lzf_backref.prems(1) by (metis append_eq_conv_conj take_append take_take length_append min.absorb1 le_add1)
  with lzf_backref show ?case by (intro unlzf_reaches_backref) simp_all
qed

lemma lzf_decompress_encoded:
  assumes "lzf_encodes e d" "length d \<le> length out" "length e < fuel"
  shows "lzf_decompress fuel e (length e) out = Ok (length d, None, d @ drop (length d) out)"
proof -
  have "unlzf_reaches e (length e) out e d" by (rule lzf_encodes_reaches [OF assms(1)]) (simp_all add: assms(2))
  then obtain k where k: "k \<le> length e" "\<And>m. unlzf_loop (k + m) e (length e) 0 0 out =
        unlzf_loop m e (length e) (length e) (length d) (d @ drop (length d) out)"
    by (auto simp: unlzf_reaches_def)
  obtain m where m: "fuel = k + Suc m" using k(1) assms(3) by (metis add_Suc_right less_imp_Suc_add order_le_less_trans)
  show ?thesis by (simp add: lzf_decompress_def m k(2) del: add_Suc_right)
qed

section \<open>The compressor writes the format\<close>

text \<open>What is in front of the current run encodes the input in front of it, and the run holds the
  literals since then. The output is never much longer than the input.\<close>

definition run_ok :: "packet \<Rightarrow> lzf_vars \<Rightarrow> bool" where
  "run_ok inp s \<longleftrightarrow>
     lz_lit s \<le> 32 \<and> lz_lit s + 1 \<le> lz_op s \<and> lz_lit s \<le> lz_ip s \<and>
     lzf_encodes (take (lz_op s - lz_lit s - 1) (lz_out s)) (take (lz_ip s - lz_lit s) inp) \<and>
     take (lz_lit s) (drop (lz_op s - lz_lit s) (lz_out s)) = take (lz_lit s) (drop (lz_ip s - lz_lit s) inp)"

definition lzf_inv :: "packet \<Rightarrow> nat \<Rightarrow> lzf_vars \<Rightarrow> bool" where
  "lzf_inv inp in_end s \<longleftrightarrow>
     run_ok inp s \<and> lz_lit s < 32 \<and> lz_ip s \<le> in_end \<and>
     lz_op s \<le> length (lz_out s) + (if lz_lit s = 0 then 1 else 0) \<and>
     lz_op s \<le> lz_ip s + (lz_ip s - lz_lit s) div 32 + 1"

definition run_end :: "lzf_vars \<Rightarrow> nat" where
  "run_end s = lz_op s - (if lz_lit s = 0 then 1 else 0)"

lemma lzf_inv_upd [simp]:
  "lzf_inv inp in_end (s\<lparr>lz_hval := h\<rparr>) = lzf_inv inp in_end s"
  "lzf_inv inp in_end (s\<lparr>lz_htab := t\<rparr>) = lzf_inv inp in_end s"
  by (simp_all add: lzf_inv_def run_ok_def)

lemma stop_run_encodes:
  assumes I: "run_ok inp s" and room: "run_end s \<le> length (lz_out s)" "lz_op s - lz_lit s - 1 < length (lz_out s)"
    and ip: "lz_ip s \<le> length inp"
  shows "\<exists>out. stop_run s = Ok (s\<lparr>lz_out := out\<rparr>) \<and> length out = length (lz_out s) \<and>
    lzf_encodes (take (run_end s) out) (take (lz_ip s) inp)"
proof -
  let ?o = "lz_op s" and ?l = "lz_lit s" and ?i = "lz_ip s" and ?c = "of_nat (lz_lit s) - 1 :: u8"
  let ?out = "(lz_out s)[?o - ?l - 1 := ?c]"
  have b: "?l \<le> 32" "?l + 1 \<le> ?o" "?l \<le> ?i" using I by (simp_all add: run_ok_def)
  have stop: "stop_run s = Ok (s\<lparr>lz_out := ?out\<rparr>)" using b room by (simp add: stop_run_def wr8_Ok)
  have e: "lzf_encodes (take (?o - ?l - 1) (lz_out s)) (take (?i - ?l) inp)"
    and r: "take ?l (drop (?o - ?l) (lz_out s)) = take ?l (drop (?i - ?l) inp)"
    using I by (simp_all add: run_ok_def)
  have "lzf_encodes (take (run_end s) ?out) (take ?i inp)"
  proof (cases "?l = 0")
    case True
    then show ?thesis using e by (simp add: run_end_def)
  next
    case False
    let ?run = "take ?l (drop (?i - ?l) inp)"
    have l: "length ?run = ?l" using b ip by simp
    have "take ?o ?out = take (?o - ?l - 1) (lz_out s) @ ?c # ?run"
    proof -
      have "take ?o ?out = take (?o - ?l - 1) ?out @ take (?l + 1) (drop (?o - ?l - 1) ?out)"
        using take_add [of "?o - ?l - 1" "?l + 1" ?out] b by simp
      also have "drop (?o - ?l - 1) ?out = ?c # drop (?o - ?l) (lz_out s)"
        using b room Cons_nth_drop_Suc [of "?o - ?l - 1" ?out] by (simp add: Suc_diff_Suc)
      finally show ?thesis using r by simp
    qed
    moreover have "take ?i inp = take (?i - ?l) inp @ ?run" using take_add [of "?i - ?l" ?l inp] b by simp
    moreover have "lzf_encodes (take (?o - ?l - 1) (lz_out s) @ (of_nat (length ?run) - 1) # ?run) (take (?i - ?l) inp @ ?run)"
      using e False l b by (intro lzf_literal) auto
    ultimately show ?thesis using False l by (simp add: run_end_def)
  qed
  with stop show ?thesis by (intro exI [of _ ?out]) simp
qed

lemma put_lit_inv:
  assumes I: "lzf_inv inp in_end s" and ip: "lz_ip s < in_end" "in_end \<le> length inp"
    and room: "lz_op s < length (lz_out s)"
  shows "\<exists>s'. put_lit inp s = Ok s' \<and> lzf_inv inp in_end s' \<and> lz_ip s' = lz_ip s + 1 \<and>
    length (lz_out s') = length (lz_out s) \<and>
    (lz_op s', lz_lit s') = (if lz_lit s = 31 then (lz_op s + 2, 0) else (lz_op s + 1, lz_lit s + 1))"
proof -
  let ?o = "lz_op s" and ?l = "lz_lit s" and ?i = "lz_ip s"
  let ?out = "(lz_out s)[?o := inp ! ?i]"
  let ?s = "s\<lparr>lz_lit := ?l + 1, lz_op := ?o + 1, lz_ip := ?i + 1, lz_out := ?out\<rparr>"
  have b: "?l < 32" "?l + 1 \<le> ?o" "?l \<le> ?i" "?o \<le> ?i + (?i - ?l) div 32 + 1"
    using I by (simp_all add: lzf_inv_def run_ok_def)
  have run: "take (?l + 1) (drop (?o - ?l) ?out) = take (?l + 1) (drop (?i - ?l) inp)"
  proof -
    have "take (?l + 1) (drop (?o - ?l) ?out) = take ?l (drop (?o - ?l) (lz_out s)) @ [inp ! ?i]"
      using b room by (simp add: take_Suc_conv_app_nth drop_update_swap)
    also have "\<dots> = take ?l (drop (?i - ?l) inp) @ [inp ! ?i]" using I by (simp add: lzf_inv_def run_ok_def)
    also have "\<dots> = take (?l + 1) (drop (?i - ?l) inp)" using b ip by (simp add: take_Suc_conv_app_nth)
    finally show ?thesis .
  qed
  have R: "run_ok inp ?s" using I b run by (simp add: lzf_inv_def run_ok_def)
  have put: "put_lit inp s = (if ?l = 31 then bind_res (stop_run ?s) (\<lambda>s. Ok (s\<lparr>lz_lit := 0, lz_op := lz_op s + 1\<rparr>)) else Ok ?s)"
    using ip room by (simp add: put_lit_def rd8_word wr8_Ok MAX_LIT_def)
  show ?thesis
  proof (cases "?l = 31")
    case False
    then have "lzf_inv inp in_end ?s" using b R ip room by (simp add: lzf_inv_def)
    with False put show ?thesis by simp
  next
    case True
    obtain out where out: "stop_run ?s = Ok (?s\<lparr>lz_out := out\<rparr>)" "length out = length ?out"
      "lzf_encodes (take (run_end ?s) out) (take (?i + 1) inp)"
      using stop_run_encodes [OF R] ip room b by (force simp: run_end_def)
    have d: "(?i - 31) div 32 + 1 = (?i + 1) div 32"
      using b True div_add_self2 [of 32 "?i - 31"] by simp
    let ?t = "?s\<lparr>lz_out := out, lz_lit := 0, lz_op := ?o + 2\<rparr>"
    have "lzf_inv inp in_end ?t"
      using out b d True ip room by (simp add: lzf_inv_def run_ok_def run_end_def)
    moreover have "put_lit inp s = Ok ?t" using True put out by simp
    ultimately show ?thesis using out True by simp
  qed
qed

text \<open>The comparisons of a match.\<close>

definition matched :: "packet \<Rightarrow> nat \<Rightarrow> nat \<Rightarrow> nat \<Rightarrow> bool" where
  "matched inp ref ip n \<longleftrightarrow> (\<forall>i<n. inp ! (ip + i) = inp ! (ref + i))"

lemma matched_Suc: "matched inp ref ip (Suc n) \<longleftrightarrow> matched inp ref ip n \<and> inp ! (ip + n) = inp ! (ref + n)"
  by (auto simp: matched_def less_Suc_eq)

lemma match_unrolled_wp:
  "matched inp ref ip (Suc len) \<Longrightarrow> ref < ip \<Longrightarrow> ip + len + n < length inp \<Longrightarrow>
   wp (\<lambda>(stop, m). len \<le> m \<and> m \<le> len + n \<and>
     (if stop then len < m \<and> matched inp ref ip m else m = len + n \<and> matched inp ref ip (Suc m))) (match_unrolled n inp (int ref) ip len)"
proof (induction n arbitrary: len)
  case (Suc n)
  have r: "rd8_int inp (int ref + int (len + 1)) = Ok (inp ! (ref + (len + 1)))"
    using Suc.prems by (simp add: rd8_int_def rd8_word nat_add_distrib flip: of_nat_add)
  show ?case
  proof (cases "inp ! (ref + (len + 1)) = inp ! (ip + (len + 1))")
    case True
    then have "matched inp ref ip (Suc (len + 1))" using Suc.prems by (simp add: matched_Suc)
    then have "wp (\<lambda>(stop, m). len + 1 \<le> m \<and> m \<le> len + 1 + n \<and>
     (if stop then len + 1 < m \<and> matched inp ref ip m else m = len + 1 + n \<and> matched inp ref ip (Suc m))) (match_unrolled n inp (int ref) ip (len + 1))"
      using Suc.prems by (intro Suc.IH) simp_all
    then show ?thesis using r True Suc.prems by (auto simp: rd8_word elim!: wp_mono split: if_splits)
  next
    case False
    then show ?thesis using r Suc.prems by (simp add: rd8_word)
  qed
qed (simp add: matched_Suc)

lemma match_while_wp:
  "matched inp ref ip (Suc len) \<Longrightarrow> ref < ip \<Longrightarrow> ip + maxlen \<le> length inp \<Longrightarrow>
   wp (\<lambda>m. len < m \<and> m \<le> max (Suc len) maxlen \<and> matched inp ref ip m) (match_while inp (int ref) ip maxlen len)"
proof (induction "maxlen - len" arbitrary: len rule: less_induct)
  case less
  show ?case
  proof (cases "len + 1 < maxlen")
    case True
    have r: "rd8_int inp (int ref + int (len + 1)) = Ok (inp ! (ref + (len + 1)))"
      using less.prems True by (simp add: rd8_int_def rd8_word nat_add_distrib flip: of_nat_add)
    show ?thesis
    proof (cases "inp ! (ref + (len + 1)) = inp ! (ip + (len + 1))")
      case eq: True
      then have "matched inp ref ip (Suc (len + 1))" using less.prems by (simp add: matched_Suc)
      then have "wp (\<lambda>m. len + 1 < m \<and> m \<le> max (Suc (len + 1)) maxlen \<and> matched inp ref ip m)
          (match_while inp (int ref) ip maxlen (len + 1))"
        using less.prems True by (intro less.hyps) simp_all
      then show ?thesis using r eq True less.prems
        by (auto simp: match_while.simps [of _ _ _ _ len] rd8_word elim!: wp_mono)
    next
      case False
      then show ?thesis using r True less.prems by (simp add: match_while.simps [of _ _ _ _ len] rd8_word)
    qed
  qed (use less.prems in \<open>simp add: match_while.simps [of _ _ _ _ len]\<close>)
qed

lemma match_length_wp:
  assumes "matched inp ref ip 3" "ref < ip" "ip + maxlen + 2 \<le> length inp" "1 \<le> maxlen" "maxlen \<le> MAX_REF"
  shows "wp (\<lambda>m. 3 \<le> m \<and> m \<le> max 3 (maxlen + 2) \<and> m \<le> MAX_REF \<and> matched inp ref ip m)
    (match_length inp (int ref) ip maxlen)"
proof (cases "16 < maxlen")
  case True
  have "wp (\<lambda>(stop, m). 2 \<le> m \<and> m \<le> 2 + 16 \<and>
     (if stop then 2 < m \<and> matched inp ref ip m else m = 2 + 16 \<and> matched inp ref ip (Suc m))) (match_unrolled 16 inp (int ref) ip 2)"
    using assms True by (intro match_unrolled_wp) (simp_all add: numeral_3_eq_3 numeral_2_eq_2)
  moreover have "matched inp ref ip (Suc 18) \<Longrightarrow>
      wp (\<lambda>m. 18 < m \<and> m \<le> max (Suc 18) maxlen \<and> matched inp ref ip m) (match_while inp (int ref) ip maxlen 18)"
    using assms by (intro match_while_wp) simp_all
  ultimately show ?thesis using True assms
    by (auto simp: match_length_def MAX_REF_def wp_iff le_max_iff_disj split: if_splits elim!: wp_mono)
next
  case False
  have "wp (\<lambda>m. 2 < m \<and> m \<le> max (Suc 2) maxlen \<and> matched inp ref ip m) (match_while inp (int ref) ip maxlen 2)"
    using assms by (intro match_while_wp) (simp_all add: numeral_3_eq_3 numeral_2_eq_2)
  then show ?thesis using False assms by (auto simp: match_length_def MAX_REF_def elim!: wp_mono)
qed

lemma put_ref_token:
  assumes "lz_op s + length (ref_token off len) \<le> length (lz_out s)"
  shows "\<exists>out. put_ref off len s = Ok (s\<lparr>lz_out := out, lz_op := lz_op s + length (ref_token off len)\<rparr>) \<and>
    length out = length (lz_out s) \<and>
    take (lz_op s + length (ref_token off len)) out = take (lz_op s) (lz_out s) @ ref_token off len"
proof (cases "len < 7")
  case True
  then show ?thesis using assms
    by (intro exI [of _ "(lz_out s)[lz_op s := of_nat (off div 256) + push_bit 5 (of_nat len), lz_op s + 1 := of_nat off]"])
       (simp add: put_ref_def put_byte_def ref_token_def wr8_Ok take_Suc_conv_app_nth)
next
  case False
  then show ?thesis using assms
    by (intro exI [of _ "(lz_out s)[lz_op s := of_nat (off div 256) + push_bit 5 7, lz_op s + 1 := of_nat (len - 7), lz_op s + 2 := of_nat off]"])
       (simp add: put_ref_def put_byte_def ref_token_def wr8_Ok take_Suc_conv_app_nth)
qed

lemma enter_hash_Ok:
  "lz_ip s + 2 < length inp \<Longrightarrow>
   \<exists>h t. enter_hash inp s = Ok (s\<lparr>lz_hval := h, lz_htab := t, lz_ip := lz_ip s + 1\<rparr>)"
  by (auto simp: enter_hash_def NEXT_def rd8_word)

text \<open>After a match: the tokens so far stand for the input so far.\<close>

lemma run_empty_inv:
  assumes "lzf_encodes (take n out) (take ip inp)" "lz_op s = n + 1" "lz_lit s = 0" "lz_ip s = ip" "lz_out s = out"
    "n \<le> length out" "ip \<le> in_end" "n \<le> ip + ip div 32"
  shows "lzf_inv inp in_end s"
  using assms by (simp add: lzf_inv_def run_ok_def)

lemma match_encodes:
  assumes e: "lzf_encodes e (take ip inp)" and m: "matched inp (ip - off - 1) ip n"
    and "off < 8192" "off < ip" "3 \<le> n" "n \<le> MAX_REF" "ip + n \<le> length inp"
  shows "lzf_encodes (e @ ref_token off (n - 2)) (take (ip + n) inp)"
proof -
  have "lzf_encodes (e @ ref_token off (n - 2)) (repeat_back off (n - 2 + 2) (take ip inp))"
    using assms by (intro lzf_backref) (simp_all add: MAX_REF_def)
  moreover have "repeat_back off n (take ip inp) = take (ip + n) inp"
    using assms by (intro repeat_back_prefix) (simp_all add: matched_def)
  moreover have "n - 2 + 2 = n" using assms(5) by simp
  ultimately show ?thesis by metis
qed

text \<open>A full step either gives up, which needs an output buffer that is not much longer than the
  input, or keeps the invariant and moves on.\<close>

definition roomy :: "nat \<Rightarrow> nat \<Rightarrow> bool" where
  "roomy in_end out_len \<longleftrightarrow> in_end + in_end div 32 + 4 \<le> out_len"

definition lzf_post :: "packet \<Rightarrow> nat \<Rightarrow> lzf_vars \<Rightarrow> (bool \<times> lzf_vars) option \<Rightarrow> bool" where
  "lzf_post inp in_end s r \<longleftrightarrow> (case r of
     None \<Rightarrow> \<not> roomy in_end (length (lz_out s))
   | Some (go, s') \<Rightarrow> lzf_inv inp in_end s' \<and> length (lz_out s') = length (lz_out s) \<and> lz_ip s < lz_ip s' \<and>
       (go \<or> in_end - 2 \<le> lz_ip s'))"

lemma lzf_inv_size: "lzf_inv inp in_end s \<Longrightarrow> lz_op s \<le> lz_ip s + lz_ip s div 32 + 1"
  using div_le_mono [of "lz_ip s - lz_lit s" "lz_ip s" 32] by (simp add: lzf_inv_def)

lemma lzf_rehash_wp:
  assumes "lzf_inv inp in_end s" "in_end \<le> length inp" "2 \<le> lz_ip s"
  shows "wp (\<lambda>(go, s'). lzf_inv inp in_end s' \<and> lz_out s' = lz_out s \<and> lz_ip s' = lz_ip s \<and> (go \<or> in_end - 2 \<le> lz_ip s))
    (lzf_rehash inp in_end s)"
proof (cases "in_end - 2 \<le> lz_ip s")
  case False
  have "Suc (Suc (lz_ip s - 2)) = lz_ip s" using assms(3) by simp
  then show ?thesis using assms False
    by (simp add: lzf_rehash_def FRST_def enter_hash_def NEXT_def rd8_word lzf_inv_def run_ok_def)
qed (use assms in \<open>simp add: lzf_rehash_def\<close>)

lemma match_tail_wp:
  assumes e: "lzf_encodes (take (lz_op s) (lz_out s)) (take ip inp)" and s: "lz_ip s = ip" "lz_op s \<le> ip + ip div 32 + 1"
    and room: "lz_op s + 4 < length (lz_out s)" and off: "off < 8192" "off < ip"
    and m: "matched inp (ip - off - 1) ip m" "3 \<le> m" "m \<le> MAX_REF" "ip + m \<le> in_end" "in_end \<le> length inp"
  shows "wp (\<lambda>(go, s'). lzf_inv inp in_end s' \<and> length (lz_out s') = length (lz_out s) \<and> lz_ip s' = ip + m \<and>
      (go \<or> in_end - 2 \<le> ip + m))
    (bind_res (put_ref off (m - 2) s) (\<lambda>s. lzf_rehash inp in_end
        (s\<lparr>lz_lit := 0, lz_op := lz_op s + 1, lz_ip := lz_ip s + 1 + (m - 2 + 1)\<rparr>)))"
proof -
  let ?tok = "ref_token off (m - 2)"
  have tok: "length ?tok = (if m < 9 then 2 else 3)" using m(2) by (auto simp: ref_token_def)
  obtain out where out: "put_ref off (m - 2) s = Ok (s\<lparr>lz_out := out, lz_op := lz_op s + length ?tok\<rparr>)"
    "length out = length (lz_out s)" "take (lz_op s + length ?tok) out = take (lz_op s) (lz_out s) @ ?tok"
    using put_ref_token [of s off "m - 2"] room tok by (auto split: if_splits)
  let ?s = "s\<lparr>lz_out := out, lz_lit := 0, lz_op := lz_op s + length ?tok + 1, lz_ip := ip + m\<rparr>"
  have "lzf_encodes (take (lz_op s) (lz_out s) @ ?tok) (take (ip + m) inp)"
    using assms by (intro match_encodes) simp_all
  moreover have "lz_op s + length ?tok \<le> ip + m + (ip + m) div 32"
    using tok s(2) m(2) div_le_mono [of ip "ip + m" 32] by (simp split: if_splits)
  ultimately have "lzf_inv inp in_end ?s"
    using out m room tok by (intro run_empty_inv [of "lz_op s + length ?tok" out]) (simp_all split: if_splits)
  then have "wp (\<lambda>(go, s'). lzf_inv inp in_end s' \<and> lz_out s' = lz_out ?s \<and> lz_ip s' = lz_ip ?s \<and> (go \<or> in_end - 2 \<le> lz_ip ?s))
      (lzf_rehash inp in_end ?s)"
    using m by (intro lzf_rehash_wp) simp_all
  moreover have "Suc (Suc (ip + m - 2)) = ip + m" using m(2) by simp
  ultimately show ?thesis using out s m(2) by (auto elim!: wp_mono)
qed

lemma no_room_iff:
  "lz_op s + 3 + 1 \<ge> n \<and> lz_op s - (if lz_lit s = 0 then 1 else 0) + 3 + 1 \<ge> n \<longleftrightarrow> run_end s + 4 \<ge> n"
  by (auto simp: run_end_def)

lemma lzf_match_wp:
  assumes I: "lzf_inv inp in_end s" and ip: "lz_ip s < in_end - 2" "in_end \<le> length inp"
    and off: "off < 8192" "off < lz_ip s" and m: "matched inp (lz_ip s - off - 1) (lz_ip s) 3"
  shows "wp (lzf_post inp in_end s) (lzf_match inp in_end (int (lz_ip s - off - 1)) off s)"
proof (cases "run_end s + 4 \<ge> length (lz_out s)")
  case True
  have "lz_op s \<le> in_end + in_end div 32 - 2"
    using lzf_inv_size [OF I] ip div_le_mono [of "lz_ip s" in_end 32] by simp
  then have "\<not> roomy in_end (length (lz_out s))" using True ip by (simp add: roomy_def run_end_def)
  then show ?thesis using True unfolding lzf_match_def Let_def no_room_iff by (simp add: lzf_post_def)
next
  case False
  let ?ip = "lz_ip s" and ?n = "run_end s"
  have b: "lz_lit s < 32" "lz_lit s + 1 \<le> lz_op s" "run_ok inp s" using I by (simp_all add: lzf_inv_def run_ok_def)
  obtain out where out: "stop_run s = Ok (s\<lparr>lz_out := out\<rparr>)" "length out = length (lz_out s)"
    "lzf_encodes (take ?n out) (take ?ip inp)"
    using stop_run_encodes [OF b(3)] False ip b by (force simp: run_end_def split: if_splits)
  have len: "wp (\<lambda>m. 3 \<le> m \<and> m \<le> in_end - ?ip \<and> m \<le> MAX_REF \<and> matched inp (?ip - off - 1) ?ip m)
      (match_length inp (int (?ip - off - 1)) ?ip (min MAX_REF (in_end - ?ip - 2)))"
    by (rule wp_mono [OF match_length_wp]) (use assms in \<open>auto simp: MAX_REF_def\<close>)
  let ?s = "s\<lparr>lz_out := out, lz_op := ?n\<rparr>"
  have ref: "wp (\<lambda>(go, s'). lzf_inv inp in_end s' \<and> length (lz_out s') = length (lz_out s) \<and> lz_ip s' = ?ip + m \<and>
      (go \<or> in_end - 2 \<le> ?ip + m))
    (bind_res (put_ref off (m - 2) ?s) (\<lambda>s. lzf_rehash inp in_end
      (s\<lparr>lz_lit := 0, lz_op := lz_op s + 1, lz_ip := lz_ip s + 1 + (m - 2 + 1)\<rparr>)))"
    if "3 \<le> m" "m \<le> in_end - ?ip" "m \<le> MAX_REF" "matched inp (?ip - off - 1) ?ip m" for m
    using match_tail_wp [of ?s ?ip inp off m in_end] that out False off ip lzf_inv_size [OF I]
    by (simp add: run_end_def)
  have "lzf_match inp in_end (int (?ip - off - 1)) off s =
      bind_res (match_length inp (int (?ip - off - 1)) ?ip (min MAX_REF (in_end - ?ip - 2))) (\<lambda>m.
        map_res Some (bind_res (put_ref off (m - 2) ?s) (\<lambda>s. lzf_rehash inp in_end
          (s\<lparr>lz_lit := 0, lz_op := lz_op s + 1, lz_ip := lz_ip s + 1 + (m - 2 + 1)\<rparr>))))"
    using False out unfolding lzf_match_def Let_def no_room_iff by (simp add: run_end_def map_res_bind bind_res_assoc)
  moreover obtain m where m: "match_length inp (int (?ip - off - 1)) ?ip (min MAX_REF (in_end - ?ip - 2)) = Ok m"
    "3 \<le> m" "m \<le> in_end - ?ip" "m \<le> MAX_REF" "matched inp (?ip - off - 1) ?ip m"
    using len by (auto simp: wp_iff)
  ultimately have "lzf_match inp in_end (int (?ip - off - 1)) off s =
      map_res Some (bind_res (put_ref off (m - 2) ?s) (\<lambda>s. lzf_rehash inp in_end
        (s\<lparr>lz_lit := 0, lz_op := lz_op s + 1, lz_ip := lz_ip s + 1 + (m - 2 + 1)\<rparr>)))" by simp
  then show ?thesis using ref [OF m(2-5)] m(2) unfolding wp_map wp_iff by (fastforce simp: lzf_post_def)
qed

lemma lzf_found_wp:
  assumes "ip + 2 < length inp"
  shows "wp (\<lambda>found. found \<longrightarrow> (\<exists>off. ref = int (ip - off - 1) \<and> off < 8192 \<and> off < ip \<and>
      nat (int ip - ref - 1) = off \<and> matched inp (ip - off - 1) ip 3)) (lzf_found inp ref ip)"
proof (cases "0 \<le> int ip - ref - 1 \<and> int ip - ref - 1 < MAX_OFF \<and> 0 < ref")
  case True
  define off where "off = nat (int ip - ref - 1)"
  have off: "ref = int (ip - off - 1)" "off < 8192" "off < ip" using True by (auto simp: off_def MAX_OFF_def)
  let ?r = "ip - off - 1"
  have rd: "rd8_int inp (ref + int k) = Ok (inp ! (?r + k))" if "k < 3" for k
  proof -
    have "ref + int k = int (?r + k)" using off(1) by simp
    then show ?thesis using assms off(3) that unfolding rd8_int_def by (simp add: rd8_word del: of_nat_add of_nat_diff)
  qed
  have "rd8_int inp (ref + 2) = Ok (inp ! (?r + 2))" "rd8_int inp (ref + 1) = Ok (inp ! (?r + 1))"
    "rd8_int inp ref = Ok (inp ! ?r)" using rd [of 2] rd [of 1] rd [of 0] by simp_all
  then have "lzf_found inp ref ip = Ok (matched inp ?r ip 3)"
    using True assms by (auto simp: lzf_found_def rd8_word matched_def numeral_3_eq_3 numeral_2_eq_2 less_Suc_eq)
  then show ?thesis using off by (auto simp flip: off_def)
qed (auto simp: lzf_found_def)

lemma lit_step_wp:
  assumes I: "lzf_inv inp in_end s" and ip: "lz_ip s < in_end - 2" "in_end \<le> length inp"
  shows "wp (lzf_post inp in_end s)
    (if lz_op s \<ge> length (lz_out s) then Ok None else map_res (\<lambda>s. Some (True, s)) (put_lit inp s))"
proof (cases "lz_op s \<ge> length (lz_out s)")
  case True
  then show ?thesis using lzf_inv_size [OF I] ip div_le_mono [of "lz_ip s" in_end 32] by (simp add: lzf_post_def roomy_def)
next
  case False
  then obtain s' where "put_lit inp s = Ok s'" "lzf_inv inp in_end s'" "lz_ip s' = lz_ip s + 1"
    "length (lz_out s') = length (lz_out s)"
    using put_lit_inv [OF I] ip by (metis add_lessD1 less_diff_conv not_le)
  then show ?thesis using False by (simp add: lzf_post_def)
qed

lemma lzf_step_wp:
  assumes I: "lzf_inv inp in_end s" and ip: "lz_ip s < in_end - 2" "in_end \<le> length inp"
  shows "wp (lzf_post inp in_end s) (lzf_step inp in_end s)"
proof -
  define h where "h = push_bit 8 (lz_hval s) OR ucast (inp ! (lz_ip s + 2))"
  define t where "t = s\<lparr>lz_hval := h, lz_htab := (lz_htab s)(IDX h := int (lz_ip s))\<rparr>"
  have t: "lzf_inv inp in_end t" "lz_ip t = lz_ip s" "lz_out t = lz_out s" using I by (simp_all add: t_def)
  have post: "lzf_post inp in_end s = lzf_post inp in_end t" unfolding lzf_post_def t ..
  have "NEXT (lz_hval s) inp (lz_ip s) = Ok h" using ip by (simp add: NEXT_def h_def rd8_word)
  then have step: "lzf_step inp in_end s = bind_res (lzf_found inp (lz_htab s (IDX h)) (lz_ip t)) (\<lambda>found.
        if found then lzf_match inp in_end (lz_htab s (IDX h)) (nat (int (lz_ip t) - lz_htab s (IDX h) - 1)) t
        else if lz_op t \<ge> length (lz_out t) then Ok None
        else map_res (\<lambda>s. Some (True, s)) (put_lit inp t))"
    by (simp only: lzf_step_def Let_def t_def bind_res.simps)
  have "lz_ip t + 2 < length inp" using ip t(2) by simp
  from lzf_found_wp [OF this, of "lz_htab s (IDX h)"] obtain found where f: "lzf_found inp (lz_htab s (IDX h)) (lz_ip t) = Ok found" "found \<longrightarrow>
      (\<exists>off. lz_htab s (IDX h) = int (lz_ip t - off - 1) \<and> off < 8192 \<and> off < lz_ip t \<and>
      nat (int (lz_ip t) - lz_htab s (IDX h) - 1) = off \<and> matched inp (lz_ip t - off - 1) (lz_ip t) 3)"
    unfolding wp_iff by blast
  show ?thesis
  proof (cases found)
    case True
    then obtain off where off: "lz_htab s (IDX h) = int (lz_ip t - off - 1)" "off < 8192" "off < lz_ip t"
      "nat (int (lz_ip t) - lz_htab s (IDX h) - 1) = off" "matched inp (lz_ip t - off - 1) (lz_ip t) 3"
      using f(2) by blast
    have "lzf_step inp in_end s = lzf_match inp in_end (int (lz_ip t - off - 1)) off t"
      using step f(1) True off(1,4) by simp
    then show ?thesis using lzf_match_wp [OF t(1) _ ip(2) off(2,3,5)] ip(1) t(2) post by simp
  next
    case False
    then show ?thesis using f(1) lit_step_wp [OF t(1) _ ip(2)] ip(1) t(2) step post by simp
  qed
qed

lemma lzf_loop_wp:
  assumes "lzf_inv inp in_end s" "in_end \<le> length inp" "in_end - lz_ip s < fuel"
  shows "wp (\<lambda>r. case r of None \<Rightarrow> \<not> roomy in_end (length (lz_out s))
       | Some s' \<Rightarrow> lzf_inv inp in_end s' \<and> length (lz_out s') = length (lz_out s) \<and> in_end - 2 \<le> lz_ip s')
     (lzf_loop fuel inp in_end s)"
  using assms
proof (induction fuel arbitrary: s)
  case (Suc fuel)
  show ?case
  proof (cases "lz_ip s < in_end - 2")
    case True
    then have "wp (lzf_post inp in_end s) (lzf_step inp in_end s)" using Suc.prems by (intro lzf_step_wp) simp_all
    then obtain r where r: "lzf_step inp in_end s = Ok r" "lzf_post inp in_end s r" by (auto simp: wp_iff)
    show ?thesis
    proof (cases r)
      case (Some p)
      obtain go s' where p: "p = (go, s')" by (cases p)
      have "go \<Longrightarrow> wp (\<lambda>r. case r of None \<Rightarrow> \<not> roomy in_end (length (lz_out s'))
         | Some s'' \<Rightarrow> lzf_inv inp in_end s'' \<and> length (lz_out s'') = length (lz_out s') \<and> in_end - 2 \<le> lz_ip s'')
         (lzf_loop fuel inp in_end s')"
        using r Some p Suc.prems by (intro Suc.IH) (auto simp: lzf_post_def lzf_inv_def)
      then show ?thesis using True r Some p by (auto simp: lzf_post_def)
    qed (use True r in \<open>simp add: lzf_post_def\<close>)
  qed (use Suc.prems in simp)
qed simp

lemma lzf_rest_wp:
  assumes "lzf_inv inp in_end s" "in_end \<le> length inp" "in_end - lz_ip s < fuel"
    "lz_op s + (in_end - lz_ip s) + (if 32 \<le> lz_lit s + (in_end - lz_ip s) then 1 else 0) \<le> length (lz_out s)" "in_end - lz_ip s \<le> 2"
  shows "wp (\<lambda>s'. lzf_inv inp in_end s' \<and> length (lz_out s') = length (lz_out s) \<and> lz_ip s' = in_end \<and> lz_op s' \<le> length (lz_out s'))
     (lzf_rest fuel inp in_end s)"
  using assms
proof (induction fuel arbitrary: s)
  case (Suc fuel)
  show ?case
  proof (cases "lz_ip s < in_end")
    case True
    then have "lz_op s < length (lz_out s)" using Suc.prems(4) by linarith
    then obtain s' where s': "put_lit inp s = Ok s'" "lzf_inv inp in_end s'" "lz_ip s' = lz_ip s + 1"
      "length (lz_out s') = length (lz_out s)"
      "(lz_op s', lz_lit s') = (if lz_lit s = 31 then (lz_op s + 2, 0) else (lz_op s + 1, lz_lit s + 1))"
      using put_lit_inv [of inp in_end s] True Suc.prems(1,2) by blast
    have "wp (\<lambda>t. lzf_inv inp in_end t \<and> length (lz_out t) = length (lz_out s') \<and> lz_ip t = in_end \<and> lz_op t \<le> length (lz_out t))
        (lzf_rest fuel inp in_end s')"
      using True s' Suc.prems by (intro Suc.IH) (auto split: if_splits)
    then show ?thesis using True s' by simp
  next
    case False
    moreover from this have "lz_ip s = in_end" using Suc.prems(1) by (simp add: lzf_inv_def)
    ultimately show ?thesis using Suc.prems(1,4) by simp
  qed
qed simp

lemma lzf_inv_first:
  "lzf_inv inp in_end \<lparr>lz_ip = 0, lz_op = 1, lz_lit = 0, lz_hval = h, lz_htab = t, lz_out = out\<rparr>"
  by (simp add: lzf_inv_def run_ok_def lzf_empty)

lemma lzf_encodes_nonempty: "lzf_encodes e d \<Longrightarrow> d \<noteq> [] \<Longrightarrow> e \<noteq> []"
  by (induction rule: lzf_encodes.induct) (auto simp: ref_token_def)

lemma lzf_compress_wp:
  assumes "2 \<le> in_len" "in_len \<le> length inp" "in_len < fuel"
  shows "wp (\<lambda>(n, out'). length out' = length out \<and> n \<le> length out \<and>
      (n = 0 \<and> \<not> roomy in_len (length out) \<or> 0 < n \<and> lzf_encodes (take n out') (take in_len inp)))
    (lzf_compress fuel htab inp in_len out)"
proof (cases "length out = 0")
  case True
  then show ?thesis using assms by (simp add: lzf_compress_def roomy_def)
next
  case False
  let ?s = "\<lambda>h. \<lparr>lz_ip = 0, lz_op = 1, lz_lit = 0, lz_hval = h, lz_htab = htab, lz_out = out\<rparr>"
  have ne: "0 < length inp" "1 < length inp" using assms(1,2) by linarith+
  then obtain h where h: "FRST inp 0 = Ok h" by (simp add: FRST_def rd8_word)
  obtain r where r: "lzf_loop fuel inp in_len (?s h) = Ok r" "case r of None \<Rightarrow> \<not> roomy in_len (length out)
       | Some s' \<Rightarrow> lzf_inv inp in_len s' \<and> length (lz_out s') = length out \<and> in_len - 2 \<le> lz_ip s'"
    using lzf_loop_wp [OF lzf_inv_first [of inp in_len h htab out] assms(2), of fuel] assms(3)
    unfolding wp_iff lzf_vars.simps by fastforce
  have c: "lzf_compress fuel htab inp in_len out = (case r of
          None \<Rightarrow> Ok (0, out)
        | Some s \<Rightarrow>
            if lz_op s + 3 > length (lz_out s) then Ok (0, lz_out s)
            else
              bind_res (lzf_rest fuel inp in_len s) (\<lambda>s.
              bind_res (stop_run s) (\<lambda>s.
              Ok (lz_op s - (if lz_lit s = 0 then 1 else 0), lz_out s))))"
    using False assms h r(1) by (simp add: lzf_compress_def)
  show ?thesis
  proof (cases r)
    case None
    then show ?thesis using c r by simp
  next
    case (Some s)
    then have s: "lzf_inv inp in_len s" "length (lz_out s) = length out" "in_len - 2 \<le> lz_ip s" using r by simp_all
    show ?thesis
    proof (cases "lz_op s + 3 > length out")
      case True
      have "lz_ip s \<le> in_len" using s by (simp add: lzf_inv_def)
      then have "\<not> roomy in_len (length out)"
        using True lzf_inv_size [OF s(1)] div_le_mono [of "lz_ip s" in_len 32] by (simp add: roomy_def)
      then show ?thesis using Some True c s by simp
    next
      case False
      have "in_len - lz_ip s \<le> 2" using s(3) by simp
      moreover from this have "lz_op s + (in_len - lz_ip s) + (if 32 \<le> lz_lit s + (in_len - lz_ip s) then 1 else 0) \<le> length (lz_out s)"
        using False s(2) by (simp split: if_splits)
      moreover have "in_len - lz_ip s < fuel" using assms(3) by simp
      ultimately have "wp (\<lambda>t. lzf_inv inp in_len t \<and> length (lz_out t) = length (lz_out s) \<and> lz_ip t = in_len \<and>
          lz_op t \<le> length (lz_out t)) (lzf_rest fuel inp in_len s)"
        using lzf_rest_wp [OF s(1) assms(2)] by blast
      then obtain t where t: "lzf_rest fuel inp in_len s = Ok t" "lzf_inv inp in_len t"
        "length (lz_out t) = length out" "lz_ip t = in_len" "lz_op t \<le> length (lz_out t)"
        unfolding wp_iff s(2) by blast
      have b: "run_ok inp t" "lz_lit t + 1 \<le> lz_op t" "lz_lit t \<le> lz_ip t" using t(2) by (simp_all add: lzf_inv_def run_ok_def)
      have "run_end t \<le> length (lz_out t)" "lz_op t - lz_lit t - 1 < length (lz_out t)"
        using t(5) b(2) by (simp_all add: run_end_def)
      then obtain out' where out': "stop_run t = Ok (t\<lparr>lz_out := out'\<rparr>)" "length out' = length out"
        "lzf_encodes (take (run_end t) out') (take in_len inp)"
        using stop_run_encodes [OF b(1)] t(3,4) assms(2) by auto
      have "lzf_compress fuel htab inp in_len out = Ok (run_end t, out')"
        using False s(2) t(1) out'(1) by (simp add: c Some run_end_def)
      moreover have "run_end t \<noteq> 0"
        using lzf_encodes_nonempty [OF out'(3)] assms(1) ne by auto
      moreover have "run_end t \<le> length out" using t(3,5) by (simp add: run_end_def)
      ultimately show ?thesis using out'(2,3) by simp
    qed
  qed
qed

lemma lzf_compress_decompress:
  assumes "2 \<le> in_len" "in_len \<le> length inp" "in_len < fuel" "in_len \<le> length back" "length out < fuel'"
  shows "wp (\<lambda>(n, out'). length out' = length out \<and> n \<le> length out \<and> (n = 0 \<longrightarrow> \<not> roomy in_len (length out)) \<and>
      (n = 0 \<or> lzf_decompress fuel' (take n out') n back = Ok (in_len, None, take in_len inp @ drop in_len back)))
    (lzf_compress fuel htab inp in_len out)"
proof (rule wp_mono [OF lzf_compress_wp [OF assms(1-3), of out htab]], clarify, goal_cases)
  case (1 n out')
  then have "n \<noteq> 0 \<Longrightarrow> lzf_decompress fuel' (take n out') (length (take n out')) back =
      Ok (length (take in_len inp), None, take in_len inp @ drop (length (take in_len inp)) back)"
    using assms by (intro lzf_decompress_encoded) auto
  moreover have "min (length inp) in_len = in_len" using assms(2) by simp
  ultimately show ?case using 1 by auto
qed

section \<open>Properties\<close>

text \<open>C12: Compression never reads or writes out of bounds and ends, whatever the hash table held and
  however small the output buffer is, for an input of two octets or more. When it reports a length,
  that is at most the size of the buffer, and decompressing that many octets gives back the
  input.\<close>

theorem lzf_roundtrip:
  assumes "2 \<le> in_len" "in_len \<le> length inp" "in_len < fuel" "in_len \<le> length back" "length out < fuel'"
  shows "\<exists>n out'. lzf_compress fuel htab inp in_len out = Ok (n, out') \<and> n \<le> length out \<and>
    (n = 0 \<or> lzf_decompress fuel' (take n out') n back = Ok (in_len, None, take in_len inp @ drop in_len back))"
  using lzf_compress_decompress [OF assms] unfolding wp_iff by blast

definition lzf_sample :: packet where
  "lzf_sample = [1, 2, 3, 4, 2, 3, 4, 2, 3, 4, 9]"

theorem lzf_roundtrip_witness:
  "\<exists>n out'. lzf_compress 20 (\<lambda>_. -1) lzf_sample 11 (replicate 16 0) = Ok (n, out') \<and> n \<le> 16 \<and>
    (n = 0 \<or> lzf_decompress 20 (take n out') n (replicate 11 0) = Ok (11, None, lzf_sample))"
  using lzf_roundtrip [of 11 lzf_sample 20 "replicate 11 0" "replicate 16 0" 20 "\<lambda>_. -1"] by (simp add: lzf_sample_def)

text \<open>C14: Compression always succeeds when the output buffer is larger than the input by one octet
  in 32 and four more.\<close>

theorem lzf_compress_succeeds:
  assumes "2 \<le> in_len" "in_len \<le> length inp" "in_len < fuel" "in_len + in_len div 32 + 4 \<le> length out"
  shows "\<exists>n out'. lzf_compress fuel htab inp in_len out = Ok (n, out') \<and> 0 < n \<and> n \<le> length out"
  using lzf_compress_wp [OF assms(1-3), of out htab] assms(4) unfolding wp_iff roomy_def by auto

theorem lzf_compress_succeeds_witness:
  "\<exists>n out'. lzf_compress 20 (\<lambda>_. 5) lzf_sample 11 (replicate 16 0) = Ok (n, out') \<and> 0 < n \<and> n \<le> 16"
  using lzf_compress_succeeds [of 11 lzf_sample 20 "replicate 16 0" "\<lambda>_. 5"] by (simp add: lzf_sample_def)

text \<open>C13: Decompression of any octets whatever, compressed or not, ends and never reads or writes out
  of bounds. It reports an error with length 0, or a length that fits the buffer.\<close>

theorem lzf_decompress_safe:
  assumes "in_len \<le> length inp" "in_len < fuel"
  shows "\<exists>n e out'. lzf_decompress fuel inp in_len out = Ok (n, e, out') \<and> length out' = length out \<and>
    n \<le> length out \<and> (e = None \<or> n = 0)"
  using unlzf_loop_safe [OF assms(1), of 0 fuel 0 out] assms(2) unfolding wp_iff lzf_decompress_def by auto

theorem lzf_decompress_safe_witness:
  "\<exists>n e out'. lzf_decompress 9 [0xFF, 0xFF, 0xFF] 3 [0, 0] = Ok (n, e, out') \<and> length out' = 2 \<and>
    n \<le> 2 \<and> (e = None \<or> n = 0)"
  using lzf_decompress_safe [of 3 "[0xFF, 0xFF, 0xFF]" 9 "[0, 0]"] by (simp add: numeral_2_eq_2)

text \<open>An input of one octet is read past its end: \<open>FRST\<close> reads two octets before the loop tests
  the length.\<close>

theorem lzf_compress_one_octet:
  "lzf_compress fuel htab [b] 1 (c # out) = Err OutOfBounds"
  by (simp add: lzf_compress_def FRST_def rd8_def)

end
