(* ===== verification/Bitmap_Word.thy ===== *)
theory Bitmap_Word
  imports Le_Words
begin

text \<open>
  Operations on one word of a bitmap, \<open>src/include/xdp2/bitmap_word.h\<close>. The macros of the header make
  each function for words of 8, 16, 32 and 64 bits; here the width is the type variable of the word
  type. A shift of a 64-bit value by 64 or more is the fault \<^const>\<open>UndefinedShift\<close>.
\<close>

section \<open>Bits of a word\<close>

definition XDP2_BIT :: "nat \<Rightarrow> u64 res" where
  "XDP2_BIT n = (if n < 64 then Ok (push_bit n 1) else Err UndefinedShift)"

definition xdp2_bitmap_word_set :: "'w::len word \<Rightarrow> nat \<Rightarrow> 'w word res" where
  "xdp2_bitmap_word_set v index = bind_res (XDP2_BIT index) (\<lambda>b. Ok (v OR ucast b))"

definition xdp2_bitmap_word_unset :: "'w::len word \<Rightarrow> nat \<Rightarrow> 'w word res" where
  "xdp2_bitmap_word_unset v index = bind_res (XDP2_BIT index) (\<lambda>b. Ok (v AND ucast (NOT b)))"

definition xdp2_bitmap_word_isset :: "'w::len word \<Rightarrow> nat \<Rightarrow> bool res" where
  "xdp2_bitmap_word_isset v index = bind_res (XDP2_BIT index) (\<lambda>b. Ok (ucast v AND b \<noteq> 0))"

section \<open>Weight\<close>

text \<open>\<open>__builtin_popcount\<close> counts the bits that are set.\<close>

definition popcount :: "'w::len word \<Rightarrow> nat" where
  "popcount v = length (filter (bit v) [0..<LENGTH('w)])"

definition xdp2_bitmap_word_weight :: "'w::len word \<Rightarrow> nat" where
  "xdp2_bitmap_word_weight v = popcount v"

primrec weight_loop :: "'w::len word \<Rightarrow> nat \<Rightarrow> nat res" where
  "weight_loop v 0 = Ok 0"
| "weight_loop v (Suc i) =
     bind_res (weight_loop v i) (\<lambda>w. bind_res (xdp2_bitmap_word_isset v i) (\<lambda>b. Ok (w + (if b then 1 else 0))))"

definition xdp2_bitmap_word_default :: "'w::len word \<Rightarrow> nat res" where
  "xdp2_bitmap_word_default v = weight_loop v LENGTH('w)"

section \<open>Finding bits\<close>

text \<open>\<open>c_ffs\<close> gives one more than the index of the first set bit, 0 when there is none.\<close>

definition c_ffs :: "'w::len word \<Rightarrow> nat" where
  "c_ffs v = (case List.find (bit v) [0..<LENGTH('w)] of None \<Rightarrow> 0 | Some i \<Rightarrow> i + 1)"

definition xdp2_bitmap_word_find :: "'w::len word \<Rightarrow> nat" where
  "xdp2_bitmap_word_find v = (let ret = c_ffs v in if ret \<noteq> 0 then ret - 1 else LENGTH('w))"

primrec find_loop :: "'w::len word \<Rightarrow> nat \<Rightarrow> nat \<Rightarrow> nat res" where
  "find_loop v i 0 = Ok i"
| "find_loop v i (Suc n) =
     bind_res (xdp2_bitmap_word_isset v i) (\<lambda>b. if b then Ok i else find_loop v (i + 1) n)"

definition xdp2_bitmap_word_find_default :: "'w::len word \<Rightarrow> nat res" where
  "xdp2_bitmap_word_find_default v = find_loop v 0 LENGTH('w)"

definition xdp2_bitmap_word_find_start :: "'w::len word \<Rightarrow> nat \<Rightarrow> nat res" where
  "xdp2_bitmap_word_find_start v pos =
     bind_res (XDP2_BIT pos) (\<lambda>b. Ok (xdp2_bitmap_word_find (v AND ucast (NOT (b - 1)))))"

definition xdp2_bitmap_word_find_zero :: "'w::len word \<Rightarrow> nat" where
  "xdp2_bitmap_word_find_zero v = xdp2_bitmap_word_find (NOT v)"

definition xdp2_bitmap_word_find_zero_start :: "'w::len word \<Rightarrow> nat \<Rightarrow> nat res" where
  "xdp2_bitmap_word_find_zero_start v pos = xdp2_bitmap_word_find_start (NOT v) pos"

text \<open>The mask is computed before the position is tested.\<close>

definition xdp2_bitmap_word_find_next :: "'w::len word \<Rightarrow> nat \<Rightarrow> nat res" where
  "xdp2_bitmap_word_find_next v pos =
     bind_res (XDP2_BIT (pos + 1)) (\<lambda>b.
     if pos \<ge> LENGTH('w) - 1 then Ok LENGTH('w)
     else Ok (xdp2_bitmap_word_find (v AND ucast (NOT (b - 1)))))"

definition xdp2_bitmap_word_find_next_zero :: "'w::len word \<Rightarrow> nat \<Rightarrow> nat res" where
  "xdp2_bitmap_word_find_next_zero v pos = xdp2_bitmap_word_find_next (NOT v) pos"

text \<open>The positions for which the body of a \<open>foreach\<close> loop runs.\<close>

primrec foreach_from :: "nat \<Rightarrow> (nat \<Rightarrow> nat res) \<Rightarrow> nat \<Rightarrow> nat \<Rightarrow> nat list res" where
  "foreach_from 0 next n pos = Err StillRunning"
| "foreach_from (Suc k) next n pos =
     (if pos < n then bind_res (next pos) (\<lambda>p. map_res (Cons pos) (foreach_from k next n p)) else Ok [])"

definition xdp2_bitmap_word_foreach_bit :: "nat \<Rightarrow> 'w::len word \<Rightarrow> nat \<Rightarrow> nat list res" where
  "xdp2_bitmap_word_foreach_bit fuel v pos =
     bind_res (xdp2_bitmap_word_find_start v pos) (foreach_from fuel (xdp2_bitmap_word_find_next v) LENGTH('w))"

definition xdp2_bitmap_word_foreach_zero_bit :: "nat \<Rightarrow> 'w::len word \<Rightarrow> nat \<Rightarrow> nat list res" where
  "xdp2_bitmap_word_foreach_zero_bit fuel v pos =
     bind_res (xdp2_bitmap_word_find_start v pos) (foreach_from fuel (xdp2_bitmap_word_find_next v) LENGTH('w))"

section \<open>Finding bits from the top\<close>

definition XDP2_LOG_1 :: "nat \<Rightarrow> nat" where
  "XDP2_LOG_1 n = (if n \<ge> 2 then 1 else 0)"

definition XDP2_LOG_2 :: "nat \<Rightarrow> nat" where
  "XDP2_LOG_2 n = (if n \<ge> 2 ^ 2 then 2 + XDP2_LOG_1 (n div 2 ^ 2) else XDP2_LOG_1 n)"

definition XDP2_LOG_4 :: "nat \<Rightarrow> nat" where
  "XDP2_LOG_4 n = (if n \<ge> 2 ^ 4 then 4 + XDP2_LOG_2 (n div 2 ^ 4) else XDP2_LOG_2 n)"

definition XDP2_LOG_8 :: "nat \<Rightarrow> nat" where
  "XDP2_LOG_8 n = (if n \<ge> 2 ^ 8 then 8 + XDP2_LOG_4 (n div 2 ^ 8) else XDP2_LOG_4 n)"

definition XDP2_LOG_16 :: "nat \<Rightarrow> nat" where
  "XDP2_LOG_16 n = (if n \<ge> 2 ^ 16 then 16 + XDP2_LOG_8 (n div 2 ^ 16) else XDP2_LOG_8 n)"

definition XDP2_LOG_64BITS :: "nat \<Rightarrow> nat" where
  "XDP2_LOG_64BITS n = (if n \<ge> 2 ^ 32 then 32 + XDP2_LOG_16 (n div 2 ^ 32) else XDP2_LOG_16 n)"

text \<open>\<open>XDP2_LOG_8BITS\<close> to \<open>XDP2_LOG_32BITS\<close> have the bodies of \<open>__XDP2_LOG_4\<close> to \<open>__XDP2_LOG_16\<close>.\<close>

definition XDP2_LOG_8BITS :: "nat \<Rightarrow> nat" where
  "XDP2_LOG_8BITS n = (if n \<ge> 2 ^ 4 then 4 + XDP2_LOG_2 (n div 2 ^ 4) else XDP2_LOG_2 n)"

definition XDP2_LOG_16BITS :: "nat \<Rightarrow> nat" where
  "XDP2_LOG_16BITS n = (if n \<ge> 2 ^ 8 then 8 + XDP2_LOG_4 (n div 2 ^ 8) else XDP2_LOG_4 n)"

definition XDP2_LOG_32BITS :: "nat \<Rightarrow> nat" where
  "XDP2_LOG_32BITS n = (if n \<ge> 2 ^ 16 then 16 + XDP2_LOG_8 (n div 2 ^ 16) else XDP2_LOG_8 n)"

definition xdp2_log :: "nat \<Rightarrow> nat \<Rightarrow> nat" where
  "xdp2_log bits n =
     (if bits = 8 then XDP2_LOG_8BITS n else if bits = 16 then XDP2_LOG_16BITS n
      else if bits = 32 then XDP2_LOG_32BITS n else XDP2_LOG_64BITS n)"

primrec rev_find_loop :: "'w::len word \<Rightarrow> nat \<Rightarrow> nat res" where
  "rev_find_loop v 0 = Ok LENGTH('w)"
| "rev_find_loop v (Suc i) =
     bind_res (xdp2_bitmap_word_isset v i) (\<lambda>b. if b then Ok i else rev_find_loop v i)"

definition xdp2_bitmap_word_rev_find_default :: "'w::len word \<Rightarrow> nat res" where
  "xdp2_bitmap_word_rev_find_default v = rev_find_loop v LENGTH('w)"

definition xdp2_bitmap_word_rev_find :: "'w::len word \<Rightarrow> nat" where
  "xdp2_bitmap_word_rev_find v = (if v \<noteq> 0 then xdp2_log LENGTH('w) (unat v) else LENGTH('w))"

definition xdp2_bitmap_word_rev_find_zero :: "'w::len word \<Rightarrow> nat res" where
  "xdp2_bitmap_word_rev_find_zero v = xdp2_bitmap_word_rev_find_default (NOT v)"

definition xdp2_bitmap_word_rev_find_start :: "'w::len word \<Rightarrow> nat \<Rightarrow> nat res" where
  "xdp2_bitmap_word_rev_find_start v pos =
     bind_res (if pos = 63 then Ok (- 1) else map_res (\<lambda>b. b - 1) (XDP2_BIT (pos + 1))) (\<lambda>mask.
     Ok (xdp2_bitmap_word_rev_find (v AND ucast mask)))"

definition xdp2_bitmap_word_rev_find_zero_start :: "'w::len word \<Rightarrow> nat \<Rightarrow> nat res" where
  "xdp2_bitmap_word_rev_find_zero_start v pos = xdp2_bitmap_word_rev_find_start (NOT v) pos"

definition xdp2_bitmap_word_rev_find_next :: "'w::len word \<Rightarrow> nat \<Rightarrow> nat res" where
  "xdp2_bitmap_word_rev_find_next v pos =
     (if pos = 0 then Ok LENGTH('w)
      else bind_res (XDP2_BIT pos) (\<lambda>b. Ok (xdp2_bitmap_word_rev_find (v AND ucast (b - 1)))))"

definition xdp2_bitmap_word_rev_find_next_zero :: "'w::len word \<Rightarrow> nat \<Rightarrow> nat res" where
  "xdp2_bitmap_word_rev_find_next_zero v pos = xdp2_bitmap_word_rev_find_next (NOT v) pos"

definition xdp2_bitmap_word_rev_foreach_bit :: "nat \<Rightarrow> 'w::len word \<Rightarrow> nat \<Rightarrow> nat list res" where
  "xdp2_bitmap_word_rev_foreach_bit fuel v pos =
     bind_res (xdp2_bitmap_word_rev_find_start v pos) (foreach_from fuel (xdp2_bitmap_word_rev_find_next v) LENGTH('w))"

section \<open>Comparing, copying and combining\<close>

definition xdp2_bitmap_word_cmp :: "'w::len word \<Rightarrow> 'w word \<Rightarrow> nat" where
  "xdp2_bitmap_word_cmp v1 v2 = xdp2_bitmap_word_find (v1 XOR v2)"

definition xdp2_bitmap_word_cmp_start :: "'w::len word \<Rightarrow> 'w word \<Rightarrow> nat \<Rightarrow> nat res" where
  "xdp2_bitmap_word_cmp_start v1 v2 pos =
     bind_res (XDP2_BIT pos) (\<lambda>b.
     let mask = ucast (NOT (b - 1)) in Ok (xdp2_bitmap_word_cmp (v1 AND mask) (v2 AND mask)))"

definition xdp2_bitmap_word_rev_start :: "'w::len word \<Rightarrow> 'w word \<Rightarrow> nat \<Rightarrow> nat res" where
  "xdp2_bitmap_word_rev_start v1 v2 pos =
     bind_res (XDP2_BIT (pos + 1)) (\<lambda>b.
     let mask = ucast (b - 1) in Ok (xdp2_bitmap_word_cmp (v1 AND mask) (v2 AND mask)))"

definition xdp2_bitmap_word_copy_start :: "'w::len word \<Rightarrow> nat \<Rightarrow> 'w word res" where
  "xdp2_bitmap_word_copy_start v pos = bind_res (XDP2_BIT pos) (\<lambda>b. Ok (v AND ucast (NOT (b - 1))))"

definition xdp2_bitmap_word_copy_rev_start :: "'w::len word \<Rightarrow> nat \<Rightarrow> 'w word res" where
  "xdp2_bitmap_word_copy_rev_start v pos = bind_res (XDP2_BIT pos) (\<lambda>b. Ok (v AND ucast (NOT (b - 1))))"

definition xdp2_bitmap_word_not_start :: "'w::len word \<Rightarrow> nat \<Rightarrow> 'w word res" where
  "xdp2_bitmap_word_not_start v pos = bind_res (XDP2_BIT pos) (\<lambda>b. Ok (NOT (v AND ucast (NOT (b - 1)))))"

definition xdp2_bitmap_word_not_rev_start :: "'w::len word \<Rightarrow> nat \<Rightarrow> 'w word res" where
  "xdp2_bitmap_word_not_rev_start v pos = bind_res (XDP2_BIT pos) (\<lambda>b. Ok (NOT (v AND ucast (b - 1))))"

text \<open>\<open>!\<close>, as the binary operations write their negation.\<close>

definition logical_not :: "'w::len word \<Rightarrow> 'w word" where
  "logical_not v = (if v = 0 then 1 else 0)"

definition xdp2_bitmap_word_nand :: "'w::len word \<Rightarrow> 'w word \<Rightarrow> 'w word" where
  "xdp2_bitmap_word_nand v1 v2 = logical_not (v1 AND v2)"

definition xdp2_bitmap_word_nor :: "'w::len word \<Rightarrow> 'w word \<Rightarrow> 'w word" where
  "xdp2_bitmap_word_nor v1 v2 = logical_not (v1 OR v2)"

definition xdp2_bitmap_word_nxor :: "'w::len word \<Rightarrow> 'w word \<Rightarrow> 'w word" where
  "xdp2_bitmap_word_nxor v1 v2 = logical_not (v1 XOR v2)"

definition xdp2_bitmap_word_and_not :: "'w::len word \<Rightarrow> 'w word \<Rightarrow> 'w word" where
  "xdp2_bitmap_word_and_not v1 v2 = v1 AND logical_not v2"

section \<open>Expanding and extracting\<close>

text \<open>\<open>xdp2_bitmap_word64_isset (v, n) << pos\<close>: the bool is promoted to an \<open>int\<close> of 32 bits, and
  a shift into or past its sign bit is undefined.\<close>

definition bool_shl :: "bool \<Rightarrow> nat \<Rightarrow> u64 res" where
  "bool_shl b pos =
     (if pos \<ge> 32 \<or> (b \<and> pos = 31) then Err UndefinedShift else Ok (if b then push_bit pos 1 else 0))"

primrec expand_loop :: "nat \<Rightarrow> u64 \<Rightarrow> u64 \<Rightarrow> nat \<Rightarrow> nat \<Rightarrow> u64 \<Rightarrow> u64 res" where
  "expand_loop 0 v p shift pos ret = Err StillRunning"
| "expand_loop (Suc k) v p shift pos ret =
     (if pos < 64 then
        bind_res (xdp2_bitmap_word_isset v shift) (\<lambda>b. bind_res (bool_shl b pos) (\<lambda>x.
        bind_res (xdp2_bitmap_word_find_next p pos) (\<lambda>pos.
        expand_loop k v p (shift + 1) pos (ret OR x))))
      else Ok ret)"

definition xdp2_bitmap_word_expand :: "nat \<Rightarrow> u64 \<Rightarrow> u64 \<Rightarrow> u64 res" where
  "xdp2_bitmap_word_expand fuel v p = expand_loop fuel v p 0 (xdp2_bitmap_word_find p) 0"

primrec extract_loop :: "nat \<Rightarrow> u64 \<Rightarrow> u64 \<Rightarrow> nat \<Rightarrow> nat \<Rightarrow> u64 \<Rightarrow> u64 res" where
  "extract_loop 0 v p shift pos ret = Err StillRunning"
| "extract_loop (Suc k) v p shift pos ret =
     (if pos < 64 then
        bind_res (xdp2_bitmap_word_isset v pos) (\<lambda>b. bind_res (bool_shl b shift) (\<lambda>x.
        bind_res (xdp2_bitmap_word_find_next p pos) (\<lambda>pos.
        extract_loop k v p (shift + 1) pos (ret OR x))))
      else Ok ret)"

definition xdp2_bitmap_word_extract :: "nat \<Rightarrow> u64 \<Rightarrow> u64 \<Rightarrow> u64 res" where
  "xdp2_bitmap_word_extract fuel v p = extract_loop fuel v p 0 (xdp2_bitmap_word_find p) 0"

section \<open>Rotation\<close>

text \<open>\<open>val >> (SIZE - num_rotate)\<close>: words of 8 and 16 bits are promoted to \<open>int\<close>, wider ones shift at
  their own width.\<close>

definition shift_ok :: "nat \<Rightarrow> nat \<Rightarrow> bool" where
  "shift_ok bits n \<longleftrightarrow> n < max 32 bits"

definition xdp2_bitmap_word_rol_sized :: "'w::len word \<Rightarrow> nat \<Rightarrow> 'w word res" where
  "xdp2_bitmap_word_rol_sized val num =
     (if num \<le> LENGTH('w) \<and> shift_ok LENGTH('w) num \<and> shift_ok LENGTH('w) (LENGTH('w) - num)
      then Ok (push_bit num val OR drop_bit (LENGTH('w) - num) val) else Err UndefinedShift)"

definition xdp2_bitmap_word_ror_sized :: "'w::len word \<Rightarrow> nat \<Rightarrow> 'w word res" where
  "xdp2_bitmap_word_ror_sized val num =
     (if num \<le> LENGTH('w) \<and> shift_ok LENGTH('w) num \<and> shift_ok LENGTH('w) (LENGTH('w) - num)
      then Ok (drop_bit num val OR push_bit (LENGTH('w) - num) val) else Err UndefinedShift)"

definition xdp2_bitmap_word_rol :: "u64 \<Rightarrow> nat \<Rightarrow> nat \<Rightarrow> u64 res" where
  "xdp2_bitmap_word_rol val num nbits =
     (let num = num mod nbits in
      if nbits = 8 then map_res ucast (xdp2_bitmap_word_rol_sized (ucast val :: 8 word) num)
      else if nbits = 16 then map_res ucast (xdp2_bitmap_word_rol_sized (ucast val :: 16 word) num)
      else if nbits = 32 then map_res ucast (xdp2_bitmap_word_rol_sized (ucast val :: 32 word) num)
      else if nbits = 64 then xdp2_bitmap_word_rol_sized val num
      else Err AssertFailed)"

definition xdp2_bitmap_word_ror :: "u64 \<Rightarrow> nat \<Rightarrow> nat \<Rightarrow> u64 res" where
  "xdp2_bitmap_word_ror val num nbits =
     (let num = num mod nbits in
      if nbits = 8 then map_res ucast (xdp2_bitmap_word_ror_sized (ucast val :: 8 word) num)
      else if nbits = 16 then map_res ucast (xdp2_bitmap_word_ror_sized (ucast val :: 16 word) num)
      else if nbits = 32 then map_res ucast (xdp2_bitmap_word_ror_sized (ucast val :: 32 word) num)
      else if nbits = 64 then xdp2_bitmap_word_ror_sized val num
      else Err AssertFailed)"

section \<open>The first and the last bit with a property\<close>

definition find_from :: "(nat \<Rightarrow> bool) \<Rightarrow> nat \<Rightarrow> nat \<Rightarrow> nat" where
  "find_from P pos n = (case List.find P [pos..<n] of None \<Rightarrow> n | Some i \<Rightarrow> i)"

definition find_below :: "(nat \<Rightarrow> bool) \<Rightarrow> nat \<Rightarrow> nat \<Rightarrow> nat" where
  "find_below P n d = (case List.find P (rev [0..<n]) of None \<Rightarrow> d | Some i \<Rightarrow> i)"

lemma find_from_rec: "find_from P pos n = (if pos < n then if P pos then pos else find_from P (pos + 1) n else n)"
  by (simp add: find_from_def upt_rec)

lemma find_from_end [simp]: "n \<le> pos \<Longrightarrow> find_from P pos n = n"
  by (simp add: find_from_def)

lemma find_from_le: "find_from P pos n \<le> n"
  by (induction "n - pos" arbitrary: pos) (simp_all add: find_from_rec)

lemma find_from_ge: "pos \<le> n \<Longrightarrow> pos \<le> find_from P pos n"
proof (induction "n - pos" arbitrary: pos)
  case (Suc k)
  then have "pos + 1 \<le> find_from P (pos + 1) n" by auto
  then show ?case by (subst find_from_rec) (use Suc.prems in auto)
qed simp

lemma find_from_hit: "find_from P pos n < n \<Longrightarrow> P (find_from P pos n)"
proof (induction "n - pos" arbitrary: pos)
  case (Suc k)
  then show ?case by (subst find_from_rec, subst (asm) find_from_rec) (auto split: if_splits)
qed simp

lemma find_from_miss: "pos \<le> i \<Longrightarrow> i < find_from P pos n \<Longrightarrow> \<not> P i"
proof (induction "n - pos" arbitrary: pos)
  case (Suc k)
  then have s: "pos < n" by simp
  show ?case
  proof (cases "P pos \<or> i = pos")
    case True
    then show ?thesis using Suc.prems s by (auto simp: find_from_rec [of P pos] split: if_splits)
  next
    case False
    then have "pos + 1 \<le> i" "i < find_from P (pos + 1) n"
      using Suc.prems s by (auto simp: find_from_rec [of P pos])
    then show ?thesis using Suc.hyps(1) [of "pos + 1"] Suc.hyps(2) by simp
  qed
qed simp

lemma find_from_eqI:
  assumes "pos \<le> r" "r \<le> n" "r < n \<Longrightarrow> P r" "\<And>i. pos \<le> i \<Longrightarrow> i < r \<Longrightarrow> \<not> P i"
  shows "find_from P pos n = r"
proof (rule ccontr)
  let ?f = "find_from P pos n"
  assume "?f \<noteq> r"
  then consider "?f < r" | "r < ?f" by linarith
  then show False
  proof cases
    case 1
    then have "P ?f" using find_from_hit [of P pos n] assms(2) by simp
    then show False using assms(4) [of ?f] 1 find_from_ge [of pos n P] assms(1,2) by simp
  next
    case 2
    then show False using find_from_miss [of pos r P n] assms(1,3) find_from_le [of P pos n] by simp
  qed
qed

lemma find_from_cong: "(\<And>i. pos \<le> i \<Longrightarrow> i < n \<Longrightarrow> P i = Q i) \<Longrightarrow> find_from P pos n = find_from Q pos n"
  by (induction "n - pos" arbitrary: pos) (simp, subst (1 2) find_from_rec, simp)

lemma find_from_restrict: "find_from (\<lambda>i. pos \<le> i \<and> P i) 0 n = find_from P pos n"
proof (cases "pos \<le> n")
  case True
  let ?f = "find_from P pos n"
  have "?f < n \<Longrightarrow> P ?f" "\<And>i. pos \<le> i \<Longrightarrow> i < ?f \<Longrightarrow> \<not> P i"
    by (simp_all add: find_from_hit find_from_miss)
  then show ?thesis using find_from_ge [OF True, of P] find_from_le [of P pos n] by (intro find_from_eqI) auto
next
  case False
  then have "find_from (\<lambda>i. pos \<le> i \<and> P i) 0 n = n" by (intro find_from_eqI) auto
  then show ?thesis using False by simp
qed

lemma find_below_Suc: "find_below P (Suc n) d = (if P n then n else find_below P n d)"
  by (simp add: find_below_def)

lemma find_below_0 [simp]: "find_below P 0 d = d"
  by (simp add: find_below_def)

lemma find_below_eqI:
  "r < n \<Longrightarrow> P r \<Longrightarrow> (\<And>i. r < i \<Longrightarrow> i < n \<Longrightarrow> \<not> P i) \<Longrightarrow> find_below P n d = r"
  by (induction n) (auto simp: find_below_Suc less_Suc_eq)

lemma find_below_none: "(\<And>i. i < n \<Longrightarrow> \<not> P i) \<Longrightarrow> find_below P n d = d"
  by (induction n) (auto simp: find_below_Suc)

lemma find_below_cong: "(\<And>i. i < n \<Longrightarrow> P i = Q i) \<Longrightarrow> find_below P n d = find_below Q n d"
  by (induction n) (auto simp: find_below_Suc)

lemma find_below_restrict: "find_below (\<lambda>i. i < m \<and> P i) n d = find_below P (min m n) d"
  by (induction n) (auto simp: find_below_Suc min_def le_Suc_eq)

section \<open>The functions of the header find the first and the last bit\<close>

lemma find_ffs: "xdp2_bitmap_word_find v = find_from (bit v) 0 LENGTH('w)" for v :: "'w::len word"
  by (simp add: xdp2_bitmap_word_find_def c_ffs_def find_from_def split: option.splits)

lemma bit_from_mask: "bit (ucast (NOT (2 ^ n - 1) :: u64) :: 'w::len word) i \<longleftrightarrow> i < LENGTH('w) \<and> i < 64 \<and> n \<le> i"
  by (auto simp: bit_simps simp flip: mask_eq_exp_minus_1)

lemma bit_below_mask: "bit (ucast (2 ^ n - 1 :: u64) :: 'w::len word) i \<longleftrightarrow> i < LENGTH('w) \<and> i < 64 \<and> i < n"
  by (auto simp: bit_simps simp flip: mask_eq_exp_minus_1)

lemma XDP2_BIT_Ok: "n < 64 \<Longrightarrow> XDP2_BIT n = Ok (2 ^ n)"
  by (simp add: XDP2_BIT_def)

lemma isset_bit: "LENGTH('w) \<le> 64 \<Longrightarrow> i < 64 \<Longrightarrow> xdp2_bitmap_word_isset v i = Ok (bit v i)" for v :: "'w::len word"
  by (auto simp: xdp2_bitmap_word_isset_def XDP2_BIT_def bit_simps simp del: push_bit_of_1
      simp flip: bit_iff_and_push_bit_not_eq_0 dest: bit_imp_le_length)

lemma find_start_from:
  "LENGTH('w) \<le> 64 \<Longrightarrow> pos < 64 \<Longrightarrow> xdp2_bitmap_word_find_start v pos = Ok (find_from (bit v) pos LENGTH('w))"
  for v :: "'w::len word"
  unfolding xdp2_bitmap_word_find_start_def find_ffs find_from_restrict [of pos "bit v", symmetric]
  by (auto simp: XDP2_BIT_Ok bit_and_iff bit_from_mask intro!: find_from_cong)

lemma find_next_from:
  fixes v :: "'w::len word"
  assumes "LENGTH('w) \<le> 64" "pos < 63"
  shows "xdp2_bitmap_word_find_next v pos = Ok (find_from (bit v) (pos + 1) LENGTH('w))"
proof (cases "LENGTH('w) - 1 \<le> pos")
  case True
  then show ?thesis using assms by (simp add: xdp2_bitmap_word_find_next_def XDP2_BIT_Ok)
next
  case False
  have "find_from (bit (v AND ucast (NOT (2 ^ (pos + 1) - 1) :: u64))) 0 LENGTH('w) = find_from (\<lambda>i. pos + 1 \<le> i \<and> bit v i) 0 LENGTH('w)"
    using assms(1) by (intro find_from_cong) (auto simp: bit_and_iff bit_from_mask simp del: power_Suc)
  then show ?thesis using False assms
    by (simp add: xdp2_bitmap_word_find_next_def XDP2_BIT_Ok find_ffs find_from_restrict del: power_Suc)
qed

lemma find_next_63: "xdp2_bitmap_word_find_next v 63 = Err UndefinedShift"
  by (simp add: xdp2_bitmap_word_find_next_def XDP2_BIT_def)

lemma find_default_from:
  "LENGTH('w) \<le> 64 \<Longrightarrow> xdp2_bitmap_word_find_default v = Ok (find_from (bit v) 0 LENGTH('w))" for v :: "'w::len word"
proof -
  assume len: "LENGTH('w) \<le> 64"
  have "i + n = LENGTH('w) \<Longrightarrow> find_loop v i n = Ok (find_from (bit v) i LENGTH('w))" for i n
    using len by (induction n arbitrary: i) (auto simp: isset_bit find_from_rec [of "bit v"])
  then show ?thesis by (simp add: xdp2_bitmap_word_find_default_def)
qed

lemma weight_default_popcount:
  "LENGTH('w) \<le> 64 \<Longrightarrow> xdp2_bitmap_word_default v = Ok (popcount v)" for v :: "'w::len word"
proof -
  assume len: "LENGTH('w) \<le> 64"
  have "n \<le> LENGTH('w) \<Longrightarrow> weight_loop v n = Ok (length (filter (bit v) [0..<n]))" for n
    using len by (induction n) (auto simp: isset_bit)
  then show ?thesis by (simp add: xdp2_bitmap_word_default_def popcount_def)
qed

text \<open>The logarithm of a power range.\<close>

definition is_log :: "nat \<Rightarrow> nat \<Rightarrow> bool" where
  "is_log n l \<longleftrightarrow> 2 ^ l \<le> n \<and> n < 2 ^ (l + 1)"

lemma is_log_shift: "is_log (n div 2 ^ k) l \<Longrightarrow> is_log n (k + l)"
  by (auto simp: is_log_def power_add less_eq_div_iff_mult_less_eq div_less_iff_less_mult ac_simps)

lemma log_1: "0 < n \<Longrightarrow> n < 2 ^ 2 \<Longrightarrow> is_log n (XDP2_LOG_1 n)"
  by (auto simp: is_log_def XDP2_LOG_1_def)

lemma log_step:
  assumes "\<And>n. 0 < n \<Longrightarrow> n < 2 ^ k \<Longrightarrow> is_log n (f n)" "0 < n" "n < 2 ^ (k + k)"
  shows "is_log n (if n \<ge> 2 ^ k then k + f (n div 2 ^ k) else f n)"
proof (cases "n \<ge> 2 ^ k")
  case True
  then have "0 < n div 2 ^ k" "n div 2 ^ k < 2 ^ k"
    using assms(3) by (simp_all add: div_greater_zero_iff power_add less_mult_imp_div_less)
  then show ?thesis using True assms(1) [of "n div 2 ^ k"] by (simp add: is_log_shift)
qed (use assms in simp)

lemma log_2: "0 < n \<Longrightarrow> n < 2 ^ (2 + 2) \<Longrightarrow> is_log n (XDP2_LOG_2 n)"
  unfolding XDP2_LOG_2_def by (rule log_step [OF log_1])

lemma log_4: "0 < n \<Longrightarrow> n < 2 ^ (4 + 4) \<Longrightarrow> is_log n (XDP2_LOG_4 n)"
  unfolding XDP2_LOG_4_def by (rule log_step [OF log_2]) simp_all

lemma log_8: "0 < n \<Longrightarrow> n < 2 ^ (8 + 8) \<Longrightarrow> is_log n (XDP2_LOG_8 n)"
  unfolding XDP2_LOG_8_def by (rule log_step [OF log_4]) simp_all

lemma log_16: "0 < n \<Longrightarrow> n < 2 ^ (16 + 16) \<Longrightarrow> is_log n (XDP2_LOG_16 n)"
  unfolding XDP2_LOG_16_def by (rule log_step [OF log_8]) simp_all

lemma log_64bits: "0 < n \<Longrightarrow> n < 2 ^ (32 + 32) \<Longrightarrow> is_log n (XDP2_LOG_64BITS n)"
  unfolding XDP2_LOG_64BITS_def by (rule log_step [OF log_16]) simp_all

lemma same_logs: "XDP2_LOG_8BITS = XDP2_LOG_4" "XDP2_LOG_16BITS = XDP2_LOG_8" "XDP2_LOG_32BITS = XDP2_LOG_16"
  by (simp_all add: fun_eq_iff XDP2_LOG_8BITS_def XDP2_LOG_4_def XDP2_LOG_16BITS_def XDP2_LOG_8_def
      XDP2_LOG_32BITS_def XDP2_LOG_16_def)

lemma xdp2_log_ok: "b \<in> {8, 16, 32, 64} \<Longrightarrow> 0 < n \<Longrightarrow> n < 2 ^ b \<Longrightarrow> is_log n (xdp2_log b n)"
  using log_4 [of n] log_8 [of n] log_16 [of n] log_64bits [of n] by (auto simp: xdp2_log_def same_logs)

lemma is_log_top: "is_log (unat v) l \<Longrightarrow> bit v l" "is_log (unat v) l \<Longrightarrow> l < i \<Longrightarrow> \<not> bit v i" for v :: "'w::len word"
proof -
  assume l: "is_log (unat v) l"
  then have "unat v div 2 ^ l = 1" by (intro div_nat_eqI) (auto simp: is_log_def)
  then have "bit (unat v) l" by (simp add: bit_iff_odd)
  then show "bit v l" by (simp add: bit_unsigned_iff)
  assume "l < i"
  then have "unat v < 2 ^ i" using l power_increasing [of "l + 1" i "2::nat"] by (auto simp: is_log_def)
  then have "\<not> bit (unat v) i" by (simp add: bit_iff_odd)
  then show "\<not> bit v i" by (simp add: bit_unsigned_iff)
qed

lemma rev_find_below:
  fixes v :: "'w::len word"
  assumes "LENGTH('w) \<in> {8, 16, 32, 64}"
  shows "xdp2_bitmap_word_rev_find v = find_below (bit v) LENGTH('w) LENGTH('w)"
proof (cases "v = 0")
  case True
  then show ?thesis by (simp add: xdp2_bitmap_word_rev_find_def find_below_none)
next
  case False
  let ?l = "xdp2_log LENGTH('w) (unat v)"
  have "is_log (unat v) ?l"
    using False assms by (intro xdp2_log_ok) (auto simp: word_neq_0_conv unat_gt_0 simp flip: word_size)
  note top = is_log_top [OF this]
  have "find_below (bit v) LENGTH('w) LENGTH('w) = ?l"
    using top bit_imp_le_length [OF top(1)] by (intro find_below_eqI) auto
  then show ?thesis using False by (simp add: xdp2_bitmap_word_rev_find_def)
qed

lemma rev_find_default_below:
  "LENGTH('w) \<le> 64 \<Longrightarrow> xdp2_bitmap_word_rev_find_default v = Ok (find_below (bit v) LENGTH('w) LENGTH('w))"
  for v :: "'w::len word"
proof -
  assume len: "LENGTH('w) \<le> 64"
  have "n \<le> LENGTH('w) \<Longrightarrow> rev_find_loop v n = Ok (find_below (bit v) n LENGTH('w))" for n
    using len by (induction n) (auto simp: isset_bit find_below_Suc)
  then show ?thesis by (simp add: xdp2_bitmap_word_rev_find_default_def)
qed

lemma rev_find_start_below:
  fixes v :: "'w::len word"
  assumes "LENGTH('w) \<in> {8, 16, 32, 64}" "pos < 64"
  shows "xdp2_bitmap_word_rev_find_start v pos = Ok (find_below (bit v) (min (pos + 1) LENGTH('w)) LENGTH('w))"
proof -
  let ?m = "ucast (2 ^ (pos + 1) - 1 :: u64) :: 'w word"
  have "find_below (bit (v AND ?m)) LENGTH('w) LENGTH('w) = find_below (\<lambda>i. i < pos + 1 \<and> bit v i) LENGTH('w) LENGTH('w)"
    using assms(1) by (intro find_below_cong) (auto simp: bit_and_iff bit_below_mask simp del: power_Suc)
  moreover have "(if pos = 63 then Ok (- 1) else map_res (\<lambda>b. b - 1) (XDP2_BIT (pos + 1))) = Ok (2 ^ (pos + 1) - 1 :: u64)"
    using assms(2) by (simp add: XDP2_BIT_Ok del: power_Suc)
  ultimately show ?thesis
    by (simp add: xdp2_bitmap_word_rev_find_start_def rev_find_below [OF assms(1)] find_below_restrict del: power_Suc)
qed

lemma rev_find_next_below:
  fixes v :: "'w::len word"
  assumes "LENGTH('w) \<in> {8, 16, 32, 64}" "pos < 64"
  shows "xdp2_bitmap_word_rev_find_next v pos = Ok (find_below (bit v) (min pos LENGTH('w)) LENGTH('w))"
proof (cases "pos = 0")
  case False
  let ?m = "ucast (2 ^ pos - 1 :: u64) :: 'w word"
  have "find_below (bit (v AND ?m)) LENGTH('w) LENGTH('w) = find_below (\<lambda>i. i < pos \<and> bit v i) LENGTH('w) LENGTH('w)"
    using assms(1) by (intro find_below_cong) (auto simp: bit_and_iff bit_below_mask)
  then show ?thesis using False assms
    by (simp add: xdp2_bitmap_word_rev_find_next_def rev_find_below XDP2_BIT_Ok find_below_restrict)
qed (simp add: xdp2_bitmap_word_rev_find_next_def)

text \<open>A loop over the bits visits them in order.\<close>

lemma foreach_from_bits:
  assumes "\<And>p. p < n \<Longrightarrow> nxt p = Ok (find_from P (p + 1) n)"
  shows "n - pos < fuel \<Longrightarrow> foreach_from fuel nxt n (find_from P pos n) = Ok (filter P [pos..<n])"
proof (induction fuel arbitrary: pos)
  case (Suc k)
  let ?f = "find_from P pos n"
  show ?case
  proof (cases "?f < n")
    case True
    then have pos: "pos < n" by (metis find_from_end leI less_irrefl)
    then have ge: "pos \<le> ?f" by (simp add: find_from_ge)
    have "[pos..<n] = [pos..<?f] @ ?f # [?f + 1..<n]" 
      using ge True upt_add_eq_append [of pos ?f "n - ?f"] by (simp add: upt_conv_Cons)
    moreover have "filter P [pos..<?f] = []" using find_from_miss [of pos _ P n] by (auto simp: filter_empty_conv)
    moreover have "P ?f" using True by (rule find_from_hit)
    moreover have "foreach_from k nxt n (find_from P (?f + 1) n) = Ok (filter P [?f + 1..<n])"
      using Suc.prems ge pos by (intro Suc.IH) simp
    ultimately show ?thesis using True assms by simp
  next
    case False
    then have "?f = n" using find_from_le [of P pos n] by simp
    then have "filter P [pos..<n] = []" using find_from_miss [of pos _ P n] by (auto simp: filter_empty_conv)
    then show ?thesis using False by simp
  qed
qed simp

lemma word_foreach_bits:
  fixes v :: "'w::len word"
  assumes "LENGTH('w) < 64" "pos < 64" "LENGTH('w) < fuel"
  shows "xdp2_bitmap_word_foreach_bit fuel v pos = Ok (filter (bit v) [pos..<LENGTH('w)])"
  unfolding xdp2_bitmap_word_foreach_bit_def using assms
  by (simp add: find_start_from) (rule foreach_from_bits, simp_all add: find_next_from)

section \<open>Properties\<close>

text \<open>C36: The fast and the default versions of the word functions agree: \<open>find\<close> with \<open>c_ffs\<close>, \<open>rev_find\<close>
  with the logarithm macros and \<open>weight\<close> with the population count give the first bit, the last bit
  and the number of bits that the loops over the bits give, at every width.\<close>

theorem word_fast_default:
  fixes v :: "'w::len word"
  assumes "LENGTH('w) \<in> {8, 16, 32, 64}"
  shows "xdp2_bitmap_word_find_default v = Ok (xdp2_bitmap_word_find v) \<and>
    xdp2_bitmap_word_rev_find_default v = Ok (xdp2_bitmap_word_rev_find v) \<and>
    xdp2_bitmap_word_default v = Ok (xdp2_bitmap_word_weight v)"
proof -
  have "LENGTH('w) \<le> 64" using assms by auto
  then show ?thesis
    by (simp add: find_default_from find_ffs rev_find_default_below rev_find_below [OF assms]
        weight_default_popcount xdp2_bitmap_word_weight_def)
qed

theorem word_fast_default_witness:
  "xdp2_bitmap_word_find_default (0x90 :: 8 word) = Ok (xdp2_bitmap_word_find (0x90 :: 8 word)) \<and>
    xdp2_bitmap_word_rev_find_default (0x90 :: 8 word) = Ok (xdp2_bitmap_word_rev_find (0x90 :: 8 word)) \<and>
    xdp2_bitmap_word_default (0x90 :: 8 word) = Ok (xdp2_bitmap_word_weight (0x90 :: 8 word))"
  using word_fast_default [of "0x90 :: 8 word"] by simp

text \<open>C39: The loops over the zero bits of a word of less than 64 bits run over its set bits instead: they use \<open>find_start\<close> and
  \<open>find_next\<close>, not the functions for zero bits.\<close>

theorem word_foreach_zero_visits_ones:
  fixes v :: "'w::len word"
  assumes "LENGTH('w) < 64" "pos < 64" "LENGTH('w) < fuel"
  shows "xdp2_bitmap_word_foreach_zero_bit fuel v pos = Ok (filter (bit v) [pos..<LENGTH('w)])"
  using word_foreach_bits [OF assms, of v]
  by (simp add: xdp2_bitmap_word_foreach_zero_bit_def xdp2_bitmap_word_foreach_bit_def)

theorem word_foreach_zero_visits_ones_witness:
  "xdp2_bitmap_word_foreach_zero_bit 9 (0x81 :: 8 word) 0 = Ok (filter (bit (0x81 :: 8 word)) [0..<8])"
  using word_foreach_zero_visits_ones [of 0 9 "0x81 :: 8 word"] by simp

text \<open>\<open>find_next\<close> shifts a 64-bit value by 64 bits when it is asked for the bit after bit 63, so the
  loop over the bits of a 64-bit word is undefined when its top bit is set. The operations that
  spread and collect bits shift a 32-bit integer by up to 63 bits.\<close>

theorem word_shifts_undefined:
  "xdp2_bitmap_word_foreach_bit 3 (push_bit 63 1 :: u64) 0 = Err UndefinedShift \<and>
    xdp2_bitmap_word_expand 3 1 (push_bit 40 1) = Err UndefinedShift \<and>
    xdp2_bitmap_word_rol 5 64 64 = Err UndefinedShift"
proof -
  have "find_from (bit (push_bit n 1 :: u64)) 0 64 = n" if "n < 64" for n
    using that by (intro find_from_eqI) (auto simp: bit_simps)
  from this [of 63] this [of 40] show ?thesis
    by (simp add: xdp2_bitmap_word_foreach_bit_def find_start_from find_next_63 numeral_3_eq_3 xdp2_bitmap_word_expand_def
        find_ffs isset_bit bool_shl_def xdp2_bitmap_word_rol_def xdp2_bitmap_word_rol_sized_def shift_ok_def)
qed

end
