(* ===== verification/Bitmap.thy ===== *)
theory Bitmap
  imports Bitmap_Word
begin

text \<open>
  Bitmaps of several words, \<open>src/include/xdp2/bitmap.h\<close> and \<open>bitmap_helpers.h\<close>: single bits, and the
  operations on a range of bits that the macros \<open>__XDP2_BITMAP_1ARG\<close>, \<open>__XDP2_BITMAP_2ARG\<close> and
  \<open>__XDP2_BITMAP_3ARG\<close> make. The macros make each function for four word sizes, for words in host and
  in swapped byte order and for both orders of the words. Here the word size is a type variable,
  \<open>conv\<close> is \<open>CONV_FUNC\<close>, and \<open>nw\<close> is \<open>NUM_WORDS\<close>, zero for a bitmap that is not reversed. Positions and
  numbers of bits are \<open>unsigned int\<close>.
\<close>

section \<open>Words of a bitmap\<close>

definition word_index :: "nat \<Rightarrow> nat \<Rightarrow> int" where
  "word_index nw k = (if nw = 0 then int k else int nw - 1 - int k)"

definition rd_word :: "'w::len word list \<Rightarrow> nat \<Rightarrow> nat \<Rightarrow> 'w word res" where
  "rd_word bm nw k =
     (let i = word_index nw k in if 0 \<le> i \<and> nat i < length bm then Ok (bm ! nat i) else Err OutOfBounds)"

definition wr_word :: "'w::len word list \<Rightarrow> nat \<Rightarrow> nat \<Rightarrow> 'w word \<Rightarrow> 'w word list res" where
  "wr_word bm nw k w =
     (let i = word_index nw k in if 0 \<le> i \<and> nat i < length bm then Ok (bm[nat i := w]) else Err OutOfBounds)"

section \<open>Single bits\<close>

definition xdp2_bitmap_set :: "('w::len word \<Rightarrow> 'w word) \<Rightarrow> 'w word list \<Rightarrow> nat \<Rightarrow> nat \<Rightarrow> 'w word list res" where
  "xdp2_bitmap_set conv bm nw index =
     bind_res (rd_word bm nw (index div LENGTH('w))) (\<lambda>w.
     wr_word bm nw (index div LENGTH('w)) (w OR conv (push_bit (index mod LENGTH('w)) 1)))"

definition xdp2_bitmap_unset :: "('w::len word \<Rightarrow> 'w word) \<Rightarrow> 'w word list \<Rightarrow> nat \<Rightarrow> nat \<Rightarrow> 'w word list res" where
  "xdp2_bitmap_unset conv bm nw index =
     bind_res (rd_word bm nw (index div LENGTH('w))) (\<lambda>w.
     wr_word bm nw (index div LENGTH('w)) (w AND conv (NOT (push_bit (index mod LENGTH('w)) 1))))"

definition xdp2_bitmap_set_val ::
    "('w::len word \<Rightarrow> 'w word) \<Rightarrow> 'w word list \<Rightarrow> nat \<Rightarrow> nat \<Rightarrow> bool \<Rightarrow> 'w word list res" where
  "xdp2_bitmap_set_val conv bm nw index val =
     (let offset = index div LENGTH('w); shift = index mod LENGTH('w)
      in bind_res (rd_word bm nw offset) (\<lambda>w.
         wr_word bm nw offset
           ((w AND conv (NOT (push_bit shift 1))) OR conv (push_bit shift (of_bool val)))))"

definition xdp2_bitmap_isset :: "('w::len word \<Rightarrow> 'w word) \<Rightarrow> 'w word list \<Rightarrow> nat \<Rightarrow> nat \<Rightarrow> bool res" where
  "xdp2_bitmap_isset conv bm nw index =
     bind_res (rd_word bm nw (index div LENGTH('w))) (\<lambda>w.
     Ok (w AND conv (push_bit (index mod LENGTH('w)) 1) \<noteq> 0))"

section \<open>Ranges of bits\<close>

text \<open>The unsigned subtraction \<open>(NBITS) - (POS)\<close>.\<close>

definition sub_u32 :: "nat \<Rightarrow> nat \<Rightarrow> nat" where
  "sub_u32 a b = (a + 2 ^ 32 - b) mod 2 ^ 32"

definition XDP2_BITMAP_HIGH_MASK :: "nat \<Rightarrow> 'w::len word" where
  "XDP2_BITMAP_HIGH_MASK start = push_bit start (- 1)"

definition XDP2_BITMAP_LOW_MASK :: "nat \<Rightarrow> 'w::len word res" where
  "XDP2_BITMAP_LOW_MASK start =
     (if start \<le> LENGTH('w) then Ok (drop_bit (LENGTH('w) - start) (- 1)) else Err UndefinedShift)"

definition XDP2_BITMAP_MASK :: "nat \<Rightarrow> nat \<Rightarrow> 'w::len word res" where
  "XDP2_BITMAP_MASK start nbits =
     map_res (\<lambda>m. XDP2_BITMAP_HIGH_MASK start AND m) (XDP2_BITMAP_LOW_MASK (start + nbits))"

text \<open>
  The macros for ranges have one shape: a part of the first word, whole words, and a part of the
  last word. The body gets the number of the word, the mask in host byte order and the position of
  bit 0 of the word, and says whether to leave the macro.
\<close>

type_synonym ('w, 's) body = "nat \<Rightarrow> 'w word \<Rightarrow> nat \<Rightarrow> 's \<Rightarrow> (bool \<times> 's) res"

primrec walk_words :: "('w::len, 's) body \<Rightarrow> nat \<Rightarrow> nat \<Rightarrow> nat \<Rightarrow> 's \<Rightarrow> (bool \<times> 's) res" where
  "walk_words f 0 k base s = Ok (False, s)"
| "walk_words f (Suc n) k base s =
     bind_res (f k (- 1) base s) (\<lambda>(brk, s).
     if brk then Ok (True, s) else walk_words f n (k + 1) (base + LENGTH('w)) s)"

definition walk_first :: "('w::len, 's) body \<Rightarrow> nat \<Rightarrow> nat \<Rightarrow> nat \<Rightarrow> 's \<Rightarrow> (bool \<times> 's) res" where
  "walk_first f pos need nbits s =
     bind_res (XDP2_BITMAP_MASK (pos mod LENGTH('w)) need) (\<lambda>m.
     bind_res (f (pos div LENGTH('w)) m (pos - pos mod LENGTH('w)) s) (\<lambda>(brk, s).
     Ok (brk \<or> nbits = need, s)))"

definition walk_rest :: "('w::len, 's) body \<Rightarrow> nat \<Rightarrow> nat \<Rightarrow> nat \<Rightarrow> nat \<Rightarrow> 's \<Rightarrow> 's res" where
  "walk_rest f k base nbits limit s =
     bind_res (walk_words f (nbits div LENGTH('w)) k base s) (\<lambda>(brk, s).
     if brk then Ok s
     else
       let left = nbits mod LENGTH('w)
       in if left \<noteq> 0
          then bind_res (XDP2_BITMAP_LOW_MASK left) (\<lambda>m. map_res snd (f (k + nbits div LENGTH('w)) m (limit - left) s))
          else Ok s)"

definition bitmap_walk :: "('w::len, 's) body \<Rightarrow> (nat \<Rightarrow> nat) \<Rightarrow> nat \<Rightarrow> nat \<Rightarrow> 's \<Rightarrow> 's res" where
  "bitmap_walk f need pos limit s =
     (let nbits = sub_u32 limit pos
      in if pos mod LENGTH('w) \<noteq> 0
         then
           bind_res (walk_first f pos (need nbits) nbits s) (\<lambda>(done, s).
           if done then Ok s
           else walk_rest f (pos div LENGTH('w) + 1) (pos + need nbits) (nbits - need nbits) limit s)
         else walk_rest f (pos div LENGTH('w)) pos nbits limit s)"

section \<open>Operations on one bitmap\<close>

text \<open>\<open>_need\<close> in \<open>__XDP2_BITMAP_1ARG\<close> and in the macros for two and three bitmaps.\<close>

definition need1 :: "nat \<Rightarrow> nat \<Rightarrow> nat \<Rightarrow> nat \<Rightarrow> nat" where
  "need1 bits pos limit nbits = (if limit \<le> bits then nbits else min (bits - pos mod bits) nbits)"

definition need2 :: "nat \<Rightarrow> nat \<Rightarrow> nat \<Rightarrow> nat" where
  "need2 bits pos nbits = min (bits - pos mod bits) nbits"

definition XDP2_BITMAP_DO_COMPARE :: "'w::len word \<Rightarrow> nat \<Rightarrow> nat \<Rightarrow> bool \<times> nat" where
  "XDP2_BITMAP_DO_COMPARE v adder ret =
     (if v \<noteq> 0 then (True, xdp2_bitmap_word_find v + adder) else (False, ret))"

definition find_body ::
    "('w::len word \<Rightarrow> 'w word) \<Rightarrow> ('w word \<Rightarrow> 'w word) \<Rightarrow> 'w word list \<Rightarrow> nat \<Rightarrow> ('w, nat) body" where
  "find_body conv oper bm nw k m base ret =
     bind_res (rd_word bm nw k) (\<lambda>w. Ok (XDP2_BITMAP_DO_COMPARE (conv (oper w AND conv m)) base ret))"

definition bitmap_1arg_find ::
    "('w::len word \<Rightarrow> 'w word) \<Rightarrow> ('w word \<Rightarrow> 'w word) \<Rightarrow> 'w word list \<Rightarrow> nat \<Rightarrow> nat \<Rightarrow> nat \<Rightarrow> nat \<Rightarrow> nat res" where
  "bitmap_1arg_find conv oper bm nw pos nbits ret =
     bitmap_walk (find_body conv oper bm nw) (need1 LENGTH('w) pos nbits) pos nbits ret"

text \<open>\<open>find\<close>, \<open>find_zero\<close>, \<open>find_next\<close>, \<open>find_roll\<close> and so on: \<open>oper\<close> is the identity or the
  complement, \<open>add\<close> is 1 for the functions that start after \<open>pos\<close>.\<close>

definition bitmap_find_funct ::
    "('w::len word \<Rightarrow> 'w word) \<Rightarrow> ('w word \<Rightarrow> 'w word) \<Rightarrow> nat \<Rightarrow> bool \<Rightarrow> 'w word list \<Rightarrow> nat \<Rightarrow> nat \<Rightarrow> nat \<Rightarrow> nat res" where
  "bitmap_find_funct conv oper add roll bm nw pos nbits =
     bind_res (bitmap_1arg_find conv oper bm nw (pos + add) nbits nbits) (\<lambda>w.
     if roll \<and> w \<ge> nbits then bitmap_1arg_find conv oper bm nw 0 nbits nbits else Ok w)"

definition xdp2_bitmap_find :: "('w::len word \<Rightarrow> 'w word) \<Rightarrow> 'w word list \<Rightarrow> nat \<Rightarrow> nat \<Rightarrow> nat \<Rightarrow> nat res" where
  "xdp2_bitmap_find conv = bitmap_find_funct conv (\<lambda>w. w) 0 False"

definition xdp2_bitmap_find_zero :: "('w::len word \<Rightarrow> 'w word) \<Rightarrow> 'w word list \<Rightarrow> nat \<Rightarrow> nat \<Rightarrow> nat \<Rightarrow> nat res" where
  "xdp2_bitmap_find_zero conv = bitmap_find_funct conv NOT 0 False"

definition xdp2_bitmap_find_next :: "('w::len word \<Rightarrow> 'w word) \<Rightarrow> 'w word list \<Rightarrow> nat \<Rightarrow> nat \<Rightarrow> nat \<Rightarrow> nat res" where
  "xdp2_bitmap_find_next conv = bitmap_find_funct conv (\<lambda>w. w) 1 False"

definition xdp2_bitmap_find_next_zero :: "('w::len word \<Rightarrow> 'w word) \<Rightarrow> 'w word list \<Rightarrow> nat \<Rightarrow> nat \<Rightarrow> nat \<Rightarrow> nat res" where
  "xdp2_bitmap_find_next_zero conv = bitmap_find_funct conv NOT 1 False"

definition xdp2_bitmap_find_roll :: "('w::len word \<Rightarrow> 'w word) \<Rightarrow> 'w word list \<Rightarrow> nat \<Rightarrow> nat \<Rightarrow> nat \<Rightarrow> nat res" where
  "xdp2_bitmap_find_roll conv = bitmap_find_funct conv (\<lambda>w. w) 0 True"

definition xdp2_bitmap_find_roll_zero :: "('w::len word \<Rightarrow> 'w word) \<Rightarrow> 'w word list \<Rightarrow> nat \<Rightarrow> nat \<Rightarrow> nat \<Rightarrow> nat res" where
  "xdp2_bitmap_find_roll_zero conv = bitmap_find_funct conv NOT 0 True"

definition xdp2_bitmap_find_roll_next :: "('w::len word \<Rightarrow> 'w word) \<Rightarrow> 'w word list \<Rightarrow> nat \<Rightarrow> nat \<Rightarrow> nat \<Rightarrow> nat res" where
  "xdp2_bitmap_find_roll_next conv = bitmap_find_funct conv (\<lambda>w. w) 1 True"

definition xdp2_bitmap_find_roll_next_zero :: "('w::len word \<Rightarrow> 'w word) \<Rightarrow> 'w word list \<Rightarrow> nat \<Rightarrow> nat \<Rightarrow> nat \<Rightarrow> nat res" where
  "xdp2_bitmap_find_roll_next_zero conv = bitmap_find_funct conv NOT 1 True"

datatype bitmap_test = TEST_NONE | TEST_WEIGHT | TEST_ANY_SET | TEST_ANY_ZERO

definition XDP2_BITMAP_HANDLE_TEST :: "bitmap_test \<Rightarrow> nat \<Rightarrow> 'w::len word \<Rightarrow> 'w word \<Rightarrow> nat" where
  "XDP2_BITMAP_HANDLE_TEST test ret v m = (case test of
     TEST_NONE \<Rightarrow> ret
   | TEST_WEIGHT \<Rightarrow> ret + xdp2_bitmap_word_weight v
   | TEST_ANY_SET \<Rightarrow> if v \<noteq> 0 then 1 else ret
   | TEST_ANY_ZERO \<Rightarrow> if NOT v AND m \<noteq> 0 then 1 else ret)"

definition test_body ::
    "('w::len word \<Rightarrow> 'w word) \<Rightarrow> bitmap_test \<Rightarrow> 'w word list \<Rightarrow> nat \<Rightarrow> ('w, nat) body" where
  "test_body conv test bm nw k m base ret =
     bind_res (rd_word bm nw k) (\<lambda>w. Ok (False, XDP2_BITMAP_HANDLE_TEST test ret (w AND conv m) (conv m)))"

definition xdp2_bitmap_test ::
    "('w::len word \<Rightarrow> 'w word) \<Rightarrow> 'w word list \<Rightarrow> nat \<Rightarrow> nat \<Rightarrow> nat \<Rightarrow> bitmap_test \<Rightarrow> nat res" where
  "xdp2_bitmap_test conv bm nw pos nbits test =
     bitmap_walk (test_body conv test bm nw) (need1 LENGTH('w) pos nbits) pos nbits 0"

definition set_body :: "('w::len word \<Rightarrow> 'w word) \<Rightarrow> bool \<Rightarrow> nat \<Rightarrow> ('w, 'w word list) body" where
  "set_body conv val nw k m base bm =
     bind_res (rd_word bm nw k) (\<lambda>w.
     map_res (Pair False) (wr_word bm nw k (if val then w OR conv m else w AND NOT (conv m))))"

definition xdp2_bitmap_set_ones :: "('w::len word \<Rightarrow> 'w word) \<Rightarrow> 'w word list \<Rightarrow> nat \<Rightarrow> nat \<Rightarrow> nat \<Rightarrow> 'w word list res" where
  "xdp2_bitmap_set_ones conv bm nw pos nbits =
     bitmap_walk (set_body conv True nw) (need1 LENGTH('w) pos nbits) pos nbits bm"

definition xdp2_bitmap_set_zeroes :: "('w::len word \<Rightarrow> 'w word) \<Rightarrow> 'w word list \<Rightarrow> nat \<Rightarrow> nat \<Rightarrow> nat \<Rightarrow> 'w word list res" where
  "xdp2_bitmap_set_zeroes conv bm nw pos nbits =
     bitmap_walk (set_body conv False nw) (need1 LENGTH('w) pos nbits) pos nbits bm"

section \<open>Operations on two and three bitmaps\<close>

datatype bitmap_op = Op_And | Op_Or | Op_Xor

definition compl_if :: "bool \<Rightarrow> 'w::len word \<Rightarrow> 'w word" where
  "compl_if b w = (if b then NOT w else w)"

definition apply_op :: "bitmap_op \<Rightarrow> 'w::len word \<Rightarrow> 'w word \<Rightarrow> 'w word" where
  "apply_op b x y = (case b of Op_And \<Rightarrow> x AND y | Op_Or \<Rightarrow> x OR y | Op_Xor \<Rightarrow> x XOR y)"

text \<open>\<open>NOT ((S1_OP ARG1) OP (S2_OP ARG2))\<close>, each of the three either empty or \<open>~\<close>.\<close>

definition XDP2_BITMAP_VALUE2 :: "bitmap_op \<Rightarrow> bool \<Rightarrow> bool \<Rightarrow> bool \<Rightarrow> 'w::len word \<Rightarrow> 'w word \<Rightarrow> 'w word" where
  "XDP2_BITMAP_VALUE2 b n s1 s2 x y = compl_if n (apply_op b (compl_if s1 x) (compl_if s2 y))"

text \<open>A source operand is a bitmap or, with \<open>WORD_SRC\<close>, a single word for every position.\<close>

definition src_word :: "bool \<Rightarrow> 'w::len word list \<Rightarrow> nat \<Rightarrow> nat \<Rightarrow> 'w word res" where
  "src_word word_src bm nw k =
     (if word_src then (case bm of [] \<Rightarrow> Err OutOfBounds | w # _ \<Rightarrow> Ok w) else rd_word bm nw k)"

definition body_2arg ::
    "('w::len word \<Rightarrow> 'w word) \<Rightarrow> ('w word \<Rightarrow> 'w word \<Rightarrow> 'w word) \<Rightarrow> bool \<Rightarrow> 'w word list \<Rightarrow> bitmap_test \<Rightarrow> nat \<Rightarrow>
     ('w, 'w word list \<times> nat) body" where
  "body_2arg conv val word_src src test nw k m base s =
     (let (dest, ret) = s
      in bind_res (src_word word_src src nw k) (\<lambda>x. bind_res (rd_word dest nw k) (\<lambda>d.
         let r = val x d AND conv m
         in bind_res (wr_word dest nw k (r OR (d AND NOT (conv m)))) (\<lambda>dest.
            Ok (False, dest, XDP2_BITMAP_HANDLE_TEST test ret r (conv m))))))"

text \<open>\<open>copy\<close> and \<open>not\<close>, which have no second source, and the operations whose destination is the
  second source.\<close>

definition bitmap_2arg ::
    "('w::len word \<Rightarrow> 'w word) \<Rightarrow> ('w word \<Rightarrow> 'w word \<Rightarrow> 'w word) \<Rightarrow> bool \<Rightarrow> 'w word list \<Rightarrow> 'w word list \<Rightarrow> nat \<Rightarrow>
     nat \<Rightarrow> nat \<Rightarrow> bitmap_test \<Rightarrow> ('w word list \<times> nat) res" where
  "bitmap_2arg conv val word_src dest src nw pos nbits test =
     bitmap_walk (body_2arg conv val word_src src test nw) (need2 LENGTH('w) pos) pos nbits (dest, 0)"

definition xdp2_bitmap_copy ::
    "('w::len word \<Rightarrow> 'w word) \<Rightarrow> 'w word list \<Rightarrow> 'w word list \<Rightarrow> nat \<Rightarrow> nat \<Rightarrow> nat \<Rightarrow> 'w word list res" where
  "xdp2_bitmap_copy conv dest src nw pos nbits =
     map_res fst (bitmap_2arg conv (\<lambda>x d. x) False dest src nw pos nbits TEST_NONE)"

definition xdp2_bitmap_not ::
    "('w::len word \<Rightarrow> 'w word) \<Rightarrow> 'w word list \<Rightarrow> 'w word list \<Rightarrow> nat \<Rightarrow> nat \<Rightarrow> nat \<Rightarrow> 'w word list res" where
  "xdp2_bitmap_not conv dest src nw pos nbits =
     map_res fst (bitmap_2arg conv (\<lambda>x d. NOT x) False dest src nw pos nbits TEST_NONE)"

definition xdp2_bitmap_destsrc ::
    "('w::len word \<Rightarrow> 'w word) \<Rightarrow> bitmap_op \<Rightarrow> bool \<Rightarrow> bool \<Rightarrow> bool \<Rightarrow> 'w word list \<Rightarrow> 'w word list \<Rightarrow> nat \<Rightarrow> nat \<Rightarrow>
     nat \<Rightarrow> bitmap_test \<Rightarrow> ('w word list \<times> nat) res" where
  "xdp2_bitmap_destsrc conv b n s1 s2 dest src nw pos nbits test =
     bitmap_2arg conv (XDP2_BITMAP_VALUE2 b n s1 s2) False dest src nw pos nbits test"

definition body_3arg ::
    "('w::len word \<Rightarrow> 'w word) \<Rightarrow> ('w word \<Rightarrow> 'w word \<Rightarrow> 'w word) \<Rightarrow> bool \<Rightarrow> 'w word list \<Rightarrow> 'w word list \<Rightarrow>
     bitmap_test \<Rightarrow> nat \<Rightarrow> ('w, 'w word list \<times> nat) body" where
  "body_3arg conv val word_src src1 src2 test nw k m base s =
     (let (dest, ret) = s
      in bind_res (src_word word_src src1 nw k) (\<lambda>x. bind_res (rd_word src2 nw k) (\<lambda>y.
         bind_res (rd_word dest nw k) (\<lambda>d.
         let r = val x y AND conv m;
             ret = XDP2_BITMAP_HANDLE_TEST test ret r (conv m)
         in bind_res (wr_word dest nw k (r OR (d AND NOT (conv m)))) (\<lambda>dest. Ok (False, dest, ret))))))"

definition xdp2_bitmap_3arg ::
    "('w::len word \<Rightarrow> 'w word) \<Rightarrow> bitmap_op \<Rightarrow> bool \<Rightarrow> bool \<Rightarrow> bool \<Rightarrow> bool \<Rightarrow> 'w word list \<Rightarrow> 'w word list \<Rightarrow>
     'w word list \<Rightarrow> nat \<Rightarrow> nat \<Rightarrow> nat \<Rightarrow> bitmap_test \<Rightarrow> ('w word list \<times> nat) res" where
  "xdp2_bitmap_3arg conv b n s1 s2 word_src dest src1 src2 nw pos nbits test =
     bitmap_walk (body_3arg conv (XDP2_BITMAP_VALUE2 b n s1 s2) word_src src1 src2 test nw)
       (need2 LENGTH('w) pos) pos nbits (dest, 0)"

text \<open>The comparisons use the macro for two bitmaps with \<open>src1\<close> in the place of the destination and
  \<open>src2\<close> in that of the source, also for the variants in which \<open>src1\<close> is a word.\<close>

definition cmp_body ::
    "('w::len word \<Rightarrow> 'w word) \<Rightarrow> ('w word \<Rightarrow> 'w word \<Rightarrow> 'w word) \<Rightarrow> bool \<Rightarrow> 'w word list \<Rightarrow> 'w word list \<Rightarrow> nat \<Rightarrow>
     ('w, nat) body" where
  "cmp_body conv val word_src dest src nw k m base ret =
     bind_res (src_word word_src src nw k) (\<lambda>x. bind_res (rd_word dest nw k) (\<lambda>d.
     Ok (XDP2_BITMAP_DO_COMPARE (conv (val x d AND conv m)) base ret)))"

definition xdp2_bitmap_cmp ::
    "('w::len word \<Rightarrow> 'w word) \<Rightarrow> bitmap_op \<Rightarrow> bool \<Rightarrow> bool \<Rightarrow> 'w word list \<Rightarrow> 'w word list \<Rightarrow> nat \<Rightarrow> nat \<Rightarrow> nat \<Rightarrow> nat res" where
  "xdp2_bitmap_cmp conv b n word_src src1 src2 nw pos nbits =
     bitmap_walk (cmp_body conv (XDP2_BITMAP_VALUE2 b n False False) word_src src1 src2 nw)
       (need2 LENGTH('w) pos) pos nbits nbits"

definition xdp2_bitmap_wsrc_cmp ::
    "('w::len word \<Rightarrow> 'w word) \<Rightarrow> 'w word \<Rightarrow> 'w word list \<Rightarrow> nat \<Rightarrow> nat \<Rightarrow> nat \<Rightarrow> nat res" where
  "xdp2_bitmap_wsrc_cmp conv src1 src2 nw pos nbits = xdp2_bitmap_cmp conv Op_Xor False True [src1] src2 nw pos nbits"

section \<open>The range macros visit the bits of the range\<close>

text \<open>\<open>m\<close> selects the bits from \<open>lo\<close> to \<open>hi\<close> in word \<open>k\<close>.\<close>

definition seg :: "nat \<Rightarrow> nat \<Rightarrow> nat \<Rightarrow> 'w::len word \<Rightarrow> bool" where
  "seg k lo hi m \<longleftrightarrow> k * LENGTH('w) \<le> lo \<and> lo \<le> hi \<and> k * LENGTH('w) < hi \<and> hi \<le> (k + 1) * LENGTH('w) \<and>
     (\<forall>b < LENGTH('w). bit m b \<longleftrightarrow> lo \<le> k * LENGTH('w) + b \<and> k * LENGTH('w) + b < hi)"

lemma seg_whole: "seg k (k * LENGTH('w)) ((k + 1) * LENGTH('w)) (- 1 :: 'w::len word)"
  by (simp add: seg_def bit_simps)

lemma seg_left:
  assumes "0 < n" "n \<le> LENGTH('w)"
  shows "\<exists>m. XDP2_BITMAP_LOW_MASK n = Ok m \<and> seg k (k * LENGTH('w)) (k * LENGTH('w) + n) (m :: 'w::len word)"
  using assms by (simp add: XDP2_BITMAP_LOW_MASK_def seg_def bit_simps)

lemma seg_part:
  assumes "0 < r" "r + n \<le> LENGTH('w)"
  shows "\<exists>m. XDP2_BITMAP_MASK r n = Ok m \<and> seg k (k * LENGTH('w) + r) (k * LENGTH('w) + r + n) (m :: 'w::len word)"
  using assms by (auto simp: XDP2_BITMAP_MASK_def XDP2_BITMAP_LOW_MASK_def XDP2_BITMAP_HIGH_MASK_def seg_def bit_simps)

lemma seg_first:
  assumes "pos mod LENGTH('w) \<noteq> 0" "need \<le> LENGTH('w) - pos mod LENGTH('w)"
  shows "\<exists>m. XDP2_BITMAP_MASK (pos mod LENGTH('w)) need = Ok m \<and> seg (pos div LENGTH('w)) pos (pos + need) (m :: 'w::len word)"
proof -
  have "pos mod LENGTH('w) < LENGTH('w)" by simp
  then have "pos mod LENGTH('w) + need \<le> LENGTH('w)" using assms(2) by linarith
  then show ?thesis using seg_part [where 'w = 'w and k = "pos div LENGTH('w)" and r = "pos mod LENGTH('w)" and n = need] assms(1)
    unfolding div_mult_mod_eq by simp
qed

text \<open>\<open>J p\<close> holds when the bits up to \<open>p\<close> have been visited, \<open>Q\<close> when the macro is left.\<close>

definition body_keeps :: "nat \<Rightarrow> nat \<Rightarrow> (nat \<Rightarrow> 's \<Rightarrow> bool) \<Rightarrow> ('s \<Rightarrow> bool) \<Rightarrow> ('w::len, 's) body \<Rightarrow> bool" where
  "body_keeps pos limit J Q f \<longleftrightarrow>
     (\<forall>k lo hi m s. pos \<le> lo \<longrightarrow> hi \<le> limit \<longrightarrow> seg k lo hi m \<longrightarrow> J lo s \<longrightarrow>
        wp (\<lambda>(brk, s'). if brk then Q s' else J hi s') (f k m (k * LENGTH('w)) s))"

lemma body_keepsE:
  fixes f :: "('w::len, 's) body"
  assumes "body_keeps pos limit J Q f" "pos \<le> lo" "hi \<le> limit" "seg k lo hi m" "J lo s"
  obtains brk s' where "f k m (k * LENGTH('w)) s = Ok (brk, s')" "if brk then Q s' else J hi s'"
proof -
  have "wp (\<lambda>(brk, s'). if brk then Q s' else J hi s') (f k m (k * LENGTH('w)) s)"
    using assms unfolding body_keeps_def by blast
  then show thesis using that unfolding wp_iff by blast
qed

lemma walk_words_wp:
  fixes f :: "('w::len, 's) body"
  assumes step: "body_keeps pos limit J Q f"
  shows "pos \<le> k * LENGTH('w) \<Longrightarrow> (k + n) * LENGTH('w) \<le> limit \<Longrightarrow> J (k * LENGTH('w)) s \<Longrightarrow>
    wp (\<lambda>(brk, s'). if brk then Q s' else J ((k + n) * LENGTH('w)) s') (walk_words f n k (k * LENGTH('w)) s)"
proof (induction n arbitrary: k s)
  case (Suc n)
  have "(k + 1) * LENGTH('w) \<le> (k + Suc n) * LENGTH('w)" by (rule mult_le_mono1) simp
  then have le: "(k + 1) * LENGTH('w) \<le> limit" using Suc.prems(2) by (rule le_trans)
  obtain brk s' where s': "f k (- 1) (k * LENGTH('w)) s = Ok (brk, s')" "if brk then Q s' else J ((k + 1) * LENGTH('w)) s'"
    by (rule body_keepsE [OF step Suc.prems(1) le seg_whole Suc.prems(3)])
  show ?case
  proof (cases brk)
    case True
    then show ?thesis using s' by simp
  next
    case False
    have "wp (\<lambda>(brk, s'). if brk then Q s' else J ((k + 1 + n) * LENGTH('w)) s') (walk_words f n (k + 1) ((k + 1) * LENGTH('w)) s')"
      using Suc.prems s'(2) False by (intro Suc.IH) simp_all
    moreover have "walk_words f (Suc n) k (k * LENGTH('w)) s = walk_words f n (k + 1) ((k + 1) * LENGTH('w)) s'"
      using False s'(1) by (simp add: add.commute)
    moreover have "k + 1 + n = k + Suc n" by simp
    ultimately show ?thesis by (simp only:)
  qed
qed simp

lemma walk_rest_wp:
  fixes f :: "('w::len, 's) body"
  assumes step: "body_keeps pos limit J Q f"
    and fin: "\<And>s. J limit s \<Longrightarrow> Q s"
    and k: "pos \<le> k * LENGTH('w)" "k * LENGTH('w) + nbits = limit" "J (k * LENGTH('w)) s"
  shows "wp Q (walk_rest f k (k * LENGTH('w)) nbits limit s)"
proof -
  let ?n = "nbits div LENGTH('w)" and ?left = "nbits mod LENGTH('w)"
  have l: "limit = (k + ?n) * LENGTH('w) + ?left" using k(2) by (simp add: algebra_simps)
  have "wp (\<lambda>(brk, s'). if brk then Q s' else J ((k + ?n) * LENGTH('w)) s') (walk_words f ?n k (k * LENGTH('w)) s)"
    by (rule walk_words_wp [OF step]) (use k l in linarith)+
  then obtain brk s' where s': "walk_words f ?n k (k * LENGTH('w)) s = Ok (brk, s')" "if brk then Q s' else J ((k + ?n) * LENGTH('w)) s'"
    unfolding wp_iff by blast
  show ?thesis
  proof (cases "brk \<or> ?left = 0")
    case True
    then show ?thesis using s' fin l by (auto simp: walk_rest_def)
  next
    case False
    obtain m :: "'w word" where m: "XDP2_BITMAP_LOW_MASK ?left = Ok m" "seg (k + ?n) ((k + ?n) * LENGTH('w)) limit m"
      using seg_left [where 'w = 'w and n = ?left and k = "k + ?n"] False l by (auto simp: less_imp_le)
    have "pos \<le> (k + ?n) * LENGTH('w)" "J ((k + ?n) * LENGTH('w)) s'" using s' False k(1) by (simp_all add: algebra_simps)
    then obtain brk' s'' where f: "f (k + ?n) m ((k + ?n) * LENGTH('w)) s' = Ok (brk', s'')" "if brk' then Q s'' else J limit s''"
      by (rule body_keepsE [OF step _ order_refl m(2)])
    have "limit - ?left = (k + ?n) * LENGTH('w)" using l by simp
    then show ?thesis using s'(1) False m(1) f fin by (auto simp: walk_rest_def split: if_splits)
  qed
qed

lemma sub_u32_le: "pos \<le> limit \<Longrightarrow> limit < 2 ^ 32 \<Longrightarrow> sub_u32 limit pos = limit - pos"
proof -
  assume "pos \<le> limit" "limit < 2 ^ 32"
  then have "limit + 2 ^ 32 - pos = limit - pos + 2 ^ 32" "limit - pos < 2 ^ 32" by simp_all
  then show ?thesis unfolding sub_u32_def by (simp only: mod_add_self2 mod_less)
qed

lemma bitmap_walk_wp:
  fixes f :: "('w::len, 's) body"
  assumes pos: "pos \<le> limit" "limit < 2 ^ 32"
    and need: "pos mod LENGTH('w) \<noteq> 0 \<Longrightarrow> need (limit - pos) = min (LENGTH('w) - pos mod LENGTH('w)) (limit - pos)"
    and step: "body_keeps pos limit J Q f"
    and fin: "\<And>s. J limit s \<Longrightarrow> Q s" and init: "J pos s"
  shows "wp Q (bitmap_walk f need pos limit s)"
proof (cases "pos mod LENGTH('w) = 0")
  case True
  then have e: "pos div LENGTH('w) * LENGTH('w) = pos" using div_mult_mod_eq [of pos "LENGTH('w)"] by linarith
  have "wp Q (walk_rest f (pos div LENGTH('w)) (pos div LENGTH('w) * LENGTH('w)) (limit - pos) limit s)"
    by (rule walk_rest_wp [OF step fin]) (use pos(1) init e in simp_all)
  then show ?thesis using True e by (simp add: bitmap_walk_def sub_u32_le [OF pos])
next
  case False
  let ?W = "LENGTH('w)"
  define n where "n = min (LENGTH('w) - pos mod LENGTH('w)) (limit - pos)"
  have n: "n \<le> ?W - pos mod ?W" "pos + n \<le> limit" "n = limit - pos \<or> n = ?W - pos mod ?W" "need (limit - pos) = n"
    using pos(1) need [OF False] by (auto simp: n_def)
  have d: "pos - pos mod ?W = pos div ?W * ?W" by (simp add: minus_mod_eq_div_mult)
  obtain m :: "'w word" where m: "XDP2_BITMAP_MASK (pos mod ?W) n = Ok m" "seg (pos div ?W) pos (pos + n) m"
    using seg_first [OF False n(1)] by blast
  obtain brk s' where s': "f (pos div ?W) m (pos div ?W * ?W) s = Ok (brk, s')" "if brk then Q s' else J (pos + n) s'"
    by (rule body_keepsE [OF step order_refl n(2) m(2) init])
  have walk: "bitmap_walk f need pos limit s = (if brk \<or> limit - pos = n then Ok s'
      else walk_rest f (pos div ?W + 1) (pos + n) (limit - pos - n) limit s')"
    using False m(1) s'(1) n(4) by (simp add: bitmap_walk_def sub_u32_le [OF pos] walk_first_def d)
  show ?thesis
  proof (cases "brk \<or> limit - pos = n")
    case True
    then have "brk \<or> pos + n = limit" using pos(1) by auto
    then show ?thesis using True walk s'(2) fin by (auto split: if_splits)
  next
    case more: False
    then have "n = ?W - pos mod ?W" using n(3) by auto
    moreover have "pos mod ?W \<le> ?W" by (simp add: less_imp_le)
    moreover have "pos div ?W * ?W + pos mod ?W = pos" by (rule div_mult_mod_eq)
    ultimately have e: "(pos div ?W + 1) * ?W = pos + n" unfolding add_mult_distrib by linarith
    have "wp Q (walk_rest f (pos div ?W + 1) ((pos div ?W + 1) * ?W) (limit - pos - n) limit s')"
      by (rule walk_rest_wp [OF step fin]) (use s'(2) more n(2) e in simp_all)
    then show ?thesis unfolding e walk using more by simp
  qed
qed

section \<open>The bits of a bitmap\<close>

text \<open>The result of a test over the bits from \<open>a\<close> to \<open>b\<close>.\<close>

definition test_spec :: "bitmap_test \<Rightarrow> (nat \<Rightarrow> bool) \<Rightarrow> nat \<Rightarrow> nat \<Rightarrow> nat" where
  "test_spec test g a b = (case test of
     TEST_NONE \<Rightarrow> 0
   | TEST_WEIGHT \<Rightarrow> card {i. a \<le> i \<and> i < b \<and> g i}
   | TEST_ANY_SET \<Rightarrow> of_bool (\<exists>i. a \<le> i \<and> i < b \<and> g i)
   | TEST_ANY_ZERO \<Rightarrow> of_bool (\<exists>i. a \<le> i \<and> i < b \<and> \<not> g i))"

lemma test_spec_0 [simp]: "test_spec test g a a = 0"
  by (cases test) (auto simp: test_spec_def)

definition bm_bit :: "('w::len word \<Rightarrow> 'w word) \<Rightarrow> 'w word list \<Rightarrow> nat \<Rightarrow> nat \<Rightarrow> bool" where
  "bm_bit conv bm nw i = bit (conv (bm ! nat (word_index nw (i div LENGTH('w))))) (i mod LENGTH('w))"

definition bm_ok :: "'w::len word list \<Rightarrow> nat \<Rightarrow> nat \<Rightarrow> bool" where
  "bm_ok bm nw n \<longleftrightarrow>
     (if nw = 0 then n \<le> length bm * LENGTH('w) else nw \<le> length bm \<and> n \<le> nw * LENGTH('w))"

lemma word_index_ok:
  fixes bm :: "'w::len word list"
  assumes "bm_ok bm nw n" "k * LENGTH('w) < n"
  shows "0 \<le> word_index nw k \<and> nat (word_index nw k) < length bm \<and> (nw = 0 \<or> k < nw)"
proof -
  have "k * LENGTH('w) < (if nw = 0 then length bm else nw) * LENGTH('w)"
    by (rule less_le_trans [OF assms(2)]) (use assms(1) in \<open>simp add: bm_ok_def split: if_splits\<close>)
  then have "k < (if nw = 0 then length bm else nw)" by simp
  then show ?thesis using assms(1) by (auto simp: word_index_def bm_ok_def split: if_splits)
qed

lemma rd_word_ok: "bm_ok bm nw n \<Longrightarrow> k * LENGTH('w) < n \<Longrightarrow> rd_word bm nw k = Ok (bm ! nat (word_index nw k))"
  for bm :: "'w::len word list"
  using word_index_ok [of bm nw n k] by (simp add: rd_word_def)

lemma wr_word_ok: "bm_ok bm nw n \<Longrightarrow> k * LENGTH('w) < n \<Longrightarrow> wr_word bm nw k w = Ok (bm[nat (word_index nw k) := w])"
  for bm :: "'w::len word list"
  using word_index_ok [of bm nw n k] by (simp add: wr_word_def)

lemma bm_ok_mono: "bm_ok bm nw n \<Longrightarrow> n' \<le> n \<Longrightarrow> bm_ok bm nw n'"
  by (auto simp: bm_ok_def split: if_splits)

lemma bm_ok_upd [simp]: "bm_ok (bm[i := w]) nw n = bm_ok bm nw n"
  by (simp add: bm_ok_def)

lemma div_word_less: "i < n \<Longrightarrow> i div w * w < (n :: nat)"
  by (rule le_less_trans [OF div_times_less_eq_dividend])

lemma bm_bit_upd:
  fixes bm :: "'w::len word list"
  assumes ok: "bm_ok bm nw n" and k: "k * LENGTH('w) < n" and i: "i < n"
  shows "bm_bit conv (bm[nat (word_index nw k) := w]) nw i =
    (if i div LENGTH('w) = k then bit (conv w) (i mod LENGTH('w)) else bm_bit conv bm nw i)"
proof -
  note a = word_index_ok [OF ok k] and b = word_index_ok [OF ok div_word_less [OF i, of "LENGTH('w)"]]
  have "nat (word_index nw (i div LENGTH('w))) = nat (word_index nw k) \<longleftrightarrow> i div LENGTH('w) = k"
    using a b by (auto simp: word_index_def split: if_splits)
  then show ?thesis using a b by (auto simp: bm_bit_def)
qed

lemma bm_bit_word: "b < LENGTH('w) \<Longrightarrow> bm_bit conv bm nw (k * LENGTH('w) + b) = bit (conv (bm ! nat (word_index nw k))) b"
  for bm :: "'w::len word list"
  by (simp add: bm_bit_def)

lemma seg_bits:
  fixes m :: "'w::len word"
  assumes "seg k lo hi m"
  shows "lo \<le> i \<and> i < hi \<longleftrightarrow> i div LENGTH('w) = k \<and> bit m (i mod LENGTH('w))"
proof -
  let ?W = "LENGTH('w)"
  have "i = i div ?W * ?W + i mod ?W" by simp
  moreover have "i mod ?W < ?W" by simp
  moreover have "i div ?W = k" if "lo \<le> i" "i < hi"
  proof (rule div_nat_eqI)
    show "?W * k \<le> i" using that(1) assms by (simp add: seg_def mult.commute)
    show "i < ?W * Suc k" using that(2) assms by (simp add: seg_def mult.commute)
  qed
  ultimately show ?thesis using assms by (auto simp: seg_def)
qed

lemma word_nonzero_bits: "v \<noteq> 0 \<longleftrightarrow> {b. bit v b} \<noteq> {}" for v :: "'w::len word"
  by (auto simp: bit_eq_iff dest: bit_imp_le_length)

lemma popcount_card: "popcount v = card {b. bit v b}" for v :: "'w::len word"
proof -
  have "popcount v = card (set (filter (bit v) [0..<LENGTH('w)]))"
    unfolding popcount_def by (rule distinct_card [symmetric]) simp
  also have "set (filter (bit v) [0..<LENGTH('w)]) = {b. bit v b}" by (auto dest: bit_imp_le_length)
  finally show ?thesis .
qed

lemma need2_min: "need2 w pos (limit - pos) = min (w - pos mod w) (limit - pos)"
  by (simp add: need2_def)

lemma need1_min:
  assumes "pos \<le> limit" "pos mod w \<noteq> 0"
  shows "need1 w pos limit (limit - pos) = min (w - pos mod w) (limit - pos)"
proof (cases "limit \<le> w")
  case True
  then have "pos < w" using assms by (metis le_trans mod_self nat_less_le)
  then show ?thesis using True assms by (simp add: need1_def)
qed (simp add: need1_def)

definition value2_bit :: "bitmap_op \<Rightarrow> bool \<Rightarrow> bool \<Rightarrow> bool \<Rightarrow> bool \<Rightarrow> bool \<Rightarrow> bool" where
  "value2_bit b n s1 s2 x y \<longleftrightarrow>
     (case b of Op_And \<Rightarrow> (x \<noteq> s1) \<and> (y \<noteq> s2) | Op_Or \<Rightarrow> (x \<noteq> s1) \<or> (y \<noteq> s2) | Op_Xor \<Rightarrow> (x \<noteq> s1) \<noteq> (y \<noteq> s2)) \<noteq> n"

text \<open>What the operations rely on in \<open>CONV_FUNC\<close>.\<close>

locale word_conv =
  fixes conv :: "'w::len word \<Rightarrow> 'w word"
  assumes conv_conv: "conv (conv x) = x"
    and conv_and: "conv (x AND y) = conv x AND conv y"
    and conv_not: "conv (NOT x) = NOT (conv x)"
    and conv_popcount: "popcount (conv x) = popcount x"
begin

lemma conv_or: "conv (x OR y) = conv x OR conv y"
  using conv_not [of "NOT x AND NOT y"] by (simp add: conv_and conv_not)

lemma conv_xor: "conv (x XOR y) = conv x XOR conv y"
proof -
  have "a XOR b = (a AND NOT b) OR (NOT a AND b)" for a b :: "'w word" by (rule bit_word_eqI) (auto simp: bit_simps)
  then show ?thesis by (simp add: conv_or conv_and conv_not)
qed

lemma conv_0: "conv 0 = 0"
  using conv_and [of 0 "NOT 0"] by (metis and.right_idem and_zero_eq bit.conj_cancel_right conv_not)

lemma conv_minus_1: "conv (- 1) = - 1"
  using conv_not [of 0] by (simp add: conv_0)

lemma conv_eq_0: "conv x = 0 \<longleftrightarrow> x = 0"
  by (metis conv_0 conv_conv)

lemma find_step:
  assumes ok: "bm_ok bm nw nbits" and s: "seg k lo hi (m :: 'w word)" "pos \<le> lo" "hi \<le> nbits"
    and before: "\<And>i. pos \<le> i \<Longrightarrow> i < lo \<Longrightarrow> \<not> P i"
    and R: "\<And>b. b < LENGTH('w) \<Longrightarrow> bit (R :: 'w word) b \<longleftrightarrow> P (k * LENGTH('w) + b) \<and> bit m b"
  shows "case XDP2_BITMAP_DO_COMPARE R (k * LENGTH('w)) nbits of (brk, r) \<Rightarrow>
      if brk then r = find_from P pos nbits else r = nbits \<and> (\<forall>i. pos \<le> i \<longrightarrow> i < hi \<longrightarrow> \<not> P i)"
proof (cases "R = 0")
  case True
  have "\<not> P i" if "lo \<le> i" "i < hi" for i
  proof -
    have "i div LENGTH('w) = k \<and> bit m (i mod LENGTH('w))" using seg_bits [OF s(1), of i] that by simp
    then show ?thesis using R [of "i mod LENGTH('w)"] True by (metis bit_0_eq bot_apply bot_bool_def div_mult_mod_eq len_gt_0 mod_less_divisor)
  qed
  then have "\<forall>i. pos \<le> i \<longrightarrow> i < hi \<longrightarrow> \<not> P i" using before by (metis leI)
  then show ?thesis using True by (simp add: XDP2_BITMAP_DO_COMPARE_def)
next
  case False
  let ?W = "LENGTH('w)" and ?f = "find_from (bit R) 0 LENGTH('w)"
  obtain b where "bit R b" using False by (metis bit_eqI bit_0_eq bot_apply bot_bool_def)
  then have "?f \<le> b" "b < ?W" using find_from_miss [of 0 b "bit R" ?W] bit_imp_le_length [of R b] leI by blast+
  then have f: "?f < ?W" "bit R ?f" using find_from_hit [of "bit R" 0 ?W] by auto
  then have hit: "P (k * ?W + ?f)" "bit m ?f" using R by auto
  have seg: "lo \<le> k * ?W + ?f" "k * ?W + ?f < hi" using s(1) f hit by (auto simp: seg_def)
  have "find_from P pos nbits = k * ?W + ?f"
  proof (rule find_from_eqI)
    fix i assume i: "pos \<le> i" "i < k * ?W + ?f"
    show "\<not> P i"
    proof (cases "i < lo")
      case False
      define b where "b = i - k * ?W"
      have b: "i = k * ?W + b" "b < ?f" using False s(1) i(2) by (auto simp: b_def seg_def)
      then have "\<not> bit R b" using find_from_miss [of 0 b "bit R" ?W] by simp
      moreover have "bit m b" using False b f(1) seg(2) s(1) by (auto simp: seg_def)
      ultimately show ?thesis using R [of b] b f(1) by simp
    qed (use before i in simp)
  qed (use seg s hit in simp_all)
  then show ?thesis using False by (simp add: XDP2_BITMAP_DO_COMPARE_def find_ffs add.commute)
qed

lemma find_body_keeps:
  assumes ok: "bm_ok bm nw nbits" and oper: "\<And>w. conv (oper w) = compl_if neg (conv w)"
  defines "P \<equiv> \<lambda>i. bm_bit conv bm nw i \<noteq> neg"
  shows "body_keeps pos nbits (\<lambda>p r. r = nbits \<and> (\<forall>i. pos \<le> i \<longrightarrow> i < p \<longrightarrow> \<not> P i)) (\<lambda>r. r = find_from P pos nbits)
    (find_body conv oper bm nw)"
  unfolding body_keeps_def
proof (intro allI impI, elim conjE)
  fix k lo hi and m :: "'w word" and r
  assume a: "pos \<le> lo" "hi \<le> nbits" "seg k lo hi m" "r = nbits" "\<forall>i. pos \<le> i \<longrightarrow> i < lo \<longrightarrow> \<not> P i"
  let ?w = "bm ! nat (word_index nw k)" let ?R = "conv (oper ?w AND conv m)"
  have R: "bit ?R b \<longleftrightarrow> P (k * LENGTH('w) + b) \<and> bit m b" if "b < LENGTH('w)" for b
    using that by (auto simp: P_def bm_bit_word conv_and conv_conv oper compl_if_def bit_simps)
  have "rd_word bm nw k = Ok ?w" using a(2,3) by (intro rd_word_ok [OF ok]) (simp add: seg_def)
  then show "wp (\<lambda>(brk, s'). if brk then s' = find_from P pos nbits else s' = nbits \<and> (\<forall>i. pos \<le> i \<longrightarrow> i < hi \<longrightarrow> \<not> P i))
      (find_body conv oper bm nw k m (k * LENGTH('w)) r)"
    using find_step [OF ok a(3,1,2) _ R] a(4,5) by (simp add: find_body_def)
qed

lemma bitmap_1arg_find_from:
  assumes "bm_ok bm nw nbits" "pos \<le> nbits" "nbits < 2 ^ 32" "\<And>w. conv (oper w) = compl_if neg (conv w)"
  shows "bitmap_1arg_find conv oper bm nw pos nbits nbits = Ok (find_from (\<lambda>i. bm_bit conv bm nw i \<noteq> neg) pos nbits)"
proof -
  have "wp (\<lambda>r. r = find_from (\<lambda>i. bm_bit conv bm nw i \<noteq> neg) pos nbits)
      (bitmap_walk (find_body conv oper bm nw) (need1 LENGTH('w) pos nbits) pos nbits nbits)"
  proof (rule bitmap_walk_wp [OF assms(2,3) _ find_body_keeps [OF assms(1,4)]])
    show "r = find_from (\<lambda>i. bm_bit conv bm nw i \<noteq> neg) pos nbits"
      if "r = nbits \<and> (\<forall>i. pos \<le> i \<longrightarrow> i < nbits \<longrightarrow> \<not> bm_bit conv bm nw i \<noteq> neg)" for r
      using that assms(2) find_from_eqI [of pos nbits nbits "\<lambda>i. bm_bit conv bm nw i \<noteq> neg"] by auto
  qed (use assms(2) need1_min in auto)
  then show ?thesis by (auto simp: wp_iff bitmap_1arg_find_def)
qed

lemmas conv_opers = bitmap_1arg_find_from [of _ _ _ _ "\<lambda>w. w" False] bitmap_1arg_find_from [of _ _ _ _ NOT True]

lemma bitmap_find_ok:
  assumes "bm_ok bm nw nbits" "pos \<le> nbits" "nbits < 2 ^ 32"
  shows "xdp2_bitmap_find conv bm nw pos nbits = Ok (find_from (bm_bit conv bm nw) pos nbits)"
    "xdp2_bitmap_find_zero conv bm nw pos nbits = Ok (find_from (\<lambda>i. \<not> bm_bit conv bm nw i) pos nbits)"
  using assms by (simp_all add: xdp2_bitmap_find_def xdp2_bitmap_find_zero_def bitmap_find_funct_def conv_opers compl_if_def conv_not)

lemma bitmap_find_next_ok:
  assumes "bm_ok bm nw nbits" "pos < nbits" "nbits < 2 ^ 32"
  shows "xdp2_bitmap_find_next conv bm nw pos nbits = Ok (find_from (bm_bit conv bm nw) (pos + 1) nbits)"
    "xdp2_bitmap_find_next_zero conv bm nw pos nbits = Ok (find_from (\<lambda>i. \<not> bm_bit conv bm nw i) (pos + 1) nbits)"
  using assms by (simp_all add: xdp2_bitmap_find_next_def xdp2_bitmap_find_next_zero_def bitmap_find_funct_def conv_opers
      compl_if_def conv_not)

text \<open>Writing the bits of a word that a mask selects.\<close>

lemma masked_write:
  fixes m :: "'w word"
  assumes ok: "bm_ok bm nw n" and s: "seg k lo hi m" "hi \<le> n" and i: "i < n"
  defines "w \<equiv> bm ! nat (word_index nw k)"
  shows "bm_bit conv (bm[nat (word_index nw k) := (r AND conv m) OR (w AND NOT (conv m))]) nw i =
    (if lo \<le> i \<and> i < hi then bit (conv r) (i mod LENGTH('w)) else bm_bit conv bm nw i)"
proof -
  have k: "k * LENGTH('w) < n" using s by (simp add: seg_def)
  have "bit (conv ((r AND conv m) OR (w AND NOT (conv m)))) b = (if bit m b then bit (conv r) b else bit (conv w) b)"
    if "b < LENGTH('w)" for b using that by (auto simp: conv_or conv_and conv_not conv_conv bit_simps)
  moreover have "bm_bit conv bm nw i = bit (conv w) (i mod LENGTH('w))" if "i div LENGTH('w) = k"
    using that by (simp add: bm_bit_def w_def)
  ultimately show ?thesis using seg_bits [OF s(1), of i] by (simp add: bm_bit_upd [OF ok k i])
qed

lemma set_body_keeps:
  assumes ok: "bm_ok bm nw n" and n: "nbits \<le> n"
  shows "body_keeps pos nbits
    (\<lambda>p bm'. length bm' = length bm \<and> (\<forall>i<n. bm_bit conv bm' nw i = (if pos \<le> i \<and> i < p then val else bm_bit conv bm nw i)))
    Q (set_body conv val nw)"
  unfolding body_keeps_def
proof (intro allI impI, elim conjE)
  fix k lo hi and m :: "'w word" and bm'
  assume a: "pos \<le> lo" "hi \<le> nbits" "seg k lo hi m" "length bm' = length bm"
    and J: "\<forall>i<n. bm_bit conv bm' nw i = (if pos \<le> i \<and> i < lo then val else bm_bit conv bm nw i)"
  have ok': "bm_ok bm' nw n" using ok a(4) by (simp add: bm_ok_def)
  have k: "k * LENGTH('w) < n" "hi \<le> n" using a(2,3) n by (auto simp: seg_def)
  let ?w = "bm' ! nat (word_index nw k)"
  let ?v = "(compl_if val 0 AND conv m) OR (?w AND NOT (conv m))"
  have v: "(if val then ?w OR conv m else ?w AND NOT (conv m)) = ?v"
    by (rule bit_word_eqI) (auto simp: compl_if_def bit_simps)
  have "bit (conv (compl_if val 0)) (i mod LENGTH('w)) = val" for i
    by (auto simp: compl_if_def conv_minus_1 conv_0 bit_simps)
  then have "\<forall>i<n. bm_bit conv (bm'[nat (word_index nw k) := ?v]) nw i = (if pos \<le> i \<and> i < hi then val else bm_bit conv bm nw i)"
    using masked_write [OF ok' a(3) k(2)] J a(1) a(3) by (auto simp: seg_def)
  then show "wp (\<lambda>(brk, s'). if brk then Q s' else length s' = length bm \<and>
        (\<forall>i<n. bm_bit conv s' nw i = (if pos \<le> i \<and> i < hi then val else bm_bit conv bm nw i)))
      (set_body conv val nw k m (k * LENGTH('w)) bm')"
    using a(4) by (simp add: set_body_def rd_word_ok [OF ok' k(1)] wr_word_ok [OF ok' k(1)] v)
qed

lemma seg_set: "seg k lo hi m \<Longrightarrow> (\<lambda>b. k * LENGTH('w) + b) ` {b. bit m b \<and> h (k * LENGTH('w) + b)} = {i. lo \<le> i \<and> i < hi \<and> h i}"
  for m :: "'w word"
proof (intro set_eqI iffI)
  fix i assume s: "seg k lo hi m" and "i \<in> (\<lambda>b. k * LENGTH('w) + b) ` {b. bit m b \<and> h (k * LENGTH('w) + b)}"
  then obtain b where b: "i = k * LENGTH('w) + b" "bit m b" "h i" by auto
  moreover have "b < LENGTH('w)" using b(2) by (rule bit_imp_le_length)
  ultimately show "i \<in> {i. lo \<le> i \<and> i < hi \<and> h i}" using seg_bits [OF s, of i] by auto
next
  fix i assume s: "seg k lo hi m" and "i \<in> {i. lo \<le> i \<and> i < hi \<and> h i}"
  then have "i div LENGTH('w) = k" "bit m (i mod LENGTH('w))" "h i" using seg_bits [OF s, of i] by auto
  then show "i \<in> (\<lambda>b. k * LENGTH('w) + b) ` {b. bit m b \<and> h (k * LENGTH('w) + b)}"
    by (intro image_eqI [of _ _ "i mod LENGTH('w)"]) auto
qed

lemma handle_test_spec:
  fixes r m :: "'w word"
  assumes s: "seg k lo hi m" "pos \<le> lo" and g: "\<And>b. bit m b \<Longrightarrow> bit (conv r) b = g (k * LENGTH('w) + b)"
  shows "XDP2_BITMAP_HANDLE_TEST test (test_spec test g pos lo) (r AND conv m) (conv m) = test_spec test g pos hi"
proof -
  have c: "conv (r AND conv m) = conv r AND m" by (simp add: conv_and conv_conv)
  have hi: "lo \<le> hi" using s(1) by (simp add: seg_def)
  have bits: "{b. bit (conv r AND m) b} = {b. bit m b \<and> g (k * LENGTH('w) + b)}" using g by (auto simp: bit_and_iff)
  have "popcount (r AND conv m) = card {b. bit m b \<and> g (k * LENGTH('w) + b)}"
    using conv_popcount [of "r AND conv m"] unfolding c popcount_card bits by simp
  also have "\<dots> = card {i. lo \<le> i \<and> i < hi \<and> g i}"
    unfolding seg_set [OF s(1), of g, symmetric] by (rule card_image [symmetric]) (simp add: inj_on_def)
  finally have w: "popcount (r AND conv m) = card {i. lo \<le> i \<and> i < hi \<and> g i}" .
  have "card {i. pos \<le> i \<and> i < hi \<and> g i} = card {i. pos \<le> i \<and> i < lo \<and> g i} + card {i. lo \<le> i \<and> i < hi \<and> g i}"
    using s(2) hi by (subst card_Un_disjoint [symmetric]) (auto intro: arg_cong [where f = card])
  moreover have "r AND conv m \<noteq> 0 \<longleftrightarrow> (\<exists>i. lo \<le> i \<and> i < hi \<and> g i)"
  proof -
    have "r AND conv m \<noteq> 0 \<longleftrightarrow> {b. bit (conv r AND m) b} \<noteq> {}"
      unfolding word_nonzero_bits [symmetric] c [symmetric] conv_eq_0 ..
    then show ?thesis unfolding bits using seg_set [OF s(1), of g] by blast
  qed
  moreover have "NOT (r AND conv m) AND conv m \<noteq> 0 \<longleftrightarrow> (\<exists>i. lo \<le> i \<and> i < hi \<and> \<not> g i)"
  proof -
    have "conv (NOT (r AND conv m) AND conv m) = NOT (conv r AND m) AND m" by (simp add: conv_and conv_or conv_not conv_conv)
    then have "NOT (r AND conv m) AND conv m \<noteq> 0 \<longleftrightarrow> NOT (conv r AND m) AND m \<noteq> 0" by (metis conv_eq_0)
    also have "\<dots> \<longleftrightarrow> {b. bit m b \<and> \<not> g (k * LENGTH('w) + b)} \<noteq> {}"
      using g by (auto simp: bit_eq_iff bit_simps dest: bit_imp_le_length)
    finally show ?thesis using seg_set [OF s(1), of "\<lambda>i. \<not> g i"] by blast
  qed
  ultimately show ?thesis using w s(2) hi
    by (cases test) (auto simp: XDP2_BITMAP_HANDLE_TEST_def test_spec_def xdp2_bitmap_word_weight_def not_less intro: less_le_trans le_trans)
qed

lemma test_ok:
  assumes "bm_ok bm nw nbits" "pos \<le> nbits" "nbits < 2 ^ 32"
  shows "xdp2_bitmap_test conv bm nw pos nbits test = Ok (test_spec test (bm_bit conv bm nw) pos nbits)"
proof -
  have keeps: "body_keeps pos nbits (\<lambda>p r. r = test_spec test (bm_bit conv bm nw) pos p) (\<lambda>r. r = test_spec test (bm_bit conv bm nw) pos nbits)
      (test_body conv test bm nw)"
    unfolding body_keeps_def
  proof (intro allI impI)
    fix k lo hi and m :: "'w word" and r
    assume a: "pos \<le> lo" "hi \<le> nbits" "seg k lo hi m" "r = test_spec test (bm_bit conv bm nw) pos lo"
    have k: "k * LENGTH('w) < nbits" using a(2,3) by (simp add: seg_def)
    show "wp (\<lambda>(brk, s'). if brk then s' = test_spec test (bm_bit conv bm nw) pos nbits
          else s' = test_spec test (bm_bit conv bm nw) pos hi) (test_body conv test bm nw k m (k * LENGTH('w)) r)"
      using handle_test_spec [OF a(3,1), of "bm ! nat (word_index nw k)" "bm_bit conv bm nw" test] a(4)
      by (simp add: test_body_def rd_word_ok [OF assms(1) k] bm_bit_word bit_imp_le_length)
  qed
  have "wp (\<lambda>r. r = test_spec test (bm_bit conv bm nw) pos nbits)
      (bitmap_walk (test_body conv test bm nw) (need1 LENGTH('w) pos nbits) pos nbits 0)"
    by (rule bitmap_walk_wp [OF assms(2,3) _ keeps]) (use need1_min [OF assms(2)] in auto)
  then show ?thesis by (auto simp: wp_iff xdp2_bitmap_test_def)
qed

text \<open>An operation that writes \<open>g i\<close> to each bit of the range.\<close>

definition combined :: "'w word list \<Rightarrow> nat \<Rightarrow> nat \<Rightarrow> nat \<Rightarrow> (nat \<Rightarrow> bool) \<Rightarrow> bitmap_test \<Rightarrow> nat \<Rightarrow> 'w word list \<times> nat \<Rightarrow> bool" where
  "combined dest nw n pos g test p s \<longleftrightarrow>
     (let (dest', ret) = s
      in length dest' = length dest \<and> ret = test_spec test g pos p \<and>
         (\<forall>i<n. bm_bit conv dest' nw i = (if pos \<le> i \<and> i < p then g i else bm_bit conv dest nw i)))"

lemma combined_step:
  assumes ok: "bm_ok dest nw n" and a: "pos \<le> lo" "hi \<le> n" "seg k lo hi m"
    and J: "combined dest nw n pos g test lo (dest', ret)"
    and g: "\<And>b. bit m b \<Longrightarrow> bit (conv r) b = g (k * LENGTH('w) + b)"
  defines "d \<equiv> dest' ! nat (word_index nw k)"
  shows "rd_word dest' nw k = Ok d \<and> (\<exists>dest''. wr_word dest' nw k ((r AND conv m) OR (d AND NOT (conv m))) = Ok dest'' \<and>
    combined dest nw n pos g test hi (dest'', XDP2_BITMAP_HANDLE_TEST test ret (r AND conv m) (conv m)))"
proof -
  have ok': "bm_ok dest' nw n" using ok J by (simp add: bm_ok_def combined_def)
  have k: "k * LENGTH('w) < n" using a(2,3) by (simp add: seg_def)
  let ?d = "dest'[nat (word_index nw k) := (r AND conv m) OR (d AND NOT (conv m))]"
  have "bm_bit conv ?d nw i = (if pos \<le> i \<and> i < hi then g i else bm_bit conv dest nw i)" if i: "i < n" for i
  proof (cases "lo \<le> i \<and> i < hi")
    case True
    then have "i div LENGTH('w) = k" "bit m (i mod LENGTH('w))" using seg_bits [OF a(3), of i] by auto
    then have "bit (conv r) (i mod LENGTH('w)) = g i" using g [of "i mod LENGTH('w)"] by auto
    then show ?thesis using masked_write [OF ok' a(3,2) i, of r] True a(1) by (simp add: d_def)
  next
    case False
    then show ?thesis using masked_write [OF ok' a(3,2) i, of r] J a(1,3) i by (auto simp: d_def combined_def seg_def)
  qed
  moreover have "XDP2_BITMAP_HANDLE_TEST test ret (r AND conv m) (conv m) = test_spec test g pos hi"
    using handle_test_spec [OF a(3,1), where g = g and r = r and test = test] g J by (simp add: combined_def)
  ultimately show ?thesis using J
    by (simp add: rd_word_ok [OF ok' k] wr_word_ok [OF ok' k] d_def combined_def)
qed

lemma set_range_ok:
  assumes "bm_ok bm nw n" "pos \<le> nbits" "nbits \<le> n" "nbits < 2 ^ 32"
  shows "wp (\<lambda>bm'. length bm' = length bm \<and>
      (\<forall>i<n. bm_bit conv bm' nw i = (if pos \<le> i \<and> i < nbits then val else bm_bit conv bm nw i)))
    (bitmap_walk (set_body conv val nw) (need1 LENGTH('w) pos nbits) pos nbits bm)"
  by (rule bitmap_walk_wp [OF assms(2,4) _ set_body_keeps [OF assms(1,3)]]) (use need1_min [OF assms(2)] in auto)

definition src_bit :: "bool \<Rightarrow> 'w word list \<Rightarrow> nat \<Rightarrow> nat \<Rightarrow> bool" where
  "src_bit word_src src nw i = (if word_src then bit (conv (hd src)) (i mod LENGTH('w)) else bm_bit conv src nw i)"

lemma src_word_ok:
  assumes "if word_src then src \<noteq> [] else bm_ok src nw n" "k * LENGTH('w) < n"
  shows "\<exists>x. src_word word_src src nw k = Ok x \<and> (\<forall>b<LENGTH('w). bit (conv x) b = src_bit word_src src nw (k * LENGTH('w) + b))"
proof (cases word_src)
  case True
  then show ?thesis using assms(1) by (auto simp: src_word_def src_bit_def neq_Nil_conv)
next
  case False
  then show ?thesis using assms rd_word_ok [of src nw n k] by (auto simp: src_word_def src_bit_def bm_bit_word)
qed

definition bitwise :: "('w word \<Rightarrow> 'w word \<Rightarrow> 'w word) \<Rightarrow> (bool \<Rightarrow> bool \<Rightarrow> bool) \<Rightarrow> bool" where
  "bitwise val vb \<longleftrightarrow> (\<forall>x y b. b < LENGTH('w) \<longrightarrow> bit (conv (val x y)) b = vb (bit (conv x) b) (bit (conv y) b))"

lemma body_2arg_keeps:
  assumes ok: "bm_ok dest nw n" "if word_src then src \<noteq> [] else bm_ok src nw n" and n: "nbits \<le> n" and val: "bitwise val vb"
  defines "g \<equiv> \<lambda>i. vb (src_bit word_src src nw i) (bm_bit conv dest nw i)"
  shows "body_keeps pos nbits (combined dest nw n pos g test) Q (body_2arg conv val word_src src test nw)"
  unfolding body_keeps_def
proof (intro allI impI)
  fix k lo hi and m :: "'w word" and s
  assume a: "pos \<le> lo" "hi \<le> nbits" "seg k lo hi m" "combined dest nw n pos g test lo s"
  obtain dest' ret where s: "s = (dest', ret)" by (cases s)
  have k: "k * LENGTH('w) < n" "hi \<le> n" using a(2,3) n by (auto simp: seg_def)
  obtain x where x: "src_word word_src src nw k = Ok x" "\<forall>b<LENGTH('w). bit (conv x) b = src_bit word_src src nw (k * LENGTH('w) + b)"
    using src_word_ok [OF ok(2) k(1)] by blast
  let ?d = "dest' ! nat (word_index nw k)"
  have d: "bit (conv ?d) b = bm_bit conv dest nw (k * LENGTH('w) + b)" if "bit m b" for b
  proof -
    have b: "b < LENGTH('w)" using that by (rule bit_imp_le_length)
    have i: "lo \<le> k * LENGTH('w) + b" "k * LENGTH('w) + b < n" using a(3) k(2) that b by (auto simp: seg_def)
    have "bit (conv ?d) b = bm_bit conv dest' nw (k * LENGTH('w) + b)" using b by (simp add: bm_bit_word)
    then show ?thesis using a(4) i by (simp add: s combined_def)
  qed
  have "bit (conv (val x ?d)) b = g (k * LENGTH('w) + b)" if "bit m b" for b
    using val x(2) d [OF that] bit_imp_le_length [OF that] by (simp add: bitwise_def g_def)
  from combined_step [OF ok(1) a(1) k(2) a(3) a(4) [unfolded s] this]
  show "wp (\<lambda>(brk, s'). if brk then Q s' else combined dest nw n pos g test hi s')
      (body_2arg conv val word_src src test nw k m (k * LENGTH('w)) s)"
    using x(1) by (auto simp: body_2arg_def s Let_def)
qed

lemma body_3arg_keeps:
  assumes ok: "bm_ok dest nw n" "if word_src then src1 \<noteq> [] else bm_ok src1 nw n" "bm_ok src2 nw n"
    and n: "nbits \<le> n" and val: "bitwise val vb"
  defines "g \<equiv> \<lambda>i. vb (src_bit word_src src1 nw i) (bm_bit conv src2 nw i)"
  shows "body_keeps pos nbits (combined dest nw n pos g test) Q (body_3arg conv val word_src src1 src2 test nw)"
  unfolding body_keeps_def
proof (intro allI impI)
  fix k lo hi and m :: "'w word" and s
  assume a: "pos \<le> lo" "hi \<le> nbits" "seg k lo hi m" "combined dest nw n pos g test lo s"
  obtain dest' ret where s: "s = (dest', ret)" by (cases s)
  have k: "k * LENGTH('w) < n" "hi \<le> n" using a(2,3) n by (auto simp: seg_def)
  obtain x where x: "src_word word_src src1 nw k = Ok x" "\<forall>b<LENGTH('w). bit (conv x) b = src_bit word_src src1 nw (k * LENGTH('w) + b)"
    using src_word_ok [OF ok(2) k(1)] by blast
  let ?y = "src2 ! nat (word_index nw k)"
  have "bit (conv (val x ?y)) b = g (k * LENGTH('w) + b)" if "bit m b" for b
    using val x(2) bit_imp_le_length [OF that] by (simp add: bitwise_def g_def bm_bit_word)
  from combined_step [OF ok(1) a(1) k(2) a(3) a(4) [unfolded s] this]
  show "wp (\<lambda>(brk, s'). if brk then Q s' else combined dest nw n pos g test hi s')
      (body_3arg conv val word_src src1 src2 test nw k m (k * LENGTH('w)) s)"
    using x(1) by (auto simp: body_3arg_def s Let_def rd_word_ok [OF ok(3) k(1)])
qed

lemma value2_bitwise: "bitwise (XDP2_BITMAP_VALUE2 b n s1 s2) (value2_bit b n s1 s2)"
  unfolding bitwise_def XDP2_BITMAP_VALUE2_def value2_bit_def apply_op_def compl_if_def
  by (cases b; cases n; cases s1; cases s2) (simp_all add: conv_not conv_and conv_or conv_xor bit_simps)

lemma bitmap_2arg_ok:
  assumes "bm_ok dest nw n" "if word_src then src \<noteq> [] else bm_ok src nw n" "pos \<le> nbits" "nbits \<le> n" "nbits < 2 ^ 32" "bitwise val vb"
  shows "wp (combined dest nw n pos (\<lambda>i. vb (src_bit word_src src nw i) (bm_bit conv dest nw i)) test nbits)
    (bitmap_2arg conv val word_src dest src nw pos nbits test)"
  unfolding bitmap_2arg_def
  by (rule bitmap_walk_wp [OF assms(3,5) _ body_2arg_keeps [OF assms(1,2,4,6)]]) (auto simp: combined_def need2_min)

lemma bitmap_3arg_ok:
  assumes "bm_ok dest nw n" "if word_src then src1 \<noteq> [] else bm_ok src1 nw n" "bm_ok src2 nw n" "pos \<le> nbits" "nbits \<le> n" "nbits < 2 ^ 32"
  shows "wp (combined dest nw n pos (\<lambda>i. value2_bit b c s1 s2 (src_bit word_src src1 nw i) (bm_bit conv src2 nw i)) test nbits)
    (xdp2_bitmap_3arg conv b c s1 s2 word_src dest src1 src2 nw pos nbits test)"
  unfolding xdp2_bitmap_3arg_def
  by (rule bitmap_walk_wp [OF assms(4,6) _ body_3arg_keeps [OF assms(1-3,5) value2_bitwise]]) (auto simp: combined_def need2_min)

lemma single_bit: "bit (push_bit (i mod LENGTH('w)) 1 :: 'w word) b \<longleftrightarrow> b = i mod LENGTH('w)"
  by (auto simp: bit_simps)

lemma set_val_ok:
  assumes ok: "bm_ok bm nw n" and i: "i < n"
  shows "wp (\<lambda>bm'. length bm' = length bm \<and> (\<forall>j<n. bm_bit conv bm' nw j = (if j = i then val else bm_bit conv bm nw j)))
    (xdp2_bitmap_set_val conv bm nw i val)"
proof -
  let ?W = "LENGTH('w)" and ?m = "push_bit (i mod LENGTH('w)) 1 :: 'w word"
  let ?w = "bm ! nat (word_index nw (i div ?W))"
  have k: "i div ?W * ?W < n" using i by (rule div_word_less)
  have "bit (conv ((?w AND conv (NOT ?m)) OR conv (push_bit (i mod ?W) (of_bool val)))) (j mod ?W) =
      (if j mod ?W = i mod ?W then val else bit (conv ?w) (j mod ?W))" for j
    by (cases val) (auto simp: conv_or conv_and conv_not conv_conv conv_0 bit_simps)
  moreover have "j div ?W = i div ?W \<and> j mod ?W = i mod ?W \<longleftrightarrow> j = i" for j by (metis div_mult_mod_eq)
  moreover have "bm_bit conv bm nw j = bit (conv ?w) (j mod ?W)" if "j div ?W = i div ?W" for j using that by (simp add: bm_bit_def)
  ultimately show ?thesis
    by (auto simp: xdp2_bitmap_set_val_def Let_def rd_word_ok [OF ok k] wr_word_ok [OF ok k] bm_bit_upd [OF ok k])
qed

lemma set_unset_val:
  assumes "bm_ok bm nw n" "i < n"
  shows "xdp2_bitmap_set conv bm nw i = xdp2_bitmap_set_val conv bm nw i True"
    "xdp2_bitmap_unset conv bm nw i = xdp2_bitmap_set_val conv bm nw i False"
proof -
  note k = div_word_less [OF assms(2), of "LENGTH('w)"]
  have "w OR conv m = (w AND conv (NOT m)) OR conv m" for w m
    by (rule bit_word_eqI) (auto simp: conv_not bit_simps)
  then show "xdp2_bitmap_set conv bm nw i = xdp2_bitmap_set_val conv bm nw i True"
    by (simp add: xdp2_bitmap_set_def xdp2_bitmap_set_val_def Let_def rd_word_ok [OF assms(1) k])
  show "xdp2_bitmap_unset conv bm nw i = xdp2_bitmap_set_val conv bm nw i False"
    by (simp add: xdp2_bitmap_unset_def xdp2_bitmap_set_val_def Let_def rd_word_ok [OF assms(1) k] conv_0)
qed

lemma isset_ok: "bm_ok bm nw n \<Longrightarrow> i < n \<Longrightarrow> xdp2_bitmap_isset conv bm nw i = Ok (bm_bit conv bm nw i)"
proof -
  assume ok: "bm_ok bm nw n" and i: "i < n"
  let ?w = "bm ! nat (word_index nw (i div LENGTH('w)))" and ?m = "push_bit (i mod LENGTH('w)) 1 :: 'w word"
  have "?w AND conv ?m \<noteq> 0 \<longleftrightarrow> conv (?w AND conv ?m) \<noteq> 0" by (simp add: conv_eq_0)
  also have "conv (?w AND conv ?m) = conv ?w AND ?m" by (simp add: conv_and conv_conv)
  also have "conv ?w AND ?m \<noteq> 0 \<longleftrightarrow> bit (conv ?w) (i mod LENGTH('w))" by (simp only: bit_iff_and_push_bit_not_eq_0)
  finally show ?thesis
    by (simp add: xdp2_bitmap_isset_def rd_word_ok [OF ok div_word_less [OF i]] bm_bit_def)
qed

end

section \<open>The byte orders\<close>

definition bswap :: "'w::len word \<Rightarrow> 'w word" where
  "bswap v = word_of_le (rev (bytes_le (LENGTH('w) div 8) v))"

definition swap_bit :: "nat \<Rightarrow> nat \<Rightarrow> nat" where
  "swap_bit w i = 8 * (w div 8 - 1 - i div 8) + i mod 8"

lemma swap_bit_lt: "8 dvd w \<Longrightarrow> i < w \<Longrightarrow> swap_bit w i < w"
proof -
  assume "8 dvd w" "i < w"
  then obtain q where q: "w = 8 * q" by blast
  then have "i div 8 < q" using \<open>i < w\<close> by (simp add: less_mult_imp_div_less mult.commute)
  moreover have "i mod 8 < 8" by simp
  ultimately have "8 * (q - 1 - i div 8) + i mod 8 < 8 * q" by linarith
  then show ?thesis by (simp add: swap_bit_def q)
qed

lemma swap_bit_twice: "8 dvd w \<Longrightarrow> i < w \<Longrightarrow> swap_bit w (swap_bit w i) = i"
proof -
  assume "8 dvd w" "i < w"
  then have "i div 8 < w div 8" by (metis dvd_div_mult_self less_mult_imp_div_less)
  moreover have "swap_bit w i div 8 = w div 8 - 1 - i div 8" "swap_bit w i mod 8 = i mod 8"
    by (simp_all add: swap_bit_def)
  ultimately have "swap_bit w (swap_bit w i) = 8 * (i div 8) + i mod 8" by (simp add: swap_bit_def [of w "swap_bit w i"])
  then show ?thesis by simp
qed

lemma bit_bswap: "8 dvd LENGTH('w) \<Longrightarrow> bit (bswap v) i \<longleftrightarrow> i < LENGTH('w) \<and> bit v (swap_bit LENGTH('w) i)" for v :: "'w::len word"
proof -
  assume d: "8 dvd LENGTH('w)"
  have "i < LENGTH('w) \<Longrightarrow> i div 8 < LENGTH('w) div 8" using d by (metis dvd_div_mult_self less_mult_imp_div_less)
  then show ?thesis
    by (auto simp: bswap_def bit_word_of_le rev_nth bytes_le_def bit_ucast_iff bit_drop_bit_eq swap_bit_def)
qed

lemma word_conv_bswap: "8 dvd LENGTH('w) \<Longrightarrow> word_conv (bswap :: 'w::len word \<Rightarrow> 'w word)"
proof
  assume d: "8 dvd LENGTH('w)"
  fix x y :: "'w word"
  show "bswap (bswap x) = x" by (rule bit_word_eqI) (simp add: bit_bswap d swap_bit_lt swap_bit_twice)
  show "bswap (x AND y) = bswap x AND bswap y" by (rule bit_word_eqI) (auto simp: bit_bswap d bit_and_iff)
  show "bswap (NOT x) = NOT (bswap x)" by (rule bit_word_eqI) (auto simp: bit_bswap d bit_not_iff swap_bit_lt)
  have "{b. bit (bswap x) b} = swap_bit LENGTH('w) ` {b. bit x b}"
    by (auto simp: bit_bswap d swap_bit_lt swap_bit_twice bit_imp_le_length image_iff intro: bit_imp_le_length)
       (metis bit_imp_le_length swap_bit_twice d)
  moreover have "inj_on (swap_bit LENGTH('w)) {b. bit x b}"
    by (rule inj_on_inverseI [of _ "swap_bit LENGTH('w)"]) (simp add: swap_bit_twice d bit_imp_le_length)
  ultimately show "popcount (bswap x) = popcount x" by (simp add: popcount_card card_image)
qed

interpretation host: word_conv "\<lambda>w. w"
  by unfold_locales simp_all

interpretation swp16: word_conv "bswap :: u16 \<Rightarrow> u16"
  by (rule word_conv_bswap) simp

interpretation swp32: word_conv "bswap :: u32 \<Rightarrow> u32"
  by (rule word_conv_bswap) simp

interpretation swp64: word_conv "bswap :: u64 \<Rightarrow> u64"
  by (rule word_conv_bswap) simp

lemma test_spec_cong: "(\<And>i. a \<le> i \<Longrightarrow> i < b \<Longrightarrow> g i = h i) \<Longrightarrow> test_spec test g a b = test_spec test h a b"
  by (cases test) (auto simp: test_spec_def intro!: arg_cong [where f = card])

section \<open>Properties\<close>

text \<open>The conversions the functions are made with: none, or the exchange of the bytes.\<close>

definition conv_func :: "('w::len word \<Rightarrow> 'w word) \<Rightarrow> bool" where
  "conv_func conv \<longleftrightarrow> conv = (\<lambda>w. w) \<or> conv = bswap \<and> 8 dvd LENGTH('w)"

lemma conv_func_word_conv: "conv_func conv \<Longrightarrow> word_conv conv"
  using host.word_conv_axioms word_conv_bswap by (auto simp: conv_func_def)

text \<open>C35: The find functions give the position of the first set or zero bit from the start position on,
  and the number of bits when there is none. This holds for every word size, both byte orders and
  both orders of the words.\<close>

theorem bitmap_find_first:
  fixes bm :: "'w::len word list"
  assumes "conv_func conv" "bm_ok bm nw nbits" "pos < nbits" "nbits < 2 ^ 32"
  shows "xdp2_bitmap_find conv bm nw pos nbits = Ok (find_from (bm_bit conv bm nw) pos nbits) \<and>
    xdp2_bitmap_find_zero conv bm nw pos nbits = Ok (find_from (\<lambda>i. \<not> bm_bit conv bm nw i) pos nbits) \<and>
    xdp2_bitmap_find_next conv bm nw pos nbits = Ok (find_from (bm_bit conv bm nw) (pos + 1) nbits) \<and>
    xdp2_bitmap_find_next_zero conv bm nw pos nbits = Ok (find_from (\<lambda>i. \<not> bm_bit conv bm nw i) (pos + 1) nbits)"
proof -
  note c = conv_func_word_conv [OF assms(1)]
  show ?thesis
    using word_conv.bitmap_find_ok [OF c assms(2) less_imp_le [OF assms(3)] assms(4)]
      word_conv.bitmap_find_next_ok [OF c assms(2-4)] by simp
qed

definition sample_bitmap :: "u16 list" where
  "sample_bitmap = [0x0100, 0]"

theorem bitmap_find_first_witness:
  "xdp2_bitmap_find bswap sample_bitmap 2 3 20 = Ok (find_from (bm_bit bswap sample_bitmap 2) 3 20) \<and>
    xdp2_bitmap_find_zero bswap sample_bitmap 2 3 20 = Ok (find_from (\<lambda>i. \<not> bm_bit bswap sample_bitmap 2 i) 3 20) \<and>
    xdp2_bitmap_find_next bswap sample_bitmap 2 3 20 = Ok (find_from (bm_bit bswap sample_bitmap 2) 4 20) \<and>
    xdp2_bitmap_find_next_zero bswap sample_bitmap 2 3 20 = Ok (find_from (\<lambda>i. \<not> bm_bit bswap sample_bitmap 2 i) 4 20)"
  using bitmap_find_first [of bswap sample_bitmap 2 20 3] by (simp add: conv_func_def bm_ok_def sample_bitmap_def)

text \<open>C34: The operations on three bitmaps refine operations on sets of bit numbers. In the range the
  result is the operation on the sources, outside of it the destination keeps its bits, and the
  test value is the number of set bits in the range, or whether there is a set or a zero bit.\<close>

definition bits_of :: "('w::len word \<Rightarrow> 'w word) \<Rightarrow> nat \<Rightarrow> nat \<Rightarrow> 'w word list \<Rightarrow> nat set" where
  "bits_of conv nw n bm = {i. i < n \<and> bm_bit conv bm nw i}"

theorem bitmap_3arg_refines:
  fixes dest :: "'w::len word list"
  assumes "conv_func conv" "bm_ok dest nw n" "bm_ok src1 nw n" "bm_ok src2 nw n" "pos \<le> nbits" "nbits \<le> n" "nbits < 2 ^ 32"
  shows "\<exists>dest' ret. xdp2_bitmap_3arg conv b c s1 s2 False dest src1 src2 nw pos nbits test = Ok (dest', ret) \<and>
    bits_of conv nw n dest' = (bits_of conv nw n dest - {pos..<nbits}) \<union>
      {i \<in> {pos..<nbits}. value2_bit b c s1 s2 (i \<in> bits_of conv nw n src1) (i \<in> bits_of conv nw n src2)} \<and>
    ret = test_spec test (\<lambda>i. i \<in> bits_of conv nw n dest') pos nbits"
proof -
  note c = conv_func_word_conv [OF assms(1)]
  let ?g = "\<lambda>i. value2_bit b c s1 s2 (bm_bit conv src1 nw i) (bm_bit conv src2 nw i)"
  have "\<exists>dest' ret. xdp2_bitmap_3arg conv b c s1 s2 False dest src1 src2 nw pos nbits test = Ok (dest', ret) \<and>
      ret = test_spec test ?g pos nbits \<and>
      (\<forall>i<n. bm_bit conv dest' nw i = (if pos \<le> i \<and> i < nbits then ?g i else bm_bit conv dest nw i))"
    using word_conv.bitmap_3arg_ok [OF c assms(2) _ assms(4-7), of False src1 b c s1 s2 test] assms(3)
    by (auto simp: wp_iff word_conv.combined_def [OF c] word_conv.src_bit_def [OF c])
  then obtain dest' ret where d: "xdp2_bitmap_3arg conv b c s1 s2 False dest src1 src2 nw pos nbits test = Ok (dest', ret)"
    "ret = test_spec test ?g pos nbits"
    "\<And>i. i < n \<Longrightarrow> bm_bit conv dest' nw i = (if pos \<le> i \<and> i < nbits then ?g i else bm_bit conv dest nw i)" by blast
  have "test_spec test ?g pos nbits = test_spec test (\<lambda>i. i \<in> bits_of conv nw n dest') pos nbits"
    by (rule test_spec_cong) (use d(3) assms(6) in \<open>auto simp: bits_of_def\<close>)
  moreover have "bits_of conv nw n dest' = (bits_of conv nw n dest - {pos..<nbits}) \<union>
      {i \<in> {pos..<nbits}. value2_bit b c s1 s2 (i \<in> bits_of conv nw n src1) (i \<in> bits_of conv nw n src2)}"
    using d(3) assms(6) by (auto simp: bits_of_def split: if_splits)
  ultimately show ?thesis using d(1,2) by blast
qed

theorem bitmap_3arg_refines_witness:
  "\<exists>dest' ret. xdp2_bitmap_3arg (\<lambda>w. w) Op_And False False True False [0xFF :: u8, 0] [0x0F, 0xFF] [0x05, 0xF0] 0 2 12 TEST_WEIGHT = Ok (dest', ret) \<and>
    bits_of (\<lambda>w. w) 0 16 dest' = (bits_of (\<lambda>w. w) 0 16 [0xFF :: u8, 0] - {2..<12}) \<union>
      {i \<in> {2..<12}. value2_bit Op_And False False True (i \<in> bits_of (\<lambda>w. w) 0 16 [0x0F :: u8, 0xFF]) (i \<in> bits_of (\<lambda>w. w) 0 16 [0x05 :: u8, 0xF0])} \<and>
    ret = test_spec TEST_WEIGHT (\<lambda>i. i \<in> bits_of (\<lambda>w. w) 0 16 dest') 2 12"
  by (rule bitmap_3arg_refines) (simp_all add: conv_func_def bm_ok_def)

text \<open>The comparison of a word with a bitmap passes the word in the place of a bitmap and the bitmap
  in the place of the word, so a comparison behind the first word reads past the word.\<close>

theorem bitmap_wsrc_cmp_overreads:
  "xdp2_bitmap_wsrc_cmp (\<lambda>w. w) (x :: u64) [a, b] 0 64 128 = Err OutOfBounds"
proof -
  have "rd_word [x] 0 1 = Err OutOfBounds" by (simp add: rd_word_def word_index_def)
  then show ?thesis
    by (simp add: xdp2_bitmap_wsrc_cmp_def xdp2_bitmap_cmp_def bitmap_walk_def walk_rest_def sub_u32_def cmp_body_def src_word_def)
qed

end
