(* ===== verification/Timer.thy ===== *)
theory Timer
  imports Bitmap
begin

text \<open>
  The timer wheel, \<open>src/lib/xdp2/timer.c\<close> and \<open>src/include/xdp2/timer.h\<close>.

  A timer is a number, the address of its \<open>struct xdp2_timer\<close>; the wheel holds the structures by
  number. A slot is the list of the timers in its circular queue, first element first. Three
  fields stand for the world around the wheel: the time that \<open>get_current_time\<close> returns, the
  arguments of the calls of \<open>set_next_timer_pop\<close>, and the timers whose callback was called. The
  mutex is not modelled: each function runs as a whole, except that a callback, which runs without
  the mutex, may change the wheel. The strings for debugging and the output for the command line are
  left out.
\<close>

section \<open>Sequence numbers\<close>

definition xdp2_seqno_ul_lt :: "u64 \<Rightarrow> u64 \<Rightarrow> bool" where
  "xdp2_seqno_ul_lt x y \<longleftrightarrow> x - y > push_bit 63 1"

definition xdp2_seqno_ul_gte :: "u64 \<Rightarrow> u64 \<Rightarrow> bool" where
  "xdp2_seqno_ul_gte x y \<longleftrightarrow> \<not> xdp2_seqno_ul_lt x y"

definition xdp2_seqno_ul_gt :: "u64 \<Rightarrow> u64 \<Rightarrow> bool" where
  "xdp2_seqno_ul_gt x y \<longleftrightarrow> y - x > push_bit 63 1"

definition xdp2_seqno_ul_lte :: "u64 \<Rightarrow> u64 \<Rightarrow> bool" where
  "xdp2_seqno_ul_lte x y \<longleftrightarrow> \<not> xdp2_seqno_ul_gt x y"

section \<open>Timers and wheels\<close>

record xdp2_timer =
  timer_set :: bool
  timer_gen :: u64
  timer_index :: nat

record xdp2_timer_wheel_stats =
  add_timers :: u64
  add_already_running :: u64
  remove_timers :: u64
  change_timers :: u64
  timer_expires :: u64
  run_timer_wheel :: u64
  slot_retries :: u64
  timer_thread_signaled :: u64
  run_timer_wheel_retries :: u64
  spurious_run_timer_wheel :: u64
  remove_wheel_running :: u64
  timer_wheel_same_gen :: u64
  timer_wheel_next_gen :: u64
  timer_wheel_skip_gens :: u64

record xdp2_timer_wheel =
  num_slots :: nat
  slot_bitmap :: "u64 list"
  next_expire_time :: u64
  last_runtime :: u64
  timer_count :: int
  running :: bool
  run_again :: bool
  stats :: xdp2_timer_wheel_stats
  time_units :: nat
  time_div :: nat
  slots :: "nat list list"
  timers :: "nat \<Rightarrow> xdp2_timer"
  now :: u64
  pops :: "u64 list"
  called :: "nat list"

type_synonym wheel = xdp2_timer_wheel

definition XDP2_ASSERT :: "bool \<Rightarrow> 'a res \<Rightarrow> 'a res" where
  "XDP2_ASSERT c k = (if c then k else Err AssertFailed)"

definition set_next_timer_pop :: "wheel \<Rightarrow> wheel" where
  "set_next_timer_pop w = w\<lparr>pops := pops w @ [next_expire_time w]\<rparr>"

text \<open>\<open>CIRCLEQ_REMOVE\<close> and \<open>CIRCLEQ_INSERT_HEAD\<close> on the queue of a slot.\<close>

definition slot_remove :: "wheel \<Rightarrow> nat \<Rightarrow> nat \<Rightarrow> wheel res" where
  "slot_remove w i t =
     (if i < length (slots w) \<and> t \<in> set (slots w ! i)
      then Ok (w\<lparr>slots := (slots w)[i := remove1 t (slots w ! i)]\<rparr>) else Err OutOfBounds)"

definition slot_insert_head :: "wheel \<Rightarrow> nat \<Rightarrow> nat \<Rightarrow> wheel res" where
  "slot_insert_head w i t =
     (if i < length (slots w) then Ok (w\<lparr>slots := (slots w)[i := t # slots w ! i]\<rparr>) else Err OutOfBounds)"

definition unset_if_empty :: "wheel \<Rightarrow> nat \<Rightarrow> wheel res" where
  "unset_if_empty w i =
     (if slots w ! i = []
      then map_res (\<lambda>bm. w\<lparr>slot_bitmap := bm\<rparr>) (xdp2_bitmap_unset (\<lambda>x. x) (slot_bitmap w) 0 i) else Ok w)"

definition clear_timer :: "wheel \<Rightarrow> nat \<Rightarrow> wheel" where
  "clear_timer w t =
     w\<lparr>timers := (timers w)(t := (timers w t)\<lparr>timer_set := False\<rparr>), timer_count := timer_count w - 1\<rparr>"

section \<open>Adding and removing timers\<close>

definition timer_remove_locked :: "wheel \<Rightarrow> nat \<Rightarrow> wheel res" where
  "timer_remove_locked w t =
     (let index = timer_index (timers w t)
      in XDP2_ASSERT (timer_set (timers w t))
        (bind_res (slot_remove w index t) (\<lambda>w.
         bind_res (unset_if_empty w index) (\<lambda>w. Ok (clear_timer w t)))))"

definition xdp2_timer_remove :: "wheel \<Rightarrow> nat \<Rightarrow> (bool \<times> wheel) res" where
  "xdp2_timer_remove w t =
     (let ret = running w;
          w = (if ret then w\<lparr>stats := (stats w)\<lparr>remove_wheel_running := remove_wheel_running (stats w) + 1\<rparr>\<rparr> else w)
      in if \<not> timer_set (timers w t) then Ok (ret, w)
         else
           bind_res (timer_remove_locked w t) (\<lambda>w.
           Ok (ret, w\<lparr>stats := (stats w)\<lparr>remove_timers := remove_timers (stats w) + 1\<rparr>\<rparr>)))"

text \<open>The setting of the pop timer for a new timer.\<close>

definition add_pop :: "wheel \<Rightarrow> u64 \<Rightarrow> u64 \<Rightarrow> wheel res" where
  "add_pop w current_time expire_time =
     (if xdp2_seqno_ul_lt expire_time (next_expire_time w) \<or> next_expire_time w = last_runtime w then
        let w = (if next_expire_time w = last_runtime w then w\<lparr>last_runtime := current_time\<rparr> else w);
            w = w\<lparr>next_expire_time := expire_time\<rparr>
        in XDP2_ASSERT (xdp2_seqno_ul_gt (next_expire_time w) (last_runtime w)) (Ok (set_next_timer_pop w))
      else Ok w)"

definition add_setup :: "wheel \<Rightarrow> nat \<Rightarrow> u64 \<Rightarrow> wheel res" where
  "add_setup w t expire_time =
     (let g = expire_time div of_nat (num_slots w);
          i = unat (expire_time mod of_nat (num_slots w));
          w = w\<lparr>timers := (timers w)(t := (timers w t)\<lparr>timer_gen := g, timer_index := i\<rparr>)\<rparr>
      in bind_res (slot_insert_head w i t) (\<lambda>w.
         bind_res (xdp2_bitmap_set (\<lambda>x. x) (slot_bitmap w) 0 i) (\<lambda>bm.
         Ok (w\<lparr>slot_bitmap := bm, timers := (timers w)(t := (timers w t)\<lparr>timer_set := True\<rparr>),
               timer_count := timer_count w + 1\<rparr>))))"

definition xdp2_timer_add0 :: "wheel \<Rightarrow> nat \<Rightarrow> u32 \<Rightarrow> bool \<Rightarrow> wheel res" where
  "xdp2_timer_add0 w t delay not_running =
     (let delay = (if delay \<noteq> 0 then delay else 1);
          current_time = now w;
          expire_time = current_time + ucast delay
      in XDP2_ASSERT (xdp2_seqno_ul_gt expire_time current_time)
        (if timer_set (timers w t) \<and> not_running
         then Ok (w\<lparr>stats := (stats w)\<lparr>add_already_running := add_already_running (stats w) + 1\<rparr>\<rparr>)
         else
           bind_res
             (if timer_set (timers w t)
              then timer_remove_locked (w\<lparr>stats := (stats w)\<lparr>change_timers := change_timers (stats w) + 1\<rparr>\<rparr>) t
              else Ok w) (\<lambda>w.
           bind_res (add_setup w t expire_time) (\<lambda>w.
           bind_res (add_pop w current_time expire_time) (\<lambda>w.
           Ok (w\<lparr>stats := (stats w)\<lparr>add_timers := add_timers (stats w) + 1\<rparr>\<rparr>))))))"

definition xdp2_timer_add :: "wheel \<Rightarrow> nat \<Rightarrow> u32 \<Rightarrow> wheel res" where
  "xdp2_timer_add w t delay = xdp2_timer_add0 w t delay False"

definition xdp2_timer_add_not_running :: "wheel \<Rightarrow> nat \<Rightarrow> u32 \<Rightarrow> wheel res" where
  "xdp2_timer_add_not_running w t delay = xdp2_timer_add0 w t delay True"

section \<open>Running the wheel\<close>

text \<open>A callback gets the timer it was set for and the wheel, without the mutex.\<close>

type_synonym callback = "nat \<Rightarrow> wheel \<Rightarrow> wheel res"

primrec call_all :: "callback \<Rightarrow> nat list \<Rightarrow> wheel \<Rightarrow> wheel res" where
  "call_all cb [] w = Ok w"
| "call_all cb (t # ts) w = bind_res (cb t (w\<lparr>called := called w @ [t]\<rparr>)) (call_all cb ts)"

text \<open>One pass over the queue of a slot, up to a full batch of eight callbacks. It takes the rest of the
  queue, which only this pass changes, and gives whether the batch is full, the batch and the
  number of timers it took. At the end of the queue the macro of the source also loads the next pointer
  of the head, as if the head were a timer; the value is not used and the load is not modelled.\<close>

primrec scan_slot ::
    "nat \<Rightarrow> u64 \<Rightarrow> u64 \<Rightarrow> nat list \<Rightarrow> wheel \<Rightarrow> nat list \<Rightarrow> nat \<Rightarrow> (bool \<times> wheel \<times> nat list \<times> nat) res" where
  "scan_slot index gen_mx old_gen_mx [] w cbs count = Ok (False, w, cbs, count)"
| "scan_slot index gen_mx old_gen_mx (t # ts) w cbs count =
     (let t_gen_mx = timer_gen (timers w t) * of_nat (num_slots w)
      in XDP2_ASSERT (xdp2_seqno_ul_gte t_gen_mx old_gen_mx)
        (if xdp2_seqno_ul_gt t_gen_mx gen_mx then scan_slot index gen_mx old_gen_mx ts w cbs count
         else
           bind_res (slot_remove w index t) (\<lambda>w.
           let w = clear_timer w t;
               cbs = cbs @ [t]
           in if length cbs \<ge> 8 then Ok (True, w, cbs, count + 1)
              else scan_slot index gen_mx old_gen_mx ts w cbs (count + 1))))"

primrec run_slot :: "nat \<Rightarrow> callback \<Rightarrow> wheel \<Rightarrow> nat \<Rightarrow> u64 \<Rightarrow> u64 \<Rightarrow> (nat \<times> wheel) res" where
  "run_slot 0 cb w index gen old_gen = Err StillRunning"
| "run_slot (Suc k) cb w index gen old_gen =
     bind_res (scan_slot index (gen * of_nat (num_slots w)) (old_gen * of_nat (num_slots w)) (slots w ! index) w [] 0)
       (\<lambda>(full, w, cbs, count).
     if full then
       bind_res (call_all cb cbs w) (\<lambda>w.
       run_slot k cb (w\<lparr>stats := (stats w)\<lparr>slot_retries := slot_retries (stats w) + 1\<rparr>\<rparr>) index gen old_gen)
     else
       bind_res (unset_if_empty w index) (\<lambda>w.
       bind_res (call_all cb cbs w) (\<lambda>w. Ok (count, w))))"

text \<open>\<open>xdp2_bitmap_foreach_bit (slot_bitmap, index, limit) count += run_slot (...)\<close>\<close>

primrec slots_from ::
    "nat \<Rightarrow> callback \<Rightarrow> u64 \<Rightarrow> u64 \<Rightarrow> nat \<Rightarrow> nat \<Rightarrow> wheel \<Rightarrow> nat \<Rightarrow> (nat \<times> wheel) res" where
  "slots_from 0 cb gen old_gen limit pos w count = Err StillRunning"
| "slots_from (Suc k) cb gen old_gen limit pos w count =
     (if pos < limit then
        bind_res (run_slot k cb w pos gen old_gen) (\<lambda>(c, w).
        bind_res (xdp2_bitmap_find_next (\<lambda>x. x) (slot_bitmap w) 0 pos limit) (\<lambda>pos.
        slots_from k cb gen old_gen limit pos w (count + c)))
      else Ok (count, w))"

definition run_slots :: "nat \<Rightarrow> callback \<Rightarrow> u64 \<Rightarrow> u64 \<Rightarrow> nat \<Rightarrow> nat \<Rightarrow> wheel \<Rightarrow> nat \<Rightarrow> (nat \<times> wheel) res" where
  "run_slots k cb gen old_gen pos limit w count =
     bind_res (xdp2_bitmap_find (\<lambda>x. x) (slot_bitmap w) 0 pos limit) (\<lambda>pos.
     slots_from k cb gen old_gen limit pos w count)"

text \<open>The sweep of the slots up to the current time.\<close>

definition run_old_gens :: "nat \<Rightarrow> callback \<Rightarrow> u64 \<Rightarrow> u64 \<Rightarrow> wheel \<Rightarrow> (nat \<times> nat \<times> wheel) res" where
  "run_old_gens k cb old_gen new_gen w =
     (let index = unat (last_runtime w mod of_nat (num_slots w))
      in if old_gen = new_gen
         then Ok (index, 0, w\<lparr>stats := (stats w)\<lparr>timer_wheel_same_gen := timer_wheel_same_gen (stats w) + 1\<rparr>\<rparr>)
         else if old_gen + 1 = new_gen
         then
           bind_res (run_slots k cb (new_gen - 1) old_gen index (num_slots w) w 0) (\<lambda>(count, w).
           Ok (0, count, w\<lparr>stats := (stats w)\<lparr>timer_wheel_next_gen := timer_wheel_next_gen (stats w) + 1\<rparr>\<rparr>))
         else
           bind_res (run_slots k cb (new_gen - 1) old_gen 0 (num_slots w) w 0) (\<lambda>(count, w).
           Ok (0, count, w\<lparr>stats := (stats w)\<lparr>timer_wheel_skip_gens := timer_wheel_skip_gens (stats w) + 1\<rparr>\<rparr>)))"

text \<open>The search for the next timeout.\<close>

definition find_next_pop :: "u64 \<Rightarrow> nat \<Rightarrow> wheel \<Rightarrow> wheel res" where
  "find_next_pop new_gen last_index w =
     bind_res (xdp2_bitmap_find (\<lambda>x. x) (slot_bitmap w) 0 last_index (num_slots w)) (\<lambda>index.
     if index < num_slots w
     then Ok (set_next_timer_pop (w\<lparr>next_expire_time := new_gen * of_nat (num_slots w) + of_nat index\<rparr>))
     else
       bind_res (xdp2_bitmap_find (\<lambda>x. x) (slot_bitmap w) 0 0 last_index) (\<lambda>index.
       if index < last_index
       then Ok (set_next_timer_pop (w\<lparr>next_expire_time := (new_gen + 1) * of_nat (num_slots w) + of_nat index\<rparr>))
       else Ok w))"

definition run_once :: "nat \<Rightarrow> callback \<Rightarrow> wheel \<Rightarrow> wheel res" where
  "run_once k cb w =
     (let current_time = now w;
          w = w\<lparr>running := True, stats := (stats w)\<lparr>run_timer_wheel := run_timer_wheel (stats w) + 1\<rparr>\<rparr>;
          old_gen = last_runtime w div of_nat (num_slots w);
          new_gen = (current_time + 1) div of_nat (num_slots w);
          last_index = unat ((current_time + 1) mod of_nat (num_slots w))
      in XDP2_ASSERT (xdp2_seqno_ul_lte (last_runtime w) current_time)
        (bind_res (run_old_gens k cb old_gen new_gen w) (\<lambda>(index, count, w).
         bind_res (run_slots k cb new_gen old_gen index last_index w count) (\<lambda>(count, w).
         bind_res (find_next_pop new_gen last_index
           (w\<lparr>last_runtime := current_time,
              stats := (stats w)\<lparr>timer_expires := timer_expires (stats w) + of_nat count\<rparr>\<rparr>)) (\<lambda>w.
         Ok (if count = 0
             then w\<lparr>stats := (stats w)\<lparr>spurious_run_timer_wheel := spurious_run_timer_wheel (stats w) + 1\<rparr>\<rparr>
             else w))))))"

primrec xdp2_run_timer_wheel :: "nat \<Rightarrow> nat \<Rightarrow> callback \<Rightarrow> wheel \<Rightarrow> wheel res" where
  "xdp2_run_timer_wheel 0 k cb w = Err StillRunning"
| "xdp2_run_timer_wheel (Suc j) k cb w =
     (if running w then Ok (w\<lparr>run_again := True\<rparr>)
      else
        bind_res (run_once k cb w) (\<lambda>w.
        if run_again w then
          xdp2_run_timer_wheel j k cb
            (w\<lparr>run_again := False, running := False,
               stats := (stats w)\<lparr>run_timer_wheel_retries := run_timer_wheel_retries (stats w) + 1\<rparr>\<rparr>)
        else Ok (w\<lparr>running := False\<rparr>)))"

section \<open>Creating a wheel\<close>

text \<open>\<open>mem\<close> is what \<open>malloc\<close> returns: nothing, or a wheel with arbitrary contents and a bitmap of the
  right size.\<close>

definition xdp2_timer_create_wheel :: "nat \<Rightarrow> nat \<Rightarrow> wheel option \<Rightarrow> wheel option" where
  "xdp2_timer_create_wheel num_slots_order units mem =
     (if units = 0 then None
      else case mem of
        None \<Rightarrow> None
      | Some w \<Rightarrow> Some (w\<lparr>num_slots := 2 ^ num_slots_order, time_units := units, time_div := 1000000000 div units,
                         slots := replicate (2 ^ num_slots_order) []\<rparr>))"

section \<open>Time\<close>

text \<open>A \<open>struct timespec\<close> is the pair of its seconds and nanoseconds.\<close>

definition ts_to_time_units :: "wheel \<Rightarrow> u64 \<times> u64 \<Rightarrow> u64" where
  "ts_to_time_units w ts = fst ts * of_nat (time_div w) + snd ts div of_nat (time_units w)"

definition time_units_to_ts :: "wheel \<Rightarrow> u64 \<Rightarrow> u64 \<times> u64" where
  "time_units_to_ts w tim =
     (tim div of_nat (time_div w), (tim mod of_nat (time_div w)) * of_nat (time_units w))"

definition future_ts :: "wheel \<Rightarrow> u64 \<times> u64 \<Rightarrow> u64 \<Rightarrow> u64 \<times> u64" where
  "future_ts w ts delay =
     (let nsecs = (delay mod of_nat (time_div w)) * of_nat (time_units w) + snd ts
      in (fst ts + (delay div of_nat (time_div w) + nsecs div 1000000000), nsecs mod 1000000000))"

section \<open>The timer thread\<close>

text \<open>A thread that drives a wheel whose time comes from the clock. It starts with \<open>timer_thread_start\<close>
  and then runs \<open>timer_thread_wait\<close> for every return of \<open>pthread_cond_timedwait\<close>: \<open>signaled\<close> when another
  thread changed the pop time, and otherwise when the pop time has come. Then it reads the clock
  twice: \<open>ts\<close> is the reading of \<open>future_ts\<close> and \<open>ts'\<close> that of \<open>get_current_time\<close> at the start of the run.\<close>

definition ten_seconds :: "wheel \<Rightarrow> u64 \<times> u64 \<Rightarrow> u64" where
  "ten_seconds w ts = ts_to_time_units w (future_ts w ts (10 * 1000000000 div of_nat (time_units w)))"

definition timer_thread_start :: "wheel \<Rightarrow> wheel" where
  "timer_thread_start w = w\<lparr>last_runtime := now w, next_expire_time := now w + 1\<rparr>"

definition timer_thread_wait ::
    "nat \<Rightarrow> nat \<Rightarrow> callback \<Rightarrow> bool \<Rightarrow> u64 \<times> u64 \<Rightarrow> u64 \<times> u64 \<Rightarrow> wheel \<Rightarrow> wheel res" where
  "timer_thread_wait j k cb signaled ts ts' w =
     XDP2_ASSERT (xdp2_seqno_ul_gt (next_expire_time w) (last_runtime w))
       (if signaled
        then Ok (w\<lparr>stats := (stats w)\<lparr>timer_thread_signaled := timer_thread_signaled (stats w) + 1\<rparr>\<rparr>)
        else
          let w = w\<lparr>next_expire_time := ten_seconds w ts\<rparr>;
              w = w\<lparr>now := ts_to_time_units w ts'\<rparr>
          in xdp2_run_timer_wheel j k cb w)"

text \<open>\<open>threads_ok\<close> says whether the condition variable and the thread could be made.\<close>

definition xdp2_timer_create_wheel_with_timer_thread ::
    "nat \<Rightarrow> nat \<Rightarrow> u64 \<times> u64 \<Rightarrow> bool \<Rightarrow> wheel option \<Rightarrow> wheel option" where
  "xdp2_timer_create_wheel_with_timer_thread num_slots_order units ts threads_ok mem =
     (case xdp2_timer_create_wheel num_slots_order units mem of
        None \<Rightarrow> None
      | Some w \<Rightarrow> if threads_ok then Some (w\<lparr>next_expire_time := ten_seconds w ts\<rparr>) else None)"

section \<open>The invariant of a wheel\<close>

abbreviation pending :: "wheel \<Rightarrow> nat \<Rightarrow> bool" where
  "pending w t \<equiv> timer_set (timers w t)"

definition expire :: "wheel \<Rightarrow> nat \<Rightarrow> nat" where
  "expire w t = unat (timer_gen (timers w t)) * num_slots w + timer_index (timers w t)"

text \<open>The queues hold the timers that are set, each in the slot of its index.\<close>

definition queue_ok :: "wheel \<Rightarrow> bool" where
  "queue_ok w \<longleftrightarrow>
     0 < num_slots w \<and> num_slots w < 2 ^ 31 \<and> length (slots w) = num_slots w \<and>
     (\<forall>i < num_slots w. distinct (slots w ! i) \<and>
        (\<forall>t. t \<in> set (slots w ! i) \<longleftrightarrow> pending w t \<and> timer_index (timers w t) = i)) \<and>
     (\<forall>t. pending w t \<longrightarrow> timer_index (timers w t) < num_slots w) \<and>
     timer_count w = (\<Sum>i < num_slots w. int (length (slots w ! i)))"

text \<open>A slot that holds a timer has its bit set.\<close>

definition bitmap_covers :: "wheel \<Rightarrow> bool" where
  "bitmap_covers w \<longleftrightarrow>
     bm_ok (slot_bitmap w) 0 (num_slots w) \<and>
     (\<forall>i < num_slots w. slots w ! i \<noteq> [] \<longrightarrow> bm_bit (\<lambda>x. x) (slot_bitmap w) 0 i)"

text \<open>Timers expire after the last run, and a wheel whose pop timer does not run has no timers.\<close>

definition times_ok :: "wheel \<Rightarrow> bool" where
  "times_ok w \<longleftrightarrow>
     unat (now w) < 2 ^ 62 \<and> unat (last_runtime w) \<le> unat (now w) \<and>
     (\<forall>t. pending w t \<longrightarrow> unat (last_runtime w) < expire w t \<and> expire w t < 2 ^ 63) \<and>
     (next_expire_time w = last_runtime w \<longrightarrow> (\<forall>t. \<not> pending w t))"

definition wheel_ok :: "wheel \<Rightarrow> bool" where
  "wheel_ok w \<longleftrightarrow> queue_ok w \<and> bitmap_covers w \<and> times_ok w"

lemma expire_upd [simp]:
  "expire (w\<lparr>stats := a\<rparr>) = expire w" "expire (w\<lparr>called := b\<rparr>) = expire w" "expire (w\<lparr>pops := c\<rparr>) = expire w"
  "expire (w\<lparr>running := d\<rparr>) = expire w" "expire (w\<lparr>run_again := d\<rparr>) = expire w" "expire (w\<lparr>last_runtime := e\<rparr>) = expire w"
  "expire (w\<lparr>next_expire_time := e\<rparr>) = expire w" "expire (w\<lparr>slot_bitmap := f\<rparr>) = expire w" "expire (w\<lparr>slots := g\<rparr>) = expire w"
  "expire (w\<lparr>timer_count := h\<rparr>) = expire w"
  by (simp_all add: expire_def fun_eq_iff)

lemma queue_ok_upd [simp]:
  "queue_ok (w\<lparr>stats := a\<rparr>) = queue_ok w" "queue_ok (w\<lparr>called := b\<rparr>) = queue_ok w" "queue_ok (w\<lparr>pops := c\<rparr>) = queue_ok w"
  "queue_ok (w\<lparr>running := d\<rparr>) = queue_ok w" "queue_ok (w\<lparr>run_again := d\<rparr>) = queue_ok w"
  "queue_ok (w\<lparr>last_runtime := e\<rparr>) = queue_ok w" "queue_ok (w\<lparr>next_expire_time := e\<rparr>) = queue_ok w"
  "queue_ok (w\<lparr>slot_bitmap := f\<rparr>) = queue_ok w"
  by (simp_all add: queue_ok_def)

lemma bitmap_covers_upd [simp]:
  "bitmap_covers (w\<lparr>stats := a\<rparr>) = bitmap_covers w" "bitmap_covers (w\<lparr>called := b\<rparr>) = bitmap_covers w"
  "bitmap_covers (w\<lparr>pops := c\<rparr>) = bitmap_covers w" "bitmap_covers (w\<lparr>running := d\<rparr>) = bitmap_covers w"
  "bitmap_covers (w\<lparr>run_again := d\<rparr>) = bitmap_covers w" "bitmap_covers (w\<lparr>last_runtime := e\<rparr>) = bitmap_covers w"
  "bitmap_covers (w\<lparr>next_expire_time := e\<rparr>) = bitmap_covers w" "bitmap_covers (w\<lparr>timers := g\<rparr>) = bitmap_covers w"
  "bitmap_covers (w\<lparr>timer_count := h\<rparr>) = bitmap_covers w"
  by (simp_all add: bitmap_covers_def)

lemma times_ok_upd [simp]:
  "times_ok (w\<lparr>stats := a\<rparr>) = times_ok w" "times_ok (w\<lparr>called := b\<rparr>) = times_ok w" "times_ok (w\<lparr>pops := c\<rparr>) = times_ok w"
  "times_ok (w\<lparr>running := d\<rparr>) = times_ok w" "times_ok (w\<lparr>run_again := d\<rparr>) = times_ok w"
  "times_ok (w\<lparr>slot_bitmap := f\<rparr>) = times_ok w" "times_ok (w\<lparr>slots := g\<rparr>) = times_ok w"
  "times_ok (w\<lparr>timer_count := h\<rparr>) = times_ok w"
  by (simp_all add: times_ok_def)

lemma wheel_ok_upd [simp]:
  "wheel_ok (w\<lparr>stats := a\<rparr>) = wheel_ok w" "wheel_ok (w\<lparr>called := b\<rparr>) = wheel_ok w" "wheel_ok (w\<lparr>pops := c\<rparr>) = wheel_ok w"
  "wheel_ok (w\<lparr>running := d\<rparr>) = wheel_ok w" "wheel_ok (w\<lparr>run_again := d\<rparr>) = wheel_ok w"
  by (simp_all add: wheel_ok_def)

lemma unset_if_empty_ok:
  assumes "bitmap_covers w" "i < num_slots w"
  shows "\<exists>bm. unset_if_empty w i = Ok (w\<lparr>slot_bitmap := bm\<rparr>) \<and> bitmap_covers (w\<lparr>slot_bitmap := bm\<rparr>)"
proof (cases "slots w ! i = []")
  case True
  have ok: "bm_ok (slot_bitmap w) 0 (num_slots w)" using assms(1) by (simp add: bitmap_covers_def)
  obtain bm where bm: "xdp2_bitmap_unset (\<lambda>x. x) (slot_bitmap w) 0 i = Ok bm" "length bm = length (slot_bitmap w)"
    "\<forall>j<num_slots w. bm_bit (\<lambda>x. x) bm 0 j = (if j = i then False else bm_bit (\<lambda>x. x) (slot_bitmap w) 0 j)"
    using host.set_val_ok [OF ok assms(2), of False] host.set_unset_val(2) [OF ok assms(2)] by (auto simp: wp_iff)
  then have "bitmap_covers (w\<lparr>slot_bitmap := bm\<rparr>)" using assms(1) True by (auto simp: bitmap_covers_def bm_ok_def)
  then show ?thesis using True bm(1) by (auto simp: unset_if_empty_def)
next
  case False
  then show ?thesis using assms(1) by (intro exI [of _ "slot_bitmap w"]) (simp add: unset_if_empty_def)
qed

text \<open>Taking a timer out of its slot.\<close>

definition take_out :: "wheel \<Rightarrow> nat \<Rightarrow> wheel" where
  "take_out w t = clear_timer (w\<lparr>slots := (slots w)[timer_index (timers w t) := remove1 t (slots w ! timer_index (timers w t))]\<rparr>) t"

lemma sum_upd:
  fixes f :: "nat \<Rightarrow> int"
  assumes "i < n" shows "(\<Sum>j<n. if j = i then f j + c else f j) = (\<Sum>j<n. f j) + c"
proof -
  have "(\<Sum>j<n. if j = i then f j + c else f j) = (\<Sum>j<n. f j + (if j = i then c else 0))" by (rule sum.cong) auto
  also have "\<dots> = (\<Sum>j<n. f j) + c" using assms by (simp add: sum.distrib)
  finally show ?thesis .
qed

lemma take_out_ok:
  assumes Q: "queue_ok w" and p: "pending w t"
  shows "queue_ok (take_out w t)"
proof -
  let ?i = "timer_index (timers w t)" and ?w = "take_out w t"
  have i: "?i < num_slots w" and m: "t \<in> set (slots w ! ?i)" and d: "distinct (slots w ! ?i)"
    using Q p by (auto simp: queue_ok_def)
  have sl: "slots ?w ! j = (if j = ?i then remove1 t (slots w ! ?i) else slots w ! j)" if "j < num_slots w" for j
    using that Q by (simp add: take_out_def clear_timer_def queue_ok_def nth_list_update)
  have tm: "pending ?w u \<longleftrightarrow> pending w u \<and> u \<noteq> t" "timer_index (timers ?w u) = timer_index (timers w u)" for u
    by (auto simp: take_out_def clear_timer_def)
  have "(\<Sum>j<num_slots w. int (length (slots ?w ! j))) = (\<Sum>j<num_slots w. if j = ?i then int (length (slots w ! j)) + - 1 else int (length (slots w ! j)))"
    using m length_pos_if_in_set [OF m] by (intro sum.cong) (auto simp: sl length_remove1 of_nat_diff Suc_le_eq)
  also have "\<dots> = timer_count w - 1" using Q i by (subst sum_upd) (auto simp: queue_ok_def)
  finally have count: "timer_count ?w = (\<Sum>j<num_slots w. int (length (slots ?w ! j)))"
    by (simp add: take_out_def clear_timer_def)
  have n: "num_slots ?w = num_slots w" "length (slots ?w) = length (slots w)" by (simp_all add: take_out_def clear_timer_def)
  show ?thesis unfolding queue_ok_def n tm
    using Q d count by (auto simp: queue_ok_def sl set_remove1_eq)
qed

lemma take_out_fields [simp]:
  "num_slots (take_out w t) = num_slots w" "slot_bitmap (take_out w t) = slot_bitmap w"
  "next_expire_time (take_out w t) = next_expire_time w" "last_runtime (take_out w t) = last_runtime w"
  "now (take_out w t) = now w" "running (take_out w t) = running w" "run_again (take_out w t) = run_again w"
  "time_units (take_out w t) = time_units w" "time_div (take_out w t) = time_div w"
  "called (take_out w t) = called w" "pops (take_out w t) = pops w"
  "pending (take_out w t) u \<longleftrightarrow> pending w u \<and> u \<noteq> t" "expire (take_out w t) u = expire w u"
  "timer_gen (timers (take_out w t) u) = timer_gen (timers w u)"
  "timer_index (timers (take_out w t) u) = timer_index (timers w u)"
  by (auto simp: take_out_def clear_timer_def expire_def)

lemma take_out_other [simp]: "u \<noteq> t \<Longrightarrow> timers (take_out w t) u = timers w u"
  by (simp add: take_out_def clear_timer_def)

lemma take_out_slots:
  "slots (take_out w t) = (slots w)[timer_index (timers w t) := remove1 t (slots w ! timer_index (timers w t))]"
  by (simp add: take_out_def clear_timer_def)

lemma take_out_wheel:
  assumes "wheel_ok w" "pending w t"
  shows "wheel_ok (take_out w t)"
proof -
  have q: "queue_ok w" and c: "bitmap_covers w" and o: "times_ok w" using assms(1) by (auto simp: wheel_ok_def)
  have "slots w ! i \<noteq> []" if "slots (take_out w t) ! i \<noteq> []" for i
    using that by (cases "i = timer_index (timers w t) \<and> i < length (slots w)") (auto simp: take_out_slots list_update_beyond)
  then have "bitmap_covers (take_out w t)" using c by (auto simp: bitmap_covers_def)
  moreover have "times_ok (take_out w t)" using o by (simp add: times_ok_def)
  ultimately show ?thesis using take_out_ok [OF q assms(2)] by (simp add: wheel_ok_def)
qed

lemma slot_remove_ok:
  assumes "queue_ok w" "pending w t"
  shows "slot_remove w (timer_index (timers w t)) t =
      Ok (w\<lparr>slots := (slots w)[timer_index (timers w t) := remove1 t (slots w ! timer_index (timers w t))]\<rparr>)"
  using assms by (auto simp: slot_remove_def queue_ok_def)

lemma timer_remove_locked_ok:
  assumes ok: "wheel_ok w" and p: "pending w t"
  shows "\<exists>bm. timer_remove_locked w t = Ok ((take_out w t)\<lparr>slot_bitmap := bm\<rparr>) \<and> wheel_ok ((take_out w t)\<lparr>slot_bitmap := bm\<rparr>)"
proof -
  let ?i = "timer_index (timers w t)"
  let ?w = "w\<lparr>slots := (slots w)[?i := remove1 t (slots w ! ?i)]\<rparr>"
  have q: "queue_ok w" and i: "?i < num_slots w" using ok p by (auto simp: wheel_ok_def queue_ok_def)
  have w: "take_out w t = clear_timer ?w t" by (simp add: take_out_def)
  have c: "bitmap_covers ?w" "queue_ok (take_out w t)" "times_ok (take_out w t)"
    using take_out_wheel [OF assms] by (auto simp: wheel_ok_def w clear_timer_def)
  obtain bm where bm: "unset_if_empty ?w ?i = Ok (?w\<lparr>slot_bitmap := bm\<rparr>)" "bitmap_covers (?w\<lparr>slot_bitmap := bm\<rparr>)"
    using unset_if_empty_ok [OF c(1), of ?i] i by auto
  have e: "clear_timer (?w\<lparr>slot_bitmap := bm\<rparr>) t = (take_out w t)\<lparr>slot_bitmap := bm\<rparr>"
    by (simp add: w clear_timer_def)
  have "bitmap_covers (clear_timer (?w\<lparr>slot_bitmap := bm\<rparr>) t)" using bm(2) by (simp add: clear_timer_def bitmap_covers_def)
  then have "wheel_ok ((take_out w t)\<lparr>slot_bitmap := bm\<rparr>)" using c(2,3) e by (simp add: wheel_ok_def)
  moreover have "timer_remove_locked w t = Ok ((take_out w t)\<lparr>slot_bitmap := bm\<rparr>)"
    using p bm(1) e by (simp add: timer_remove_locked_def XDP2_ASSERT_def slot_remove_ok [OF q p])
  ultimately show ?thesis by blast
qed

section \<open>Sequence numbers before they wrap\<close>

lemma seqno_nat:
  assumes "unat x < 2 ^ 63" "unat y < 2 ^ 63"
  shows "xdp2_seqno_ul_gt x y \<longleftrightarrow> unat y < unat x" "xdp2_seqno_ul_lt x y \<longleftrightarrow> unat x < unat y"
    "xdp2_seqno_ul_gte x y \<longleftrightarrow> unat y \<le> unat x" "xdp2_seqno_ul_lte x y \<longleftrightarrow> unat x \<le> unat y"
proof -
  have "y - x > push_bit 63 (1 :: u64) \<longleftrightarrow> unat y < unat x" if "unat x < 2 ^ 63" "unat y < 2 ^ 63" for x y :: u64
    using that by (auto simp: word_less_nat_alt unat_sub_if')
  then show "xdp2_seqno_ul_gt x y \<longleftrightarrow> unat y < unat x" "xdp2_seqno_ul_lt x y \<longleftrightarrow> unat x < unat y"
    "xdp2_seqno_ul_gte x y \<longleftrightarrow> unat y \<le> unat x" "xdp2_seqno_ul_lte x y \<longleftrightarrow> unat x \<le> unat y"
    using assms by (auto simp: xdp2_seqno_ul_gt_def xdp2_seqno_ul_lt_def xdp2_seqno_ul_gte_def xdp2_seqno_ul_lte_def)
qed

lemma unat_of_slots:
  assumes "queue_ok w" shows "unat (of_nat (num_slots w) :: u64) = num_slots w"
  using assms by (simp add: unat_of_nat queue_ok_def)

lemma unat_mult_slots:
  assumes "queue_ok w" "unat (g :: u64) * num_slots w < 2 ^ 64"
  shows "unat (g * of_nat (num_slots w)) = unat g * num_slots w"
  using assms(2) by (simp add: unat_mult_lem unat_of_slots [OF assms(1)] unat_word_ariths)

section \<open>Adding and removing keep the invariant\<close>

text \<open>The fields that only the running of the wheel changes.\<close>

definition same_run :: "wheel \<Rightarrow> wheel \<Rightarrow> bool" where
  "same_run w w' \<longleftrightarrow> num_slots w' = num_slots w \<and> running w' = running w \<and> run_again w' = run_again w \<and>
     now w' = now w \<and> called w' = called w \<and> time_units w' = time_units w \<and> time_div w' = time_div w"

text \<open>A timer put into a wheel.\<close>

definition put_in :: "wheel \<Rightarrow> nat \<Rightarrow> nat \<Rightarrow> wheel \<Rightarrow> bool" where
  "put_in w t e w' \<longleftrightarrow> same_run w w' \<and> (\<forall>u. pending w' u \<longleftrightarrow> pending w u \<or> u = t) \<and>
     (\<forall>u. expire w' u = (if u = t then e else expire w u)) \<and> (\<forall>u. u \<noteq> t \<longrightarrow> timers w' u = timers w u)"

lemma unat_div_slots:
  assumes "queue_ok w"
  shows "unat (e div of_nat (num_slots w) :: u64) = unat e div num_slots w"
    "unat (e mod of_nat (num_slots w) :: u64) = unat e mod num_slots w"
  by (simp_all add: unat_div unat_mod unat_of_slots [OF assms])

lemma add_setup_queue:
  assumes q: "queue_ok w" and t: "\<not> pending w t" and i: "i < num_slots w"
  shows "queue_ok (w\<lparr>timers := (timers w)(t := (timers w t)\<lparr>timer_gen := g, timer_index := i, timer_set := True\<rparr>),
      slots := (slots w)[i := t # slots w ! i], slot_bitmap := bm, timer_count := timer_count w + 1\<rparr>)" (is "queue_ok ?w")
proof -
  have sl: "slots ?w ! j = (if j = i then t # slots w ! j else slots w ! j)" if "j < num_slots w" for j
    using that q by (simp add: queue_ok_def nth_list_update)
  have "(\<Sum>j<num_slots w. int (length (slots ?w ! j))) = (\<Sum>j<num_slots w. if j = i then int (length (slots w ! j)) + 1 else int (length (slots w ! j)))"
    by (intro sum.cong refl) (simp only: lessThan_iff sl, simp)
  also have "\<dots> = timer_count ?w" using q i by (subst sum_upd) (auto simp: queue_ok_def)
  finally have count: "timer_count ?w = (\<Sum>j<num_slots w. int (length (slots ?w ! j)))" by simp
  have "t \<notin> set (slots w ! j)" if "j < num_slots w" for j using q t that by (auto simp: queue_ok_def)
  moreover have "distinct (slots w ! j)" "u \<in> set (slots w ! j) \<longleftrightarrow> pending w u \<and> timer_index (timers w u) = j"
    if "j < num_slots w" for j u using q that by (auto simp: queue_ok_def)
  ultimately have "distinct (slots ?w ! j) \<and> (\<forall>u. u \<in> set (slots ?w ! j) \<longleftrightarrow> pending ?w u \<and> timer_index (timers ?w u) = j)"
    if "j < num_slots w" for j
    using t i unfolding sl [OF that] by (simp add: that)
  then show ?thesis using q i count by (simp add: queue_ok_def)
qed

lemma add_setup_ok:
  assumes ok: "queue_ok w" "bitmap_covers w" and t: "\<not> pending w t"
  shows "\<exists>w'. add_setup w t e = Ok w' \<and> queue_ok w' \<and> bitmap_covers w' \<and> put_in w t (unat e) w' \<and>
      next_expire_time w' = next_expire_time w \<and> last_runtime w' = last_runtime w \<and> pops w' = pops w"
proof -
  let ?i = "unat e mod num_slots w" and ?g = "e div of_nat (num_slots w)"
  have n: "0 < num_slots w" "length (slots w) = num_slots w" and i: "?i < num_slots w"
    using ok by (auto simp: queue_ok_def)
  have bok: "bm_ok (slot_bitmap w) 0 (num_slots w)" using ok(2) by (simp add: bitmap_covers_def)
  obtain bm where bm: "xdp2_bitmap_set (\<lambda>x. x) (slot_bitmap w) 0 ?i = Ok bm" "length bm = length (slot_bitmap w)"
    "\<forall>j<num_slots w. bm_bit (\<lambda>x. x) bm 0 j = (if j = ?i then True else bm_bit (\<lambda>x. x) (slot_bitmap w) 0 j)"
    using host.set_val_ok [OF bok i, of True] host.set_unset_val(1) [OF bok i] by (auto simp: wp_iff)
  let ?w = "w\<lparr>timers := (timers w)(t := (timers w t)\<lparr>timer_gen := ?g, timer_index := ?i, timer_set := True\<rparr>),
      slots := (slots w)[?i := t # slots w ! ?i], slot_bitmap := bm, timer_count := timer_count w + 1\<rparr>"
  have e: "add_setup w t e = Ok ?w"
    using bm(1) i n by (simp add: add_setup_def Let_def unat_div_slots [OF ok(1)] slot_insert_head_def)
  have "bitmap_covers ?w" using ok(2) bm n by (auto simp: bitmap_covers_def bm_ok_def nth_list_update split: if_splits)
  moreover have "put_in w t (unat e) ?w"
    by (simp add: put_in_def same_run_def expire_def unat_div_slots [OF ok(1)])
  ultimately show ?thesis using e add_setup_queue [OF ok(1) t i] by auto
qed

text \<open>A pop timer that runs is set to the new timer if that expires first.\<close>

definition soon :: "wheel \<Rightarrow> nat \<Rightarrow> wheel \<Rightarrow> bool" where
  "soon w e w' \<longleftrightarrow> (next_expire_time w \<noteq> last_runtime w \<longrightarrow> last_runtime w' = last_runtime w \<and>
     (unat (next_expire_time w) < 2 ^ 63 \<longrightarrow> unat (next_expire_time w') = min (unat (next_expire_time w)) e))"

lemma add_pop_ok:
  assumes ok: "queue_ok w'" "bitmap_covers w'" "times_ok w" and p: "put_in w t (unat e) w'"
    and f: "next_expire_time w' = next_expire_time w" "last_runtime w' = last_runtime w"
    and e: "unat (now w) < unat e" "unat e < 2 ^ 63"
  shows "\<exists>w''. add_pop w' (now w) e = Ok w'' \<and> wheel_ok w'' \<and> put_in w t (unat e) w'' \<and> soon w (unat e) w''"
proof -
  let ?idle = "next_expire_time w = last_runtime w"
  let ?w = "(if ?idle then w'\<lparr>last_runtime := now w\<rparr> else w')"
  have o: "unat (now w) < 2 ^ 62" "unat (last_runtime w) \<le> unat (now w)"
    "\<And>u. pending w u \<Longrightarrow> unat (last_runtime w) < expire w u \<and> expire w u < 2 ^ 63" "?idle \<Longrightarrow> \<not> pending w u" for u
    using ok(3) by (auto simp: times_ok_def)
  have pw: "num_slots w' = num_slots w" "now w' = now w" "pending w' u \<longleftrightarrow> pending w u \<or> u = t"
    "expire w' u = (if u = t then unat e else expire w u)" for u using p by (auto simp: put_in_def same_run_def)
  have l: "last_runtime ?w = (if ?idle then now w else last_runtime w)" using f by simp
  have g: "xdp2_seqno_ul_gt e (last_runtime ?w)" unfolding l using e o(1,2) by (subst seqno_nat) auto
  have ne: "e \<noteq> last_runtime ?w" unfolding l using e o(2) by auto
  have lt: "xdp2_seqno_ul_lt e (next_expire_time w) \<longleftrightarrow> unat e < unat (next_expire_time w)" if "unat (next_expire_time w) < 2 ^ 63"
    using e(2) that by (simp add: seqno_nat)
  show ?thesis
  proof (cases "xdp2_seqno_ul_lt e (next_expire_time w) \<or> ?idle")
    case True
    have "times_ok (?w\<lparr>next_expire_time := e\<rparr>)"
      using o e ne l by (auto simp: times_ok_def pw)
    then have "wheel_ok (?w\<lparr>next_expire_time := e\<rparr>)" using ok by (simp add: wheel_ok_def)
    moreover have "add_pop w' (now w) e = Ok (set_next_timer_pop (?w\<lparr>next_expire_time := e\<rparr>))"
      using True g by (simp add: add_pop_def f XDP2_ASSERT_def Let_def)
    moreover have "put_in w t (unat e) (set_next_timer_pop (?w\<lparr>next_expire_time := e\<rparr>))"
      using p by (simp add: set_next_timer_pop_def put_in_def same_run_def)
    moreover have "soon w (unat e) (set_next_timer_pop (?w\<lparr>next_expire_time := e\<rparr>))"
      using True lt l by (auto simp: set_next_timer_pop_def soon_def)
    ultimately show ?thesis by (simp add: set_next_timer_pop_def)
  next
    case False
    then have "times_ok w'" using o e by (auto simp: times_ok_def f pw)
    moreover have "soon w (unat e) w'" using False lt by (auto simp: soon_def f)
    ultimately show ?thesis using False ok p by (auto simp: add_pop_def f wheel_ok_def)
  qed
qed

lemma put_in_take_out:
  assumes "put_in (take_out w t\<lparr>slot_bitmap := bm\<rparr>) t e w'" "pending w t"
  shows "put_in w t e w'"
  using assms by (auto simp: put_in_def same_run_def)

lemma clear_for_add:
  assumes ok: "wheel_ok w"
  shows "\<exists>w1. (if pending w t then timer_remove_locked (w\<lparr>stats := s\<rparr>) t else Ok w) = Ok w1 \<and>
      wheel_ok w1 \<and> \<not> pending w1 t \<and> now w1 = now w \<and> (\<forall>e w'. put_in w1 t e w' \<and> soon w1 e w' \<longrightarrow> put_in w t e w' \<and> soon w e w')"
proof (cases "pending w t")
  case True
  define w0 where "w0 = w\<lparr>stats := s\<rparr>"
  have w0: "wheel_ok w0" "pending w0 t" "now w0 = now w" "put_in w0 t e w' \<Longrightarrow> put_in w t e w'"
    "soon (take_out w0 t\<lparr>slot_bitmap := bm\<rparr>) e w' = soon w e w'" for bm e w'
    using ok True by (simp_all add: w0_def put_in_def same_run_def soon_def)
  obtain bm where "timer_remove_locked w0 t = Ok (take_out w0 t\<lparr>slot_bitmap := bm\<rparr>)" "wheel_ok (take_out w0 t\<lparr>slot_bitmap := bm\<rparr>)"
    using timer_remove_locked_ok [OF w0(1,2)] by blast
  then show ?thesis using True w0 put_in_take_out [OF _ w0(2)]
    by (intro exI [of _ "take_out w0 t\<lparr>slot_bitmap := bm\<rparr>"]) (auto simp: w0_def [symmetric])
qed (use ok in auto)

lemma timer_add_ok:
  fixes delay :: u32
  assumes ok: "wheel_ok w"
  defines "d \<equiv> (if delay = 0 then 1 else unat delay)"
  shows "\<exists>w'. xdp2_timer_add0 w t delay not_running = Ok w' \<and> wheel_ok w' \<and>
    (if pending w t \<and> not_running
     then same_run w w' \<and> timers w' = timers w \<and> last_runtime w' = last_runtime w \<and> next_expire_time w' = next_expire_time w
     else put_in w t (unat (now w) + d) w' \<and> soon w (unat (now w) + d) w')"
proof -
  let ?delay = "if delay \<noteq> 0 then delay else 1" and ?s = "\<lambda>w f. w\<lparr>stats := f (stats w)\<rparr>"
  define e :: u64 where "e = now w + ucast ?delay"
  have q: "queue_ok w" "bitmap_covers w" "times_ok w" "unat (now w) < 2 ^ 62" using ok by (auto simp: wheel_ok_def times_ok_def)
  have d: "unat (ucast ?delay :: u64) = d" "0 < d" "d < 2 ^ 32"
    using unsigned_less [of delay, where 'a = nat] by (auto simp: d_def unat_gt_0)
  have e: "unat e = unat (now w) + d" unfolding e_def unat_word_ariths d(1) using d(3) q(4) by simp
  have gt: "xdp2_seqno_ul_gt e (now w)" using e d q(4) by (subst seqno_nat) auto
  show ?thesis
  proof (cases "pending w t \<and> not_running")
    case True
    then show ?thesis using gt ok by (auto simp: xdp2_timer_add0_def e_def [symmetric] Let_def XDP2_ASSERT_def same_run_def)
  next
    case False
    obtain w1 where w1: "(if pending w t
        then timer_remove_locked (w\<lparr>stats := (stats w)\<lparr>change_timers := change_timers (stats w) + 1\<rparr>\<rparr>) t else Ok w) = Ok w1"
      "wheel_ok w1" "\<not> pending w1 t" "now w1 = now w"
      "\<And>e w'. put_in w1 t e w' \<Longrightarrow> soon w1 e w' \<Longrightarrow> put_in w t e w' \<and> soon w e w'"
      using clear_for_add [OF ok] by blast
    obtain w2 where w2: "add_setup w1 t e = Ok w2" "queue_ok w2" "bitmap_covers w2" "put_in w1 t (unat e) w2"
      "next_expire_time w2 = next_expire_time w1" "last_runtime w2 = last_runtime w1"
      using add_setup_ok [of w1 t e] w1(2,3) by (auto simp: wheel_ok_def)
    obtain w3 where w3: "add_pop w2 (now w) e = Ok w3" "wheel_ok w3" "put_in w1 t (unat e) w3" "soon w1 (unat e) w3"
      using add_pop_ok [OF w2(2,3) _ w2(4-6)] w1(2,4) e d q(4) by (auto simp: wheel_ok_def)
    have "put_in w t (unat e) (w3\<lparr>stats := s\<rparr>)" "soon w (unat e) (w3\<lparr>stats := s\<rparr>)" for s
      using w1(5) [OF w3(3,4)] by (simp_all add: put_in_def same_run_def soon_def)
    then show ?thesis using False gt w1(1) w2(1) w3(1,2) e
      by (auto simp: xdp2_timer_add0_def e_def [symmetric] Let_def XDP2_ASSERT_def)
  qed
qed

lemma timer_remove_ok:
  assumes ok: "wheel_ok w"
  shows "\<exists>w'. xdp2_timer_remove w t = Ok (running w, w') \<and> wheel_ok w' \<and> same_run w w' \<and>
    (\<forall>u. pending w' u \<longleftrightarrow> pending w u \<and> u \<noteq> t) \<and> (\<forall>u. expire w' u = expire w u) \<and> (\<forall>u. u \<noteq> t \<longrightarrow> timers w' u = timers w u) \<and>
    last_runtime w' = last_runtime w \<and> next_expire_time w' = next_expire_time w"
proof -
  define w0 where
    "w0 = (if running w then w\<lparr>stats := (stats w)\<lparr>remove_wheel_running := remove_wheel_running (stats w) + 1\<rparr>\<rparr> else w)"
  have w0: "wheel_ok w0" "same_run w w0" "timers w0 = timers w" "expire w0 = expire w"
    "last_runtime w0 = last_runtime w" "next_expire_time w0 = next_expire_time w"
    using ok by (auto simp: w0_def same_run_def)
  show ?thesis
  proof (cases "pending w t")
    case True
    then have p: "pending w0 t" by (simp add: w0(3))
    obtain bm where bm: "timer_remove_locked w0 t = Ok (take_out w0 t\<lparr>slot_bitmap := bm\<rparr>)"
      "wheel_ok (take_out w0 t\<lparr>slot_bitmap := bm\<rparr>)" using timer_remove_locked_ok [OF w0(1) p] by blast
    then show ?thesis using True w0
      by (auto simp: xdp2_timer_remove_def w0_def [symmetric] Let_def same_run_def)
  next
    case False
    then show ?thesis using w0 by (auto simp: xdp2_timer_remove_def w0_def [symmetric] Let_def)
  qed
qed

end
