(* ===== verification/Timer_Run.thy ===== *)
theory Timer_Run
  imports Timer
begin

text \<open>
  What a run of the timer wheel does: it calls the callbacks of the timers that are due, of no
  others, and asks for the next run in time. The callbacks may add and remove timers.
\<close>

section \<open>The passing of time\<close>

text \<open>A pop timer that runs keeps running, and is set to the future only.\<close>

definition armed :: "wheel \<Rightarrow> bool" where
  "armed w \<longleftrightarrow> unat (last_runtime w) < unat (next_expire_time w) \<and> unat (next_expire_time w) < 2 ^ 63"

definition ticks :: "wheel \<Rightarrow> wheel \<Rightarrow> bool" where
  "ticks w w' \<longleftrightarrow> (armed w \<longrightarrow> armed w' \<and> (next_expire_time w' = next_expire_time w \<or> unat (now w) < unat (next_expire_time w')))"

text \<open>A wheel \<open>w'\<close> that came from \<open>w\<close>: a timer that was due at the time of \<open>w\<close> was already there.\<close>

definition later :: "wheel \<Rightarrow> wheel \<Rightarrow> bool" where
  "later w w' \<longleftrightarrow> num_slots w' = num_slots w \<and> time_units w' = time_units w \<and> time_div w' = time_div w \<and> running w' = running w \<and> run_again w' = run_again w \<and>
     unat (now w) \<le> unat (now w') \<and> ticks w w' \<and>
     (\<forall>t. pending w' t \<longrightarrow> expire w' t \<le> unat (now w) \<longrightarrow> pending w t \<and> expire w t = expire w' t)"

lemma ticks_same: "next_expire_time w' = next_expire_time w \<Longrightarrow> last_runtime w' = last_runtime w \<Longrightarrow> ticks w w'"
  by (simp add: ticks_def armed_def)

lemma later_refl [simp]: "later w w"
  by (simp add: later_def ticks_same)

lemma ticks_trans: "ticks w w1 \<Longrightarrow> ticks w1 w2 \<Longrightarrow> unat (now w) \<le> unat (now w1) \<Longrightarrow> ticks w w2"
  by (auto simp: ticks_def)

lemma later_trans: "later w w1 \<Longrightarrow> later w1 w2 \<Longrightarrow> later w w2"
  unfolding later_def using ticks_trans [of w w1 w2] by (auto dest: order_trans)

lemma later_upd [simp]:
  "later w (w'\<lparr>stats := a\<rparr>) = later w w'" "later w (w'\<lparr>slot_bitmap := b\<rparr>) = later w w'" "later w (w'\<lparr>called := c\<rparr>) = later w w'"
  "later (w\<lparr>stats := a\<rparr>) w' = later w w'" "later (w\<lparr>slot_bitmap := b\<rparr>) w' = later w w'" "later (w\<lparr>called := c\<rparr>) w' = later w w'"
  by (simp_all add: later_def ticks_def armed_def)

lemma soon_ticks:
  assumes "soon w e w'" "wheel_ok w" "unat (now w) < e" shows "ticks w w'"
  unfolding ticks_def
proof
  assume a: "armed w"
  then have "next_expire_time w \<noteq> last_runtime w" by (auto simp: armed_def)
  then have s: "last_runtime w' = last_runtime w" "unat (next_expire_time w') = min (unat (next_expire_time w)) e"
    using assms(1) a by (auto simp: soon_def armed_def)
  have "unat (last_runtime w) \<le> unat (now w)" using assms(2) by (simp add: wheel_ok_def times_ok_def)
  then show "armed w' \<and> (next_expire_time w' = next_expire_time w \<or> unat (now w) < unat (next_expire_time w'))"
    using s a assms(3) by (auto simp: armed_def min_def word_unat_eq_iff)
qed

lemma put_in_later:
  assumes "put_in w t e w'" "soon w e w'" "wheel_ok w" "unat (now w) < e" shows "later w w'"
  using assms soon_ticks by (auto simp: put_in_def later_def same_run_def)

text \<open>The timers that are due.\<close>

definition due :: "nat \<Rightarrow> wheel \<Rightarrow> nat set" where
  "due T w = {t. pending w t \<and> expire w t \<le> T}"

lemma finite_pending: "queue_ok w \<Longrightarrow> finite {t. pending w t}"
proof -
  assume q: "queue_ok w"
  then have "{t. pending w t} \<subseteq> (\<Union>i < num_slots w. set (slots w ! i))" by (auto simp: queue_ok_def)
  then show ?thesis by (rule finite_subset) simp
qed

lemma finite_due: "wheel_ok w \<Longrightarrow> finite (due T w)"
  using finite_pending by (auto simp: wheel_ok_def due_def)

lemma due_later: "later w w' \<Longrightarrow> T \<le> unat (now w) \<Longrightarrow> due T w' \<subseteq> due T w"
  by (fastforce simp: due_def later_def)

lemma card_due_later: "wheel_ok w \<Longrightarrow> later w w' \<Longrightarrow> T \<le> unat (now w) \<Longrightarrow> card (due T w') \<le> card (due T w)"
  by (intro card_mono finite_due due_later)

text \<open>Slot \<open>i\<close> has no timer of generation \<open>g\<close> or before.\<close>

definition swept :: "nat \<Rightarrow> nat \<Rightarrow> wheel \<Rightarrow> bool" where
  "swept g i w \<longleftrightarrow> (\<forall>t. pending w t \<longrightarrow> expire w t mod num_slots w = i \<longrightarrow> g < expire w t div num_slots w)"

lemma expire_split:
  assumes "queue_ok w" "pending w t"
  shows "expire w t mod num_slots w = timer_index (timers w t)" "expire w t div num_slots w = unat (timer_gen (timers w t))"
  using assms by (auto simp: expire_def queue_ok_def)

lemma gen_less:
  fixes e n :: nat
  assumes "0 < n" "g * n + e mod n < e" shows "g < e div n"
proof -
  have "g * n < e div n * n" using assms(2) div_mult_mod_eq [of e n] by linarith
  then show ?thesis by simp
qed

lemma swept_later:
  assumes "swept g i w" "later w w'" "g * num_slots w + i \<le> unat (now w)" "0 < num_slots w"
  shows "swept g i w'"
  unfolding swept_def
proof (intro allI impI)
  fix t assume t: "pending w' t" "expire w' t mod num_slots w' = i"
  have n: "num_slots w' = num_slots w" using assms(2) by (simp add: later_def)
  show "g < expire w' t div num_slots w'"
  proof (cases "expire w' t \<le> unat (now w)")
    case True
    then have "pending w t" "expire w t = expire w' t" using assms(2) t by (auto simp: later_def)
    then show ?thesis using assms(1) t n by (auto simp: swept_def)
  next
    case False
    then show ?thesis using assms(3,4) t n by (intro gen_less) auto
  qed
qed

text \<open>No timer is older than the generation \<open>g\<close>.\<close>

definition aged :: "nat \<Rightarrow> wheel \<Rightarrow> bool" where
  "aged g w \<longleftrightarrow> (\<forall>t. pending w t \<longrightarrow> g * num_slots w \<le> expire w t)"

lemma aged_later:
  assumes "aged g w" "later w w'" "g * num_slots w \<le> unat (now w)" shows "aged g w'"
  unfolding aged_def
proof (intro allI impI)
  fix t assume t: "pending w' t"
  show "g * num_slots w' \<le> expire w' t"
    using assms t by (cases "expire w' t \<le> unat (now w)") (auto simp: aged_def later_def)
qed

section \<open>One pass over a slot\<close>

text \<open>The due timers \<open>xs\<close> were taken out.\<close>

definition scanned :: "nat \<Rightarrow> wheel \<Rightarrow> nat list \<Rightarrow> wheel \<Rightarrow> bool" where
  "scanned T w xs w' \<longleftrightarrow> same_run w w' \<and> next_expire_time w' = next_expire_time w \<and> last_runtime w' = last_runtime w \<and> distinct xs \<and> set xs \<subseteq> due T w \<and>
     (\<forall>t. pending w' t \<longleftrightarrow> pending w t \<and> t \<notin> set xs) \<and> (\<forall>t. expire w' t = expire w t) \<and>
     (\<forall>t. t \<notin> set xs \<longrightarrow> timers w' t = timers w t)"

lemma scanned_Nil: "scanned T w [] w"
  by (simp add: scanned_def same_run_def)

lemma scanned_one: "t \<in> due T w \<Longrightarrow> scanned T w [t] (take_out w t)"
  by (simp add: scanned_def same_run_def due_def)

lemma scanned_Cons: "scanned T w [t] w1 \<Longrightarrow> scanned T w1 xs w2 \<Longrightarrow> scanned T w (t # xs) w2"
  by (auto simp: scanned_def same_run_def due_def)

lemma scanned_later: "scanned T w xs w' \<Longrightarrow> later w w'"
  by (auto simp: scanned_def later_def same_run_def ticks_same)

lemma slot_seqno:
  assumes "wheel_ok w" "pending w t" "unat g * num_slots w < 2 ^ 63"
  shows "xdp2_seqno_ul_gt (timer_gen (timers w t) * of_nat (num_slots w)) (g * of_nat (num_slots w)) \<longleftrightarrow>
      unat g < unat (timer_gen (timers w t))"
    "xdp2_seqno_ul_gte (timer_gen (timers w t) * of_nat (num_slots w)) (g * of_nat (num_slots w)) \<longleftrightarrow>
      unat g \<le> unat (timer_gen (timers w t))"
proof -
  have q: "queue_ok w" "0 < num_slots w" using assms(1) by (auto simp: wheel_ok_def queue_ok_def)
  have "unat (timer_gen (timers w t)) * num_slots w < 2 ^ 63"
    using assms(1,2) by (auto simp: wheel_ok_def times_ok_def expire_def)
  then have "unat (timer_gen (timers w t) * of_nat (num_slots w)) = unat (timer_gen (timers w t)) * num_slots w"
    "unat (g * of_nat (num_slots w)) = unat g * num_slots w" "unat (timer_gen (timers w t)) * num_slots w < 2 ^ 63"
    using assms(3) unat_mult_slots [OF q(1)] by simp_all
  then show "xdp2_seqno_ul_gt (timer_gen (timers w t) * of_nat (num_slots w)) (g * of_nat (num_slots w)) \<longleftrightarrow>
      unat g < unat (timer_gen (timers w t))"
    "xdp2_seqno_ul_gte (timer_gen (timers w t) * of_nat (num_slots w)) (g * of_nat (num_slots w)) \<longleftrightarrow>
      unat g \<le> unat (timer_gen (timers w t))"
    using assms(3) q(2) by (simp_all add: seqno_nat)
qed

text \<open>What a pass over the timers \<open>ts\<close> gives: unless the batch is full, none of them is due any more.\<close>

definition scan_post ::
    "nat \<Rightarrow> u64 \<Rightarrow> nat list \<Rightarrow> wheel \<Rightarrow> nat list \<Rightarrow> bool \<times> wheel \<times> nat list \<times> nat \<Rightarrow> bool" where
  "scan_post T gen ts w cbs = (\<lambda>(full, w', cbs', count'). \<exists>xs. cbs' = cbs @ xs \<and> wheel_ok w' \<and> scanned T w xs w' \<and>
     (full \<longrightarrow> length cbs' = 8) \<and>
     (\<not> full \<longrightarrow> (\<forall>t \<in> set ts. pending w' t \<longrightarrow> unat gen < unat (timer_gen (timers w' t)))))"

lemma scan_post_skip:
  "scan_post T gen ts w cbs r \<Longrightarrow> unat gen < unat (timer_gen (timers w t)) \<Longrightarrow> scan_post T gen (t # ts) w cbs r"
  by (cases r) (fastforce simp: scan_post_def scanned_def)

lemma scan_post_take:
  assumes "scan_post T gen ts (take_out w t) (cbs @ [t]) r" "t \<in> due T w"
  shows "scan_post T gen (t # ts) w cbs r"
proof -
  obtain full w' cbs' c xs where r: "r = (full, w', cbs', c)" "cbs' = (cbs @ [t]) @ xs" "wheel_ok w'"
    "scanned T (take_out w t) xs w'" "full \<longrightarrow> length cbs' = 8"
    "\<not> full \<longrightarrow> (\<forall>t \<in> set ts. pending w' t \<longrightarrow> unat gen < unat (timer_gen (timers w' t)))"
    using assms(1) by (cases r) (auto simp: scan_post_def)
  have "\<not> pending w' t" using r(4) by (simp add: scanned_def)
  moreover note scanned_Cons [OF scanned_one [OF assms(2)] r(4)]
  ultimately show ?thesis using r by (auto simp: scan_post_def)
qed

lemma scan_slot_ok:
  assumes "wheel_ok w" "distinct ts" "length cbs < 8"
    and "\<forall>t \<in> set ts. pending w t \<and> timer_index (timers w t) = index \<and> unat old \<le> unat (timer_gen (timers w t))"
    and T: "T < 2 ^ 62" and "unat gen * num_slots w + index \<le> T" "unat old * num_slots w < 2 ^ 63"
  shows "wp (scan_post T gen ts w cbs)
    (scan_slot index (gen * of_nat (num_slots w)) (old * of_nat (num_slots w)) ts w cbs count)"
  using assms(1-4,6-)
proof (induction ts arbitrary: w cbs count)
  case Nil
  then show ?case by (simp add: scan_post_def scanned_Nil)
next
  case (Cons t ts)
  have t: "pending w t" "timer_index (timers w t) = index" "unat old \<le> unat (timer_gen (timers w t))"
    and ts: "distinct ts" "t \<notin> set ts"
    using Cons.prems by auto
  have "unat gen * num_slots w < 2 ^ 63" using Cons.prems(5) T by simp
  note g = slot_seqno(1) [OF Cons.prems(1) t(1) this] and o = slot_seqno(2) [OF Cons.prems(1) t(1) Cons.prems(6)]
  have q: "queue_ok w" using Cons.prems(1) by (simp add: wheel_ok_def)
  show ?case
  proof (cases "unat gen < unat (timer_gen (timers w t))")
    case True
    have "wp (scan_post T gen ts w cbs)
        (scan_slot index (gen * of_nat (num_slots w)) (old * of_nat (num_slots w)) ts w cbs count)"
      using Cons.IH [OF Cons.prems(1) ts(1) Cons.prems(3) _ Cons.prems(5,6)] Cons.prems(4) by simp
    then have "wp (scan_post T gen (t # ts) w cbs)
        (scan_slot index (gen * of_nat (num_slots w)) (old * of_nat (num_slots w)) ts w cbs count)"
      by (rule wp_mono) (rule scan_post_skip [OF _ True])
    then show ?thesis using True g o t(3) by (simp add: XDP2_ASSERT_def)
  next
    case False
    let ?w = "take_out w t"
    have "unat (timer_gen (timers w t)) * num_slots w \<le> unat gen * num_slots w" using False by (intro mult_le_mono1) simp
    then have "unat (timer_gen (timers w t)) * num_slots w + index \<le> T" using Cons.prems(5) by linarith
    then have d: "t \<in> due T w" using t(1,2) by (simp add: due_def expire_def)
    note ok = take_out_wheel [OF Cons.prems(1) t(1)]
    have e: "clear_timer (w\<lparr>slots := (slots w)[index := remove1 t (slots w ! index)]\<rparr>) t = ?w"
      by (simp add: take_out_def t(2))
    have r: "slot_remove w index t = Ok (w\<lparr>slots := (slots w)[index := remove1 t (slots w ! index)]\<rparr>)"
      using slot_remove_ok [OF q t(1)] t(2) by simp
    have "\<forall>u \<in> set ts. pending ?w u \<and> timer_index (timers ?w u) = index \<and> unat old \<le> unat (timer_gen (timers ?w u))"
      using Cons.prems(4) ts(2) by auto
    then have IH: "wp (scan_post T gen ts ?w (cbs @ [t]))
        (scan_slot index (gen * of_nat (num_slots w)) (old * of_nat (num_slots w)) ts ?w (cbs @ [t]) (count + 1))"
      if "length (cbs @ [t]) < 8"
      using Cons.IH [OF ok ts(1) that, of "count + 1"] Cons.prems(5,6) by simp
    have "scan_post T gen (t # ts) w cbs (True, ?w, cbs @ [t], count + 1)" if "length (cbs @ [t]) \<ge> 8"
      using that Cons.prems(3) ok scanned_one [OF d] by (simp add: scan_post_def)
    then show ?thesis using False g o t(3) wp_mono [OF IH scan_post_take [OF _ d]]
      by (simp add: XDP2_ASSERT_def r e Let_def not_le)
  qed
qed

lemma scan_ok:
  assumes ok: "wheel_ok w" and a: "aged (unat old) w" and i: "index < num_slots w"
    and T: "unat gen * num_slots w + index \<le> T" "T < 2 ^ 62" and o: "unat old * num_slots w < 2 ^ 63"
  shows "wp (scan_post T gen (slots w ! index) w [])
    (scan_slot index (gen * of_nat (num_slots w)) (old * of_nat (num_slots w)) (slots w ! index) w [] 0)"
proof -
  have q: "queue_ok w" using ok by (simp add: wheel_ok_def)
  have "unat old \<le> unat (timer_gen (timers w t))" if "pending w t" for t
  proof -
    have "unat old * num_slots w \<le> expire w t" "0 < num_slots w" using that a q by (auto simp: aged_def queue_ok_def)
    then have "unat old \<le> expire w t div num_slots w" by (simp add: less_eq_div_iff_mult_less_eq)
    then show ?thesis using expire_split(2) [OF q that] by simp
  qed
  then show ?thesis using q i by (intro scan_slot_ok [OF ok _ _ _ T(2,1) o]) (auto simp: queue_ok_def)
qed

lemma scanned_swept:
  assumes "queue_ok w" "queue_ok w'" "scanned T w xs w'" "index < num_slots w"
    and "\<forall>t \<in> set (slots w ! index). pending w' t \<longrightarrow> unat gen < unat (timer_gen (timers w' t))"
  shows "swept (unat gen) index w'"
  unfolding swept_def
proof (intro allI impI)
  fix t assume t: "pending w' t" "expire w' t mod num_slots w' = index"
  have "pending w t" "timers w' t = timers w t" using assms(3) t(1) by (auto simp: scanned_def)
  then have "t \<in> set (slots w ! index)" using assms(1,4) t(2) expire_split(1) [OF assms(2) t(1)] by (auto simp: queue_ok_def)
  then show "unat gen < expire w' t div num_slots w'" using assms(5) t(1) expire_split(2) [OF assms(2) t(1)] by simp
qed

lemma batch_card:
  assumes "wheel_ok w" "scanned T w xs w1" "later w1 w2" "T \<le> unat (now w)"
  shows "card (due T w2) + length xs \<le> card (due T w)"
proof -
  have d: "due T w1 = due T w - set xs" "set xs \<subseteq> due T w" "distinct xs" "now w1 = now w"
    using assms(2) by (auto simp: scanned_def due_def same_run_def)
  have "card (due T w2) \<le> card (due T w - set xs)"
    using due_later [OF assms(3)] assms(4) d finite_due [OF assms(1)] by (intro card_mono) auto
  then show ?thesis
    using d card_mono [OF finite_due [OF assms(1)] d(2)] by (simp add: card_Diff_subset distinct_card)
qed

lemma unset_swept:
  assumes "wheel_ok w" "i < num_slots w" "\<not> bm_bit (\<lambda>x. x) (slot_bitmap w) 0 i"
  shows "swept g i w"
proof -
  have "queue_ok w" "slots w ! i = []" using assms by (auto simp: wheel_ok_def bitmap_covers_def)
  then show ?thesis using assms(2) expire_split(1) [of w] by (fastforce simp: swept_def queue_ok_def)
qed

section \<open>Generations\<close>

text \<open>The generations of a run.\<close>

lemma run_gens:
  assumes "wheel_ok w"
  shows "unat (last_runtime w div of_nat (num_slots w)) = unat (last_runtime w) div num_slots w"
    "unat (last_runtime w mod of_nat (num_slots w)) = unat (last_runtime w) mod num_slots w"
    "unat ((now w + 1) div of_nat (num_slots w)) = (unat (now w) + 1) div num_slots w"
    "unat ((now w + 1) mod of_nat (num_slots w)) = (unat (now w) + 1) mod num_slots w"
    "unat (last_runtime w) \<le> unat (now w)" "0 < num_slots w"
proof -
  have q: "queue_ok w" and t: "unat (now w) < 2 ^ 62" using assms by (auto simp: wheel_ok_def times_ok_def)
  have "unat (now w + 1) = unat (now w) + 1" using t by (simp add: unat_word_ariths)
  then show "unat ((now w + 1) div of_nat (num_slots w)) = (unat (now w) + 1) div num_slots w"
    "unat ((now w + 1) mod of_nat (num_slots w)) = (unat (now w) + 1) mod num_slots w"
    by (simp_all only: unat_div_slots [OF q])
qed (use assms in \<open>auto simp: unat_div_slots wheel_ok_def times_ok_def queue_ok_def\<close>)

text \<open>What is left to sweep after the old generations: slots of the current one.\<close>

definition left_over :: "nat \<Rightarrow> nat \<Rightarrow> wheel \<Rightarrow> bool" where
  "left_over T index w \<longleftrightarrow> index \<le> (T + 1) mod num_slots w \<and>
     (\<forall>t. t \<in> due T w \<longrightarrow> expire w t div num_slots w = (T + 1) div num_slots w \<and> index \<le> expire w t mod num_slots w)"

lemma same_div_mod:
  fixes a b n :: nat
  assumes "a \<le> b" "a div n = b div n" shows "a mod n \<le> b mod n"
proof -
  have "a div n * n + a mod n = a" "a div n * n + b mod n = b"
    by (rule div_mult_mod_eq) (unfold assms(2), rule div_mult_mod_eq)
  then show ?thesis using assms(1) by linarith
qed

lemma due_bounds:
  assumes "wheel_ok w" "later w w'" "t \<in> due T w'" "T \<le> unat (now w)"
  shows "unat (last_runtime w) div num_slots w \<le> expire w' t div num_slots w" "expire w' t div num_slots w \<le> (T + 1) div num_slots w"
    "unat (last_runtime w) \<le> expire w' t"
proof -
  have t: "t \<in> due T w" "expire w' t = expire w t" using assms(2-4) by (auto simp: due_def later_def)
  then have "unat (last_runtime w) < expire w t" "expire w t \<le> T" using assms(1) by (auto simp: wheel_ok_def times_ok_def due_def)
  then show "unat (last_runtime w) div num_slots w \<le> expire w' t div num_slots w"
    "expire w' t div num_slots w \<le> (T + 1) div num_slots w" "unat (last_runtime w) \<le> expire w' t"
    using t(2) by (auto intro!: div_le_mono)
qed

lemma left_over_stats [simp]: "left_over T i (w\<lparr>stats := s\<rparr>) = left_over T i w"
  by (simp add: left_over_def due_def)

section \<open>Callbacks\<close>

text \<open>What became of a timer that no callback touches: it is as it was, or it was due and was called
  once.\<close>

definition fate :: "nat \<Rightarrow> wheel \<Rightarrow> wheel \<Rightarrow> nat \<Rightarrow> bool" where
  "fate T w w' t \<longleftrightarrow>
     timers w' t = timers w t \<and> count_list (called w') t = count_list (called w) t \<or>
     t \<in> due T w \<and> \<not> pending w' t \<and> count_list (called w') t = count_list (called w) t + 1"

lemma count_distinct: "distinct xs \<Longrightarrow> count_list xs t = (if t \<in> set xs then 1 else 0)"
  by (induction xs) auto

lemma fate_trans:
  assumes "fate T w w1 t" "fate T w1 w2 t" "num_slots w1 = num_slots w"
  shows "fate T w w2 t"
  using assms by (auto simp: fate_def due_def expire_def)

text \<open>Progress of a run for the timers \<open>P\<close> that no callback touches.\<close>

definition progress :: "(nat \<Rightarrow> bool) \<Rightarrow> nat \<Rightarrow> wheel \<Rightarrow> wheel \<Rightarrow> bool" where
  "progress P T w w' \<longleftrightarrow> wheel_ok w' \<and> later w w' \<and> (\<forall>t. P t \<longrightarrow> fate T w w' t)"

lemma progress_trans: "progress P T w w1 \<Longrightarrow> progress P T w1 w2 \<Longrightarrow> progress P T w w2"
  unfolding progress_def using later_trans fate_trans by (metis later_def)

lemma progress_refl: "wheel_ok w \<Longrightarrow> progress P T w w"
  by (simp add: progress_def fate_def)

lemma progress_upd [simp]:
  "progress P T (w\<lparr>stats := a\<rparr>) w' = progress P T w w'" "progress P T w (w'\<lparr>stats := a\<rparr>) = progress P T w w'"
  by (simp_all add: progress_def fate_def due_def)

text \<open>A callback keeps the invariant, adds timers in the future only, and does not touch the timers that
  \<open>spared\<close> names.\<close>

locale timer_callbacks =
  fixes cb :: callback and spared :: "nat \<Rightarrow> bool"
  assumes cb_ok: "wheel_ok w \<Longrightarrow> running w \<Longrightarrow>
    wp (\<lambda>w'. wheel_ok w' \<and> later w w' \<and> called w' = called w \<and> (\<forall>u. spared u \<longrightarrow> timers w' u = timers w u)) (cb t w)"
begin

lemma call_all_ok:
  assumes "wheel_ok w" "running w"
  shows "wp (\<lambda>w'. wheel_ok w' \<and> later w w' \<and> called w' = called w @ ts \<and> (\<forall>u. spared u \<longrightarrow> timers w' u = timers w u))
    (call_all cb ts w)"
  using assms
proof (induction ts arbitrary: w)
  case (Cons t ts)
  have "wp (\<lambda>w'. wheel_ok w' \<and> later w w' \<and> called w' = called w @ [t] \<and> (\<forall>u. spared u \<longrightarrow> timers w' u = timers w u))
      (cb t (w\<lparr>called := called w @ [t]\<rparr>))"
    using cb_ok [of "w\<lparr>called := called w @ [t]\<rparr>" t] Cons.prems by simp
  then show ?case
  proof (simp, rule wp_mono, goal_cases)
    case (1 w1)
    then have "running w1" using Cons.prems(2) by (simp add: later_def)
    then have "wp (\<lambda>w'. wheel_ok w' \<and> later w1 w' \<and> called w' = called w1 @ ts \<and> (\<forall>u. spared u \<longrightarrow> timers w' u = timers w1 u))
      (call_all cb ts w1)" using Cons.IH 1 by blast
    then show ?case by (rule wp_mono) (use 1 later_trans in auto)
  qed
qed simp

text \<open>A batch: the timers are taken out and their callbacks called.\<close>

lemma batch_ok:
  assumes s: "scanned T w xs w1" and ok: "wheel_ok w1" and r: "running w"
  shows "wp (\<lambda>w2. progress spared T w w2 \<and> later w1 w2 \<and> called w2 = called w @ xs) (call_all cb xs w1)"
proof -
  have r1: "running w1" using s r by (simp add: scanned_def same_run_def)
  show ?thesis
  proof (rule wp_mono [OF call_all_ok [OF ok r1]])
    fix w2 assume w2: "wheel_ok w2 \<and> later w1 w2 \<and> called w2 = called w1 @ xs \<and> (\<forall>u. spared u \<longrightarrow> timers w2 u = timers w1 u)"
    have c: "called w2 = called w @ xs" using s w2 by (simp add: scanned_def same_run_def)
    have "fate T w w2 t" if "spared t" for t
    proof (cases "t \<in> set xs")
      case True
      then show ?thesis using s w2 that by (auto simp: fate_def scanned_def c count_distinct)
    next
      case False
      then show ?thesis using s w2 that by (auto simp: fate_def scanned_def c count_distinct)
    qed
    then show "progress spared T w w2 \<and> later w1 w2 \<and> called w2 = called w @ xs"
      using w2 c later_trans [OF scanned_later [OF s]] by (simp add: progress_def)
  qed
qed

text \<open>The slot once its due timers, fewer than a batch, are taken out.\<close>

lemma last_batch_ok:
  assumes ok: "wheel_ok w" "wheel_ok w1" "running w" and s: "scanned T w xs w1" "index < num_slots w"
    and e: "\<forall>t \<in> set (slots w ! index). pending w1 t \<longrightarrow> unat gen < unat (timer_gen (timers w1 t))"
    and T: "unat gen * num_slots w + index \<le> unat (now w)"
  shows "wp (\<lambda>(c, w'). progress spared T w w' \<and> swept (unat gen) index w')
    (bind_res (unset_if_empty w1 index) (\<lambda>w. bind_res (call_all cb xs w) (\<lambda>w. Ok (count, w))))"
proof -
  have q: "queue_ok w" "0 < num_slots w" using ok(1) by (auto simp: wheel_ok_def queue_ok_def)
  have n: "num_slots w1 = num_slots w" "now w1 = now w" using s(1) by (auto simp: scanned_def same_run_def)
  obtain bm where bm: "unset_if_empty w1 index = Ok (w1\<lparr>slot_bitmap := bm\<rparr>)" "bitmap_covers (w1\<lparr>slot_bitmap := bm\<rparr>)"
    using unset_if_empty_ok [of w1 index] ok(2) s(2) n by (auto simp: wheel_ok_def)
  let ?w = "w1\<lparr>slot_bitmap := bm\<rparr>"
  have ok1: "wheel_ok ?w" "scanned T w xs ?w" using bm(2) ok(2) s(1) by (auto simp: wheel_ok_def scanned_def same_run_def)
  have sw: "swept (unat gen) index ?w"
    using scanned_swept [OF q(1) _ ok1(2) s(2)] e ok1(1) by (simp add: wheel_ok_def)
  have "wp (\<lambda>w2. progress spared T w w2 \<and> swept (unat gen) index w2) (call_all cb xs ?w)"
    by (rule wp_mono [OF batch_ok [OF ok1(2,1) ok(3)]]) (use sw swept_later [OF sw] n T q(2) in auto)
  then show ?thesis by (simp add: bm(1))
qed

lemma run_slot_ok:
  assumes "wheel_ok w" "running w" "aged (unat old) w" "index < num_slots w" "card (due T w) < k"
    and "T \<le> unat (now w)" "unat gen * num_slots w + index \<le> T" "unat old * num_slots w \<le> T"
  shows "wp (\<lambda>(c, w'). progress spared T w w' \<and> swept (unat gen) index w') (run_slot k cb w index gen old)"
  using assms
proof (induction k arbitrary: w)
  case (Suc k)
  have T: "T < 2 ^ 62" using Suc.prems(1,6) by (auto simp: wheel_ok_def times_ok_def)
  have q: "queue_ok w" using Suc.prems(1) by (simp add: wheel_ok_def)
  have "wp (scan_post T gen (slots w ! index) w [])
      (scan_slot index (gen * of_nat (num_slots w)) (old * of_nat (num_slots w)) (slots w ! index) w [] 0)"
    using Suc.prems(8) T by (intro scan_ok [OF Suc.prems(1,3,4,7) T]) simp
  then show ?case unfolding run_slot.simps wp_bind
  proof (rule wp_mono)
    fix r assume "scan_post T gen (slots w ! index) w [] r"
    then obtain full w1 xs c where r: "r = (full, w1, xs, c)" "wheel_ok w1" "scanned T w xs w1" "full \<Longrightarrow> length xs = 8"
      "\<not> full \<Longrightarrow> \<forall>t \<in> set (slots w ! index). pending w1 t \<longrightarrow> unat gen < unat (timer_gen (timers w1 t))"
      by (cases r) (auto simp: scan_post_def)
    show "wp (\<lambda>(c, w'). progress spared T w w' \<and> swept (unat gen) index w') (case r of (full, w, cbs, count) \<Rightarrow>
        if full then bind_res (call_all cb cbs w) (\<lambda>w.
          run_slot k cb (w\<lparr>stats := (stats w)\<lparr>slot_retries := slot_retries (stats w) + 1\<rparr>\<rparr>) index gen old)
        else bind_res (unset_if_empty w index) (\<lambda>w. bind_res (call_all cb cbs w) (\<lambda>w. Ok (count, w))))"
    proof (cases full)
      case True
      have "wp (\<lambda>w2. wp (\<lambda>(c, w'). progress spared T w w' \<and> swept (unat gen) index w')
          (run_slot k cb (w2\<lparr>stats := (stats w2)\<lparr>slot_retries := slot_retries (stats w2) + 1\<rparr>\<rparr>) index gen old)) (call_all cb xs w1)"
      proof (rule wp_mono [OF batch_ok [OF r(3,2) Suc.prems(2)]])
        fix w2 assume w2: "progress spared T w w2 \<and> later w1 w2 \<and> called w2 = called w @ xs"
        define s where "s = (stats w2)\<lparr>slot_retries := slot_retries (stats w2) + 1\<rparr>"
        have l: "later w w2" "num_slots w2 = num_slots w" using w2 by (auto simp: progress_def later_def)
        have d: "card (due T w2) < k" using batch_card [OF Suc.prems(1) r(3)] w2 r(4) [OF True] Suc.prems(5,6) by force
        have "wp (\<lambda>(c, w'). progress spared T (w2\<lparr>stats := s\<rparr>) w' \<and> swept (unat gen) index w') (run_slot k cb (w2\<lparr>stats := s\<rparr>) index gen old)"
          using w2 l Suc.prems aged_later [OF Suc.prems(3) l(1)] d
          by (intro Suc.IH) (auto simp: progress_def later_def aged_def due_def)
        then show "wp (\<lambda>(c, w'). progress spared T w w' \<and> swept (unat gen) index w') (run_slot k cb (w2\<lparr>stats := s\<rparr>) index gen old)"
          by (rule wp_mono) (use w2 progress_trans in auto)
      qed
      then show ?thesis using True by (simp add: r(1))
    next
      case False
      have "wp (\<lambda>(c, w'). progress spared T w w' \<and> swept (unat gen) index w')
          (bind_res (unset_if_empty w1 index) (\<lambda>w. bind_res (call_all cb xs w) (\<lambda>w. Ok (c, w))))"
        using Suc.prems by (intro last_batch_ok [OF Suc.prems(1) r(2) Suc.prems(2) r(3) Suc.prems(4) r(5) [OF False]]) simp
      then show ?thesis using False by (simp add: r(1))
    qed
  qed
qed simp

section \<open>The sweep of the slots\<close>

lemma progress_steps:
  assumes "progress spared T w w'" "running w" "aged g w" "g * num_slots w \<le> T" "T \<le> unat (now w)"
  shows "wheel_ok w'" "running w'" "num_slots w' = num_slots w" "aged g w'" "T \<le> unat (now w')" "later w w'"
  using assms aged_later [OF assms(3), of w'] by (auto simp: progress_def later_def)

lemma slots_from_ok:
  assumes "wheel_ok w" "running w" "aged (unat old) w" "limit - pos + card (due T w) < k"
    and "T \<le> unat (now w)" "unat gen * num_slots w + limit \<le> T + 1" "unat old * num_slots w \<le> T" "limit \<le> num_slots w"
    and "\<forall>i. lo \<le> i \<and> i < pos \<and> i < limit \<longrightarrow> swept (unat gen) i w"
  shows "wp (\<lambda>(c, w'). progress spared T w w' \<and> (\<forall>i. lo \<le> i \<and> i < limit \<longrightarrow> swept (unat gen) i w'))
    (slots_from k cb gen old limit pos w count)"
  using assms
proof (induction k arbitrary: w pos count)
  case (Suc k)
  show ?case
  proof (cases "pos < limit")
    case True
    have "wp (\<lambda>(c, w'). progress spared T w w' \<and> swept (unat gen) pos w') (run_slot k cb w pos gen old)"
      using Suc.prems True by (intro run_slot_ok) auto
    then have "wp (\<lambda>(c, w1). wp (\<lambda>pos'. wp (\<lambda>(c, w'). progress spared T w w' \<and> (\<forall>i. lo \<le> i \<and> i < limit \<longrightarrow> swept (unat gen) i w'))
        (slots_from k cb gen old limit pos' w1 (count + c))) (xdp2_bitmap_find_next (\<lambda>x. x) (slot_bitmap w1) 0 pos limit))
      (run_slot k cb w pos gen old)"
    proof (rule wp_mono, clarify)
      fix c w1 assume w1: "progress spared T w w1" "swept (unat gen) pos w1"
      note st = progress_steps [OF w1(1) Suc.prems(2,3,7,5)]
      let ?pos = "find_from (bm_bit (\<lambda>x. x) (slot_bitmap w1) 0) (pos + 1) limit"
      have n: "limit < 2 ^ 32" "bm_ok (slot_bitmap w1) 0 limit" "0 < num_slots w"
        using st(1,3) Suc.prems(1,8) by (auto simp: wheel_ok_def queue_ok_def bitmap_covers_def elim: bm_ok_mono)
      have pos: "pos + 1 \<le> ?pos" using True by (intro find_from_ge) simp
      have "swept (unat gen) i w1" if i: "lo \<le> i" "i < ?pos" "i < limit" for i
      proof (cases i pos rule: linorder_cases)
        case less
        then have "swept (unat gen) i w" using Suc.prems(9) i by simp
        then show ?thesis by (rule swept_later [OF _ st(6)]) (use i Suc.prems n in auto)
      next
        case greater
        then have "\<not> bm_bit (\<lambda>x. x) (slot_bitmap w1) 0 i" using i(2) by (intro find_from_miss [of "pos + 1" i]) auto
        then show ?thesis using st i Suc.prems(8) by (intro unset_swept) auto
      qed (use w1 in simp)
      then have "wp (\<lambda>(c, w'). progress spared T w1 w' \<and> (\<forall>i. lo \<le> i \<and> i < limit \<longrightarrow> swept (unat gen) i w'))
          (slots_from k cb gen old limit ?pos w1 (count + c))"
        using st Suc.prems True pos card_due_later [OF Suc.prems(1) st(6) Suc.prems(5)] by (intro Suc.IH) auto
      then have "wp (\<lambda>(c, w'). progress spared T w w' \<and> (\<forall>i. lo \<le> i \<and> i < limit \<longrightarrow> swept (unat gen) i w'))
          (slots_from k cb gen old limit ?pos w1 (count + c))"
        by (rule wp_mono) (use progress_trans [OF w1(1)] in auto)
      then show "wp (\<lambda>pos'. wp (\<lambda>(c, w'). progress spared T w w' \<and> (\<forall>i. lo \<le> i \<and> i < limit \<longrightarrow> swept (unat gen) i w'))
        (slots_from k cb gen old limit pos' w1 (count + c))) (xdp2_bitmap_find_next (\<lambda>x. x) (slot_bitmap w1) 0 pos limit)"
        by (simp add: host.bitmap_find_next_ok(1) [OF n(2) True n(1)])
    qed
    then show ?thesis using True by (simp add: case_prod_unfold)
  next
    case False
    then show ?thesis using Suc.prems by (auto simp: progress_refl)
  qed
qed simp

lemma run_slots_ok:
  assumes "wheel_ok w" "running w" "aged (unat old) w" "num_slots w + card (due T w) < k"
    and "T \<le> unat (now w)" "unat gen * num_slots w + limit \<le> T + 1" "unat old * num_slots w \<le> T" "limit \<le> num_slots w" "pos \<le> limit"
  shows "wp (\<lambda>(c, w'). progress spared T w w' \<and> (\<forall>i. pos \<le> i \<and> i < limit \<longrightarrow> swept (unat gen) i w'))
    (run_slots k cb gen old pos limit w count)"
proof -
  let ?pos = "find_from (bm_bit (\<lambda>x. x) (slot_bitmap w) 0) pos limit"
  have n: "limit < 2 ^ 32" "bm_ok (slot_bitmap w) 0 limit"
    using assms(1,8) by (auto simp: wheel_ok_def queue_ok_def bitmap_covers_def elim: bm_ok_mono)
  have "swept (unat gen) i w" if "pos \<le> i" "i < ?pos" for i
    using that find_from_le [of "bm_bit (\<lambda>x. x) (slot_bitmap w) 0" pos limit] assms(8)
    by (intro unset_swept [OF assms(1)] find_from_miss [of pos i]) auto
  then have "wp (\<lambda>(c, w'). progress spared T w w' \<and> (\<forall>i. pos \<le> i \<and> i < limit \<longrightarrow> swept (unat gen) i w'))
      (slots_from k cb gen old limit ?pos w count)"
    using assms by (intro slots_from_ok) auto
  then show ?thesis using host.bitmap_find_ok(1) [OF n(2) assms(9) n(1)] by (simp add: run_slots_def)
qed

lemma left_over_swept:
  assumes w: "wheel_ok w" "T = unat (now w)" and p: "progress spared T w w'"
    and sw: "\<forall>i. lo \<le> i \<and> i < num_slots w \<longrightarrow> swept g i w'" and g: "g + 1 = (T + 1) div num_slots w"
    and lo: "lo = 0 \<or> unat (last_runtime w) div num_slots w = g \<and> lo = unat (last_runtime w) mod num_slots w"
  shows "left_over T 0 w'"
  unfolding left_over_def
proof (intro conjI allI impI)
  have l: "later w w'" "num_slots w' = num_slots w" "0 < num_slots w"
    using p run_gens(6) [OF w(1)] by (auto simp: progress_def later_def)
  fix t assume t: "t \<in> due T w'"
  note b = due_bounds [OF w(1) l(1) t] 
  have "lo \<le> expire w' t mod num_slots w" if "expire w' t div num_slots w \<le> g"
    using lo that b w(2) same_div_mod [of "unat (last_runtime w)" "expire w' t" "num_slots w"] by auto
  then have "g < expire w' t div num_slots w"
    using sw t l by (metis (no_types, lifting) due_def linorder_not_less mem_Collect_eq mod_less_divisor swept_def)
  then show "expire w' t div num_slots w' = (T + 1) div num_slots w'" using b(2) g w(2) l(2) by simp
qed simp_all

lemma run_old_gens_ok:
  assumes w: "wheel_ok w" "running w" and T: "T = unat (now w)" and k: "num_slots w + card (due T w) < k"
  shows "wp (\<lambda>(index, c, w'). progress spared T w w' \<and> left_over T index w')
    (run_old_gens k cb (last_runtime w div of_nat (num_slots w)) ((now w + 1) div of_nat (num_slots w)) w)"
proof -
  let ?L = "unat (last_runtime w)" and ?n = "num_slots w"
  let ?old = "last_runtime w div of_nat ?n" and ?new = "(now w + 1) div of_nat ?n :: u64"
  note g = run_gens [OF w(1)]
  have le: "?L div ?n \<le> (T + 1) div ?n" using g(5) T by (intro div_le_mono) simp
  have "?L div ?n * ?n \<le> expire w t" if "pending w t" for t
  proof -
    have "?L < expire w t" using w(1) that by (simp add: wheel_ok_def times_ok_def)
    then show ?thesis using div_times_less_eq_dividend [of ?L ?n] by linarith
  qed
  then have a: "aged (unat ?old) w" unfolding aged_def g(1) by blast
  have new: "unat (?new - 1) + 1 = (T + 1) div ?n" if "?old \<noteq> ?new"
  proof -
    have "?L div ?n \<noteq> (T + 1) div ?n" using that g(1,3) T by (metis word_unat_eq_iff)
    then have p: "0 < (T + 1) div ?n" using le by linarith
    then have "unat ?new \<noteq> 0" using g(3) T by simp
    then have "?new \<noteq> 0" by (metis unat_0)
    then show ?thesis using g(3) T p by (simp add: unat_minus_one)
  qed
  have sweep: "wp (\<lambda>(c, w'). progress spared T w w' \<and> left_over T 0 w') (run_slots k cb (?new - 1) ?old lo ?n w 0)"
    if "?old \<noteq> ?new" and lo: "lo = 0 \<or> ?L div ?n = unat (?new - 1) \<and> lo = ?L mod ?n" for lo
  proof (rule wp_mono [OF run_slots_ok [OF w a k, of "?new - 1" ?n lo]])
    have "unat (?new - 1) * ?n + ?n = (T + 1) div ?n * ?n" using new [OF that(1)] by (simp add: add.commute flip: mult_Suc)
    then show "unat (?new - 1) * ?n + ?n \<le> T + 1" by simp
    show "unat ?old * ?n \<le> T" unfolding g(1) using g(5) T div_times_less_eq_dividend [of ?L ?n] by linarith
    show "case x of (c, w') \<Rightarrow> progress spared T w w' \<and> left_over T 0 w'"
      if "case x of (c, w') \<Rightarrow> progress spared T w w' \<and> (\<forall>i. lo \<le> i \<and> i < ?n \<longrightarrow> swept (unat (?new - 1)) i w')" for x
      using that left_over_swept [OF w(1) T _ _ new [OF \<open>?old \<noteq> ?new\<close>] lo] by auto
  qed (use T lo g(6) in auto)
  consider "?old = ?new" | "?old \<noteq> ?new" "?old + 1 = ?new" | "?old \<noteq> ?new" "?old + 1 \<noteq> ?new" by blast
  then show ?thesis
  proof cases
    case 1
    then have e: "?L div ?n = (T + 1) div ?n" using g(1,3) T by simp
    have "?L mod ?n \<le> (T + 1) mod ?n" using e g(5) T by (intro same_div_mod) simp_all
    moreover have "expire w t div ?n = (T + 1) div ?n \<and> ?L mod ?n \<le> expire w t mod ?n" if "t \<in> due T w" for t
      using due_bounds [OF w(1) later_refl that] e T same_div_mod [of ?L "expire w t" ?n] by simp
    ultimately have "left_over T (?L mod ?n) w" by (simp add: left_over_def)
    then show ?thesis using 1 g(2) w(1) by (simp add: run_old_gens_def Let_def progress_refl)
  next
    case 2
    then have "?L div ?n = unat (?new - 1)" using g(1) by (metis add_diff_cancel_right')
    then show ?thesis using sweep [OF 2(1), of "?L mod ?n"] 2 g(2) unfolding run_old_gens_def Let_def
      by (simp add: case_prod_unfold)
  next
    case 3
    then show ?thesis using sweep [OF 3(1), of 0] unfolding run_old_gens_def Let_def by (simp add: case_prod_unfold)
  qed
qed

end

section \<open>The next pop\<close>

text \<open>The pop timer is set to a time that is in the future and not after the first timer.\<close>

definition pop_in_time :: "nat \<Rightarrow> wheel \<Rightarrow> bool" where
  "pop_in_time T w \<longleftrightarrow> (\<forall>t. pending w t \<longrightarrow>
     T < unat (next_expire_time w) \<and> unat (next_expire_time w) \<le> expire w t \<and>
     pops w \<noteq> [] \<and> List.last (pops w) = next_expire_time w)"

lemma pop_setup:
  assumes w: "queue_ok w" "bitmap_covers w" "unat (now w) < 2 ^ 62" "T \<le> unat (now w)" "last_runtime w = of_nat T"
    and p: "\<And>t. pending w t \<Longrightarrow> T < expire w t \<and> expire w t < 2 ^ 63"
    and e: "unat e = x" "T < x" "x < 2 ^ 63" "\<And>t. pending w t \<Longrightarrow> x \<le> expire w t"
  shows "wheel_ok (set_next_timer_pop (w\<lparr>next_expire_time := e\<rparr>)) \<and> pop_in_time T (set_next_timer_pop (w\<lparr>next_expire_time := e\<rparr>)) \<and>
    armed (set_next_timer_pop (w\<lparr>next_expire_time := e\<rparr>))"
proof -
  have "unat (of_nat T :: u64) = T" using w(3,4) by (simp add: unat_of_nat)
  then show ?thesis using w p e
    by (auto simp: wheel_ok_def times_ok_def pop_in_time_def set_next_timer_pop_def armed_def)
qed

lemma slot_bit:
  assumes "queue_ok w" "bitmap_covers w" "pending w t"
  shows "bm_bit (\<lambda>x. x) (slot_bitmap w) 0 (expire w t mod num_slots w)" "expire w t mod num_slots w < num_slots w"
proof -
  have "t \<in> set (slots w ! timer_index (timers w t))" "timer_index (timers w t) < num_slots w"
    using assms by (auto simp: queue_ok_def)
  then show "bm_bit (\<lambda>x. x) (slot_bitmap w) 0 (expire w t mod num_slots w)" "expire w t mod num_slots w < num_slots w"
    using assms(2) expire_split(1) [OF assms(1,3)] by (auto simp: bitmap_covers_def)
qed

lemma expire_from:
  fixes e x n :: nat
  assumes "T < e" "0 < n"
  shows "(T + 1) mod n \<le> e mod n \<Longrightarrow> i \<le> e mod n \<Longrightarrow> (T + 1) div n * n + i \<le> e"
    "e mod n < (T + 1) mod n \<Longrightarrow> i \<le> n + e mod n \<Longrightarrow> (T + 1) div n * n + i \<le> e"
proof -
  have e: "e div n * n + e mod n = e" by (rule div_mult_mod_eq)
  have le: "(T + 1) div n \<le> e div n" using assms by (intro div_le_mono) simp
  show "(T + 1) div n * n + i \<le> e" if "i \<le> e mod n"
    using that mult_le_mono1 [OF le, of n] e by linarith
  show "(T + 1) div n * n + i \<le> e" if "e mod n < (T + 1) mod n" "i \<le> n + e mod n"
  proof -
    have "(T + 1) div n \<noteq> e div n" using same_div_mod [of "T + 1" e n] that(1) assms(1) by auto
    then have "(T + 1) div n + 1 \<le> e div n" using le by linarith
    from mult_le_mono1 [OF this, of n] have "(T + 1) div n * n + n \<le> e div n * n" by (simp only: add_mult_distrib mult_1)
    then show ?thesis using that(2) e by linarith
  qed
qed

lemma pop_this_gen:
  assumes w: "queue_ok w" "bitmap_covers w" "pending w t" and t: "T < expire w t"
    and i: "find_from (bm_bit (\<lambda>x. x) (slot_bitmap w) 0) ((T + 1) mod num_slots w) (num_slots w) < num_slots w" (is "?i < ?n")
  shows "(T + 1) div ?n * ?n + ?i \<le> expire w t"
proof (cases "(T + 1) mod ?n \<le> expire w t mod ?n")
  case True
  then have "?i \<le> expire w t mod ?n" using slot_bit [OF w] find_from_miss by (meson not_le)
  then show ?thesis using True t i by (intro expire_from(1)) auto
next
  case False
  then show ?thesis using t i by (intro expire_from(2)) auto
qed

lemma pop_next_gen:
  assumes w: "queue_ok w" "bitmap_covers w" "pending w t" and t: "T < expire w t"
    and l: "expire w t mod num_slots w < (T + 1) mod num_slots w" (is "_ mod ?n < ?l")
  shows "((T + 1) div ?n + 1) * ?n + find_from (bm_bit (\<lambda>x. x) (slot_bitmap w) 0) 0 ?l \<le> expire w t" (is "_ + ?i \<le> _")
proof -
  have "?i \<le> expire w t mod ?n" using slot_bit [OF w] find_from_miss by (meson le0 not_le)
  then have "(T + 1) div ?n * ?n + (?n + ?i) \<le> expire w t" using t l slot_bit(2) [OF w] by (intro expire_from(2)) auto
  then show ?thesis by (simp only: add_mult_distrib mult_1 add.assoc)
qed

lemma find_next_pop_ok:
  fixes T :: nat
  assumes w: "queue_ok w" "bitmap_covers w" "unat (now w) < 2 ^ 62" "T \<le> unat (now w)" "last_runtime w = of_nat T"
    and p: "\<And>t. pending w t \<Longrightarrow> T < expire w t \<and> expire w t < 2 ^ 63"
    and g: "unat g = (T + 1) div num_slots w"
  shows "\<exists>w'. find_next_pop g ((T + 1) mod num_slots w) w = Ok w' \<and> wheel_ok w' \<and> pop_in_time T w' \<and> (armed w' \<or> w' = w) \<and>
    (\<exists>e ps. w' = w\<lparr>next_expire_time := e, pops := ps\<rparr>)"
proof -
  let ?n = "num_slots w" and ?l = "(T + 1) mod num_slots w" and ?b = "bm_bit (\<lambda>x. x) (slot_bitmap w) 0"
  have n: "0 < ?n" "?n < 2 ^ 31" "bm_ok (slot_bitmap w) 0 ?n" using w by (auto simp: queue_ok_def bitmap_covers_def)
  have l: "?l < ?n" "?l < 2 ^ 32" "?n < 2 ^ 32" "?l \<le> ?n" "bm_ok (slot_bitmap w) 0 ?l"
    using n mod_less_divisor [of ?n "T + 1"] by (auto intro: bm_ok_mono simp del: mod_less_divisor)
  have gn: "(T + 1) div ?n * ?n + ?l = T + 1" by (rule div_mult_mod_eq)
  have T63: "T + 1 + 2 ^ 32 + 2 ^ 32 < 2 ^ 63" using w(3,4) by simp
  have find: "xdp2_bitmap_find (\<lambda>x. x) (slot_bitmap w) 0 ?l ?n = Ok (find_from ?b ?l ?n)"
    "xdp2_bitmap_find (\<lambda>x. x) (slot_bitmap w) 0 0 ?l = Ok (find_from ?b 0 ?l)"
    using host.bitmap_find_ok(1) [OF n(3) l(4,3)] host.bitmap_find_ok(1) [OF l(5) _ l(2), of 0] by simp_all
  have r: "find_next_pop g ?l w =
      (if find_from ?b ?l ?n < ?n then Ok (set_next_timer_pop (w\<lparr>next_expire_time := g * of_nat ?n + of_nat (find_from ?b ?l ?n)\<rparr>))
       else if find_from ?b 0 ?l < ?l then Ok (set_next_timer_pop (w\<lparr>next_expire_time := (g + 1) * of_nat ?n + of_nat (find_from ?b 0 ?l)\<rparr>))
       else Ok w)" unfolding find_next_pop_def find by simp
  have u: "unat (g' * of_nat ?n + of_nat i :: u64) = unat g' * ?n + i" if "unat g' * ?n \<le> T + 1 + 2 ^ 32" "i < 2 ^ 32" for g' :: u64 and i
    using that w(3,4) unat_mult_slots [OF w(1), of g'] by (simp add: unat_word_ariths unat_of_nat)
  show ?thesis
  proof (cases "find_from ?b ?l ?n < ?n")
    case True
    let ?i = "find_from ?b ?l ?n"
    have "unat g * ?n \<le> T + 1 + 2 ^ 32" "?i < 2 ^ 32" using gn less_trans [OF True l(3)] unfolding g by linarith+
    note u1 = u [OF this, unfolded g]
    have b63: "(T + 1) div ?n * ?n + ?i < 2 ^ 63" using gn less_trans [OF True l(3)] T63 by linarith
    have "(T + 1) div ?n * ?n + ?i \<le> expire w t" if "pending w t" for t
      using p [OF that] True by (intro pop_this_gen [OF w(1,2) that]) simp_all
    moreover have "T < (T + 1) div ?n * ?n + ?i" using gn find_from_ge [OF l(4), of ?b] by linarith
    ultimately have "wheel_ok (set_next_timer_pop (w\<lparr>next_expire_time := g * of_nat ?n + of_nat ?i\<rparr>)) \<and>
        pop_in_time T (set_next_timer_pop (w\<lparr>next_expire_time := g * of_nat ?n + of_nat ?i\<rparr>)) \<and>
        armed (set_next_timer_pop (w\<lparr>next_expire_time := g * of_nat ?n + of_nat ?i\<rparr>))"
      using b63 by (intro pop_setup [OF w p u1]) auto
    then show ?thesis using True unfolding r by (auto simp: set_next_timer_pop_def)
  next
    case False
    then have hi: "\<not> ?b i" if "?l \<le> i" "i < ?n" for i using find_from_miss [of ?l i ?b ?n] that by simp
    then have lo: "expire w t mod ?n < ?l" if "pending w t" for t using slot_bit [OF w(1,2) that] by (meson not_le)
    show ?thesis
    proof (cases "find_from ?b 0 ?l < ?l")
      case True
      let ?i = "find_from ?b 0 ?l"
      have "T + 1 < 2 ^ 63" using w(3,4) by simp
      then have "unat g < 2 ^ 63" unfolding g by (rule le_less_trans [OF div_le_dividend])
      then have g1: "unat (g + 1) = (T + 1) div ?n + 1" using g by (simp add: unat_word_ariths)
      have "unat (g + 1) * ?n \<le> T + 1 + 2 ^ 32" "?i < 2 ^ 32"
        using gn less_trans [OF True l(2)] l(3) unfolding g1 add_mult_distrib by linarith+
      note u1 = u [OF this, unfolded g1]
      have b63: "((T + 1) div ?n + 1) * ?n + ?i < 2 ^ 63"
        using gn less_trans [OF True l(2)] l(3) T63 unfolding add_mult_distrib by linarith
      have "((T + 1) div ?n + 1) * ?n + ?i \<le> expire w t" if "pending w t" for t
        using p [OF that] lo [OF that] by (intro pop_next_gen [OF w(1,2) that]) simp_all
      moreover have "T < ((T + 1) div ?n + 1) * ?n + ?i" using gn l(1) unfolding add_mult_distrib by linarith
      ultimately have "wheel_ok (set_next_timer_pop (w\<lparr>next_expire_time := (g + 1) * of_nat ?n + of_nat ?i\<rparr>)) \<and>
          pop_in_time T (set_next_timer_pop (w\<lparr>next_expire_time := (g + 1) * of_nat ?n + of_nat ?i\<rparr>)) \<and>
          armed (set_next_timer_pop (w\<lparr>next_expire_time := (g + 1) * of_nat ?n + of_nat ?i\<rparr>))"
        using b63 by (intro pop_setup [OF w p u1]) auto
      then show ?thesis using False True unfolding r by (auto simp: set_next_timer_pop_def)
    next
      case none: False
      have "\<not> pending w t" for t using find_from_miss [of 0 _ ?b ?l] none lo [of t] slot_bit [OF w(1,2), of t] by (meson le0 less_le_trans not_le)
      then have "wheel_ok w" "pop_in_time T w" using w by (auto simp: wheel_ok_def times_ok_def pop_in_time_def unat_of_nat)
      then show ?thesis using False none unfolding r by (auto intro!: exI [of _ "next_expire_time w"] exI [of _ "pops w"])
    qed
  qed
qed

section \<open>A whole run\<close>

text \<open>What a run at time \<open>T\<close> makes of the wheel \<open>w\<close>.\<close>

definition ran :: "(nat \<Rightarrow> bool) \<Rightarrow> nat \<Rightarrow> wheel \<Rightarrow> wheel \<Rightarrow> bool" where
  "ran P T w w' \<longleftrightarrow> wheel_ok w' \<and> due T w' = {} \<and> unat (last_runtime w') = T \<and> pop_in_time T w' \<and>
     (armed w \<and> T < unat (next_expire_time w) \<longrightarrow> armed w') \<and>
     running w' = running w \<and> run_again w' = run_again w \<and> num_slots w' = num_slots w \<and>
     time_units w' = time_units w \<and> time_div w' = time_div w \<and> (\<forall>t. P t \<longrightarrow> fate T w w' t)"

lemma ran_stats [simp]: "ran P T w (w'\<lparr>stats := s\<rparr>) = ran P T w w'" "ran P T (w\<lparr>stats := s\<rparr>) w' = ran P T w w'"
  by (simp_all add: ran_def due_def pop_in_time_def fate_def armed_def)

lemma not_due_after:
  assumes "left_over T index w1" "later w1 w2" "T \<le> unat (now w1)" "0 < num_slots w1"
    and "\<forall>i. index \<le> i \<and> i < (T + 1) mod num_slots w1 \<longrightarrow> swept ((T + 1) div num_slots w1) i w2"
  shows "due T w2 = {}"
proof (rule ccontr)
  assume "due T w2 \<noteq> {}"
  then obtain t where t: "t \<in> due T w2" by blast
  have n: "num_slots w2 = num_slots w1" "t \<in> due T w1" "expire w1 t = expire w2 t"
    using assms(2,3) t by (auto simp: later_def due_def)
  let ?e = "expire w2 t" and ?n = "num_slots w1"
  have e: "?e div ?n = (T + 1) div ?n" "index \<le> ?e mod ?n" using assms(1) n by (auto simp: left_over_def)
  have "?e \<le> T" using t by (simp add: due_def)
  then have "?e mod ?n < (T + 1) mod ?n"
    using div_mult_mod_eq [of ?e ?n] div_mult_mod_eq [of "T + 1" ?n] unfolding e(1) by linarith
  then have "swept ((T + 1) div ?n) (?e mod ?n) w2" using assms(5) e(2) by blast
  then show False using e(1) t n(1) by (auto simp: swept_def due_def)
qed

context timer_callbacks
begin

lemma sweep_ok:
  assumes w: "wheel_ok w" "running w" and T: "T = unat (now w)" and k: "num_slots w + card (due T w) < k"
  defines "old \<equiv> last_runtime w div of_nat (num_slots w)" and "new \<equiv> (now w + 1) div of_nat (num_slots w)"
  shows "wp (\<lambda>(count, w'). progress spared T w w' \<and> due T w' = {})
    (bind_res (run_old_gens k cb old new w) (\<lambda>(index, count, w').
       run_slots k cb new old index (unat ((now w + 1) mod of_nat (num_slots w))) w' count))"
  unfolding wp_bind old_def new_def
proof (rule wp_mono [OF run_old_gens_ok [OF w T k]], clarify)
  fix index count w1 assume w1: "progress spared T w w1" "left_over T index w1"
  note g = run_gens [OF w(1)]
  let ?L = "unat (last_runtime w)" and ?n = "num_slots w" and ?l = "(unat (now w) + 1) mod num_slots w"
  let ?old = "last_runtime w div of_nat ?n" and ?new = "(now w + 1) div of_nat ?n :: u64"
  have o: "?L div ?n * ?n \<le> ?L" by simp
  have a: "aged (unat ?old) w" unfolding aged_def g(1)
    using w(1) order.trans [OF o] less_imp_le by (auto simp: wheel_ok_def times_ok_def)
  have oT: "unat ?old * ?n \<le> T" unfolding g(1) using order.trans [OF o g(5)] T by simp
  have TT: "T \<le> unat (now w)" using T by simp
  note st = progress_steps [OF w1(1) w(2) a oT TT]
  have "unat ?new * ?n + ?l = T + 1" unfolding g(3) T by (rule div_mult_mod_eq)
  then have "wp (\<lambda>(c, w'). progress spared T w1 w' \<and> (\<forall>i. index \<le> i \<and> i < ?l \<longrightarrow> swept (unat ?new) i w'))
      (run_slots k cb ?new ?old index ?l w1 count)"
    using st k oT w1(2) T g(6) card_due_later [OF w(1) st(6) TT] by (intro run_slots_ok) (auto simp: left_over_def)
  then show "wp (\<lambda>(count, w'). progress spared T w w' \<and> due T w' = {})
      (run_slots k cb ?new ?old index (unat ((now w + 1) mod of_nat ?n)) w1 count)"
    unfolding g(4)
  proof (rule wp_mono, clarify)
    fix c w2 assume w2: "progress spared T w1 w2" "\<forall>i. index \<le> i \<and> i < ?l \<longrightarrow> swept (unat ?new) i w2"
    then have "due T w2 = {}" using st(3,5) g(3,6) T by (intro not_due_after [OF w1(2)]) (auto simp: progress_def)
    then show "progress spared T w w2 \<and> due T w2 = {}" using progress_trans [OF w1(1) w2(1)] by simp
  qed
qed

lemma run_once_ok:
  assumes w: "wheel_ok w" and T: "T = unat (now w)" and k: "num_slots w + card (due T w) < k"
  shows "wp (\<lambda>w'. ran spared T (w\<lparr>running := True\<rparr>) w') (run_once k cb w)"
proof -
  define s where "s = (stats w)\<lparr>run_timer_wheel := run_timer_wheel (stats w) + 1\<rparr>"
  let ?w = "w\<lparr>running := True, stats := s\<rparr>" and ?n = "num_slots w"
  let ?old = "last_runtime w div of_nat ?n" and ?new = "(now w + 1) div of_nat ?n :: u64" and ?l = "unat ((now w + 1) mod of_nat ?n)"
  note g = run_gens [OF w]
  have T62: "T < 2 ^ 62" using w T by (simp add: wheel_ok_def times_ok_def)
  then have lte: "xdp2_seqno_ul_lte (last_runtime w) (now w)" using g(5) T by (subst seqno_nat) auto
  let ?fin = "\<lambda>(count, w'). bind_res (find_next_pop ?new ?l (w'\<lparr>last_runtime := now w,
        stats := (stats w')\<lparr>timer_expires := timer_expires (stats w') + of_nat count\<rparr>\<rparr>)) (\<lambda>w'.
      Ok (if count = 0 then w'\<lparr>stats := (stats w')\<lparr>spurious_run_timer_wheel := spurious_run_timer_wheel (stats w') + 1\<rparr>\<rparr> else w'))"
  have sweep: "wp (\<lambda>(count, w'). progress spared T ?w w' \<and> due T w' = {})
      (bind_res (run_old_gens k cb ?old ?new ?w) (\<lambda>(index, count, w'). run_slots k cb ?new ?old index ?l w' count))"
    using sweep_ok [of ?w T k] w T k by (simp add: due_def)
  have "wp (\<lambda>r. wp (ran spared T (w\<lparr>running := True\<rparr>)) (?fin r))
      (bind_res (run_old_gens k cb ?old ?new ?w) (\<lambda>(index, count, w'). run_slots k cb ?new ?old index ?l w' count))"
  proof (rule wp_mono [OF sweep])
    fix r :: "nat \<times> wheel" assume 2: "case r of (count, w') \<Rightarrow> progress spared T ?w w' \<and> due T w' = {}"
    obtain count w2 where r: "r = (count, w2)" by (cases r)
    have w2: "progress spared T ?w w2" "due T w2 = {}" using 2 r by simp_all
    define s2 where "s2 = (stats w2)\<lparr>timer_expires := timer_expires (stats w2) + of_nat count\<rparr>"
    have ok: "wheel_ok w2" and l: "later ?w w2" and n: "num_slots w2 = ?n" and tn: "T \<le> unat (now w2)"
      using w2(1) T by (auto simp: progress_def later_def)
    let ?w2 = "w2\<lparr>last_runtime := now w, stats := s2\<rparr>"
    have e: "\<exists>w'. find_next_pop ?new ((T + 1) mod num_slots ?w2) ?w2 = Ok w' \<and> wheel_ok w' \<and> pop_in_time T w' \<and> (armed w' \<or> w' = ?w2) \<and>
        (\<exists>e ps. w' = ?w2\<lparr>next_expire_time := e, pops := ps\<rparr>)"
      using ok tn n g(3) T w2(2) by (intro find_next_pop_ok) (auto simp: wheel_ok_def times_ok_def due_def not_le)
    then obtain w' where w': "find_next_pop ?new ?l ?w2 = Ok w'" "wheel_ok w'" "pop_in_time T w'"
      "armed w' \<or> w' = ?w2" "\<exists>e ps. w' = ?w2\<lparr>next_expire_time := e, pops := ps\<rparr>" using n g(4) T by auto
    then obtain e ps where u: "w' = ?w2\<lparr>next_expire_time := e, pops := ps\<rparr>" by blast
    have "due T w' = due T w2" "fate T ?w w' t = fate T ?w w2 t" for t unfolding u by (simp_all add: due_def fate_def)
    moreover have "fate T ?w w' t = fate T (w\<lparr>running := True\<rparr>) w' t" for t by (simp add: fate_def due_def)
    moreover have "running w' = running w2" "run_again w' = run_again w2" "num_slots w' = num_slots w2" "time_units w' = time_units w2" "time_div w' = time_div w2"
      "last_runtime w' = now w" unfolding u by simp_all
    moreover have "armed w'" if "armed (w\<lparr>running := True\<rparr>)" "T < unat (next_expire_time w)"
      using w'(4) l that T by (auto simp: later_def ticks_def armed_def)
    ultimately have "ran spared T (w\<lparr>running := True\<rparr>) w'"
      using w'(2,3) w2 l T by (simp add: ran_def progress_def later_def)
    then show "wp (ran spared T (w\<lparr>running := True\<rparr>)) (?fin r)" by (simp add: r s2_def [symmetric] w'(1))
  qed
  moreover have "run_once k cb w = bind_res (bind_res (run_old_gens k cb ?old ?new ?w)
      (\<lambda>(index, count, w'). run_slots k cb ?new ?old index ?l w' count)) ?fin"
    using lte by (simp add: run_once_def Let_def XDP2_ASSERT_def s_def bind_res_assoc case_prod_unfold)
  ultimately show ?thesis by (simp only: wp_bind)
qed

lemma run_ok:
  assumes w: "wheel_ok w" "\<not> running w" "\<not> run_again w" and T: "T = unat (now w)"
    and k: "num_slots w + card (due T w) < k" "0 < j"
  shows "wp (ran spared T w) (xdp2_run_timer_wheel j k cb w)"
proof -
  obtain j' where j: "j = Suc j'" using k(2) gr0_implies_Suc by blast
  have "wp (\<lambda>w'. \<not> run_again w' \<and> ran spared T w (w'\<lparr>running := False\<rparr>)) (run_once k cb w)"
    by (rule wp_mono [OF run_once_ok [OF w(1) T k(1)]]) (use w in \<open>auto simp: ran_def due_def fate_def pop_in_time_def armed_def\<close>)
  then have "wp (\<lambda>w'. wp (ran spared T w) (if run_again w' then xdp2_run_timer_wheel j' k cb
          (w'\<lparr>run_again := False, running := False,
             stats := (stats w')\<lparr>run_timer_wheel_retries := run_timer_wheel_retries (stats w') + 1\<rparr>\<rparr>)
        else Ok (w'\<lparr>running := False\<rparr>))) (run_once k cb w)"
    by (rule wp_mono) simp
  then show ?thesis using w(2) by (simp add: j)
qed

end

end
