(* ===== verification/Timer_Api.thy ===== *)
theory Timer_Api
  imports Timer_Run
begin

text \<open>
  The timer wheel as its users see it: a map from timers to the times they expire at. The users' calls
  are a datatype, so that a callback can be any sequence of them. The theory interprets
  the contract of callbacks on such sequences and follows a wheel with a timer thread through all
  the steps of its life.
\<close>

section \<open>Calls\<close>

datatype call =
    Add nat u32
  | Add_not_running nat u32
  | Remove nat

primrec do_call :: "call \<Rightarrow> wheel \<Rightarrow> wheel res" where
  "do_call (Add t d) w = xdp2_timer_add w t d"
| "do_call (Add_not_running t d) w = xdp2_timer_add_not_running w t d"
| "do_call (Remove t) w = map_res snd (xdp2_timer_remove w t)"

primrec do_calls :: "call list \<Rightarrow> wheel \<Rightarrow> wheel res" where
  "do_calls [] w = Ok w"
| "do_calls (c # cs) w = bind_res (do_call c w) (do_calls cs)"

primrec target :: "call \<Rightarrow> nat" where
  "target (Add t d) = t"
| "target (Add_not_running t d) = t"
| "target (Remove t) = t"

text \<open>The callbacks that make the calls \<open>acts t\<close> when timer \<open>t\<close> expires, and the timers they leave alone.\<close>

definition calls_of :: "(nat \<Rightarrow> call list) \<Rightarrow> callback" where
  "calls_of acts = (\<lambda>t. do_calls (acts t))"

definition untouched :: "(nat \<Rightarrow> call list) \<Rightarrow> nat \<Rightarrow> bool" where
  "untouched acts t \<longleftrightarrow> (\<forall>u. t \<notin> target ` set (acts u))"

text \<open>The abstract timers.\<close>

definition expiry :: "wheel \<Rightarrow> nat \<rightharpoonup> nat" where
  "expiry w t = (if pending w t then Some (expire w t) else None)"

definition time_of :: "nat \<Rightarrow> u32 \<Rightarrow> nat" where
  "time_of T d = T + (if d = 0 then 1 else unat d)"

primrec spec_call :: "nat \<Rightarrow> call \<Rightarrow> (nat \<rightharpoonup> nat) \<Rightarrow> (nat \<rightharpoonup> nat)" where
  "spec_call T (Add t d) m = m(t \<mapsto> time_of T d)"
| "spec_call T (Add_not_running t d) m = (if t \<in> dom m then m else m(t \<mapsto> time_of T d))"
| "spec_call T (Remove t) m = m(t := None)"

lemma expiry_put_in: "put_in w t e w' \<Longrightarrow> expiry w' = (expiry w)(t \<mapsto> e)"
  by (auto simp: put_in_def expiry_def fun_eq_iff)

lemma expiry_same: "same_run w w' \<Longrightarrow> timers w' = timers w \<Longrightarrow> expiry w' = expiry w"
  by (simp add: expiry_def expire_def same_run_def fun_eq_iff)

text \<open>What a call does: the new map, the timers it keeps, and the pop timer.\<close>

definition call_post :: "call \<Rightarrow> wheel \<Rightarrow> wheel \<Rightarrow> bool" where
  "call_post c w w' \<longleftrightarrow> wheel_ok w' \<and> same_run w w' \<and> later w w' \<and> expiry w' = spec_call (unat (now w)) c (expiry w) \<and>
     (\<forall>u. u \<noteq> target c \<longrightarrow> timers w' u = timers w u) \<and>
     (armed w \<and> (\<forall>t. pending w t \<longrightarrow> unat (next_expire_time w) \<le> expire w t) \<longrightarrow>
      (\<forall>t. pending w' t \<longrightarrow> unat (next_expire_time w') \<le> expire w' t))"

lemma add_post:
  assumes ok: "wheel_ok w" and r: "xdp2_timer_add0 w t d nr = Ok w'" "wheel_ok w'"
    "if pending w t \<and> nr then same_run w w' \<and> timers w' = timers w \<and> last_runtime w' = last_runtime w \<and> next_expire_time w' = next_expire_time w
     else put_in w t (time_of (unat (now w)) d) w' \<and> soon w (time_of (unat (now w)) d) w'"
    and c: "c = (if nr then Add_not_running t d else Add t d)"
  shows "call_post c w w'"
proof (cases "pending w t \<and> nr")
  case True
  have e: "expire w' = expire w" using r(3) True by (auto simp: expire_def same_run_def)
  have "later w w'" using r(3) True e by (simp add: later_def same_run_def ticks_same)
  moreover have "expiry w' = spec_call (unat (now w)) c (expiry w)"
    using True r(3) expiry_same [of w w'] by (auto simp: c expiry_def)
  ultimately show ?thesis using r(2,3) True e by (simp add: call_post_def)
next
  case False
  let ?e = "time_of (unat (now w)) d"
  have p: "put_in w t ?e w'" "soon w ?e w'" using r(3) False by simp_all
  have e: "unat (now w) < ?e" by (simp add: time_of_def unat_gt_0)
  have "expiry w' = spec_call (unat (now w)) c (expiry w)"
    using False expiry_put_in [OF p(1)] by (auto simp: c expiry_def)
  moreover have "unat (next_expire_time w') \<le> expire w' u"
    if "armed w" "\<forall>t. pending w t \<longrightarrow> unat (next_expire_time w) \<le> expire w t" "pending w' u" for u
  proof -
    have "next_expire_time w \<noteq> last_runtime w" "unat (next_expire_time w) < 2 ^ 63" using that(1) by (auto simp: armed_def)
    then have "unat (next_expire_time w') = min (unat (next_expire_time w)) ?e" using p(2) by (simp add: soon_def)
    then show ?thesis using that(2,3) p(1) by (auto simp: put_in_def)
  qed
  ultimately show ?thesis
    using r(2) p put_in_later [OF p ok e] by (auto simp: call_post_def put_in_def c)
qed

lemma do_call_ok:
  assumes "wheel_ok w" shows "\<exists>w'. do_call c w = Ok w' \<and> call_post c w w'"
proof (cases c)
  case (Add t d)
  show ?thesis using timer_add_ok [OF assms, of t d False] add_post [OF assms, of t d False _ c] Add
    by (auto simp: xdp2_timer_add_def time_of_def)
next
  case (Add_not_running t d)
  show ?thesis using timer_add_ok [OF assms, of t d True] add_post [OF assms, of t d True _ c] Add_not_running
    by (auto simp: xdp2_timer_add_not_running_def time_of_def)
next
  case (Remove t)
  obtain w' where w': "xdp2_timer_remove w t = Ok (running w, w')" "wheel_ok w'" "same_run w w'"
    "\<forall>u. pending w' u \<longleftrightarrow> pending w u \<and> u \<noteq> t" "\<forall>u. expire w' u = expire w u" "\<forall>u. u \<noteq> t \<longrightarrow> timers w' u = timers w u"
    "last_runtime w' = last_runtime w" "next_expire_time w' = next_expire_time w"
    using timer_remove_ok [OF assms, of t] by blast
  then have "call_post c w w'"
    by (auto simp: call_post_def Remove expiry_def fun_eq_iff later_def same_run_def ticks_same)
  then show ?thesis using w'(1) by (simp add: Remove)
qed

lemma do_calls_ok:
  assumes "wheel_ok w"
  shows "\<exists>w'. do_calls cs w = Ok w' \<and> wheel_ok w' \<and> same_run w w' \<and> later w w' \<and>
    expiry w' = fold (spec_call (unat (now w))) cs (expiry w) \<and> (\<forall>u. u \<notin> target ` set cs \<longrightarrow> timers w' u = timers w u)"
  using assms
proof (induction cs arbitrary: w)
  case Nil
  then show ?case by (simp add: same_run_def)
next
  case (Cons c cs)
  obtain w1 where w1: "do_call c w = Ok w1" "call_post c w w1" using do_call_ok [OF Cons.prems] by blast
  then have ok: "wheel_ok w1" "now w1 = now w" by (auto simp: call_post_def same_run_def)
  obtain w2 where "do_calls cs w1 = Ok w2" "wheel_ok w2" "same_run w1 w2" "later w1 w2"
    "expiry w2 = fold (spec_call (unat (now w1))) cs (expiry w1)" "\<forall>u. u \<notin> target ` set cs \<longrightarrow> timers w2 u = timers w1 u"
    using Cons.IH [OF ok(1)] by blast
  then show ?case using w1 ok(2) later_trans [of w w1 w2] by (auto simp: call_post_def same_run_def)
qed

interpretation calls: timer_callbacks "calls_of acts" "untouched acts" for acts
proof
  fix w t assume ok: "wheel_ok w"
  obtain w' where w': "do_calls (acts t) w = Ok w'" "wheel_ok w'" "same_run w w'" "later w w'"
    "\<forall>u. u \<notin> target ` set (acts t) \<longrightarrow> timers w' u = timers w u"
    using do_calls_ok [OF ok] by blast
  then show "wp (\<lambda>w'. wheel_ok w' \<and> later w w' \<and> called w' = called w \<and> (\<forall>u. untouched acts u \<longrightarrow> timers w' u = timers w u))
      (calls_of acts t w)"
    by (auto simp: calls_of_def untouched_def same_run_def)
qed

section \<open>A wheel with a timer thread\<close>

lemma pending_count:
  assumes "wheel_ok w" shows "card (due T w) \<le> nat (timer_count w)"
proof -
  have q: "queue_ok w" using assms by (simp add: wheel_ok_def)
  have "due T w \<subseteq> (\<Union>i < num_slots w. set (slots w ! i))" using q by (auto simp: queue_ok_def due_def)
  then have "card (due T w) \<le> card (\<Union>i < num_slots w. set (slots w ! i))" by (intro card_mono) auto
  also have "\<dots> \<le> (\<Sum>i < num_slots w. card (set (slots w ! i)))" by (rule card_UN_le) simp
  also have "\<dots> \<le> (\<Sum>i < num_slots w. length (slots w ! i))" by (intro sum_mono card_length)
  also have "\<dots> = nat (timer_count w)" using q by (simp add: queue_ok_def flip: of_nat_sum)
  finally show ?thesis .
qed

lemma run_calls_ok:
  assumes "wheel_ok w" "\<not> running w" "\<not> run_again w" "num_slots w + nat (timer_count w) < k" "0 < j"
  shows "wp (ran (untouched acts) (unat (now w)) w) (xdp2_run_timer_wheel j k (calls_of acts) w)"
  using calls.run_ok [OF assms(1-3) refl _ assms(5), of k acts] pending_count [OF assms(1), of "unat (now w)"] assms(4) by simp

text \<open>The state of a wheel while its thread waits: the thread sleeps until a time in the future, and no timer
  expires before it.\<close>

definition units_ok :: "wheel \<Rightarrow> bool" where
  "units_ok w \<longleftrightarrow> 0 < time_units w \<and> time_units w \<le> 1000000000 \<and> time_div w = 1000000000 div time_units w"


text \<open>A reading of the clock.\<close>

definition clock_ok :: "u64 \<times> u64 \<Rightarrow> bool" where
  "clock_ok ts \<longleftrightarrow> unat (fst ts) < 2 ^ 31 \<and> unat (snd ts) < 1000000000"





text \<open>The two readings of the clock in one wake-up: the second is not earlier than the first and less than ten
  seconds later.\<close>

definition readings_ok :: "wheel \<Rightarrow> u64 \<times> u64 \<Rightarrow> u64 \<times> u64 \<Rightarrow> bool" where
  "readings_ok w ts ts' \<longleftrightarrow> clock_ok ts \<and> clock_ok ts' \<and> now w \<le> ts_to_time_units w ts \<and>
     ts_to_time_units w ts \<le> ts_to_time_units w ts' \<and> ts_to_time_units w ts' < ten_seconds w ts"

text \<open>The steps in the life of such a wheel. Before the thread takes the mutex for the first time the clock goes
  on and users make calls. The thread starts before any of their timers has expired. Then the clock goes on,
  users make calls, and the thread wakes up; while it runs the wheel, the time stands still and only the callbacks
  make calls.\<close>

inductive before_start :: "wheel \<Rightarrow> wheel \<Rightarrow> bool" for w0 where
  created: "before_start w0 w0"
| clock: "before_start w0 w \<Longrightarrow> now w \<le> c \<Longrightarrow> unat c < 2 ^ 62 \<Longrightarrow> before_start w0 (w\<lparr>now := c\<rparr>)"
| call: "before_start w0 w \<Longrightarrow> do_call c w = Ok w' \<Longrightarrow> before_start w0 w'"

inductive thread_reaches :: "wheel \<Rightarrow> wheel \<Rightarrow> bool" for w0 where
  start: "before_start w0 w \<Longrightarrow> (\<And>t e. expiry w t = Some e \<Longrightarrow> unat (now w) < e) \<Longrightarrow>
    thread_reaches w0 (timer_thread_start w)"
| clock: "thread_reaches w0 w \<Longrightarrow> now w \<le> c \<Longrightarrow> unat c < 2 ^ 62 \<Longrightarrow> thread_reaches w0 (w\<lparr>now := c\<rparr>)"
| call: "thread_reaches w0 w \<Longrightarrow> do_call c w = Ok w' \<Longrightarrow> thread_reaches w0 w'"
| wake: "thread_reaches w0 w \<Longrightarrow> readings_ok w ts ts' \<Longrightarrow>
    num_slots w + nat (timer_count w) < k \<Longrightarrow> 0 < j \<Longrightarrow>
    timer_thread_wait j k (calls_of acts) signaled ts ts' w = Ok w' \<Longrightarrow> thread_reaches w0 w'"

inductive_cases thread_reachesE: "thread_reaches w0 w"

lemma expire_now [simp]: "expire (w\<lparr>now := c\<rparr>) = expire w" "expiry (w\<lparr>now := c\<rparr>) = expiry w"
  by (simp_all add: expire_def expiry_def fun_eq_iff)


lemma wheel_clock:
  assumes "wheel_ok w" "now w \<le> c" "unat c < 2 ^ 62"
  shows "wheel_ok (w\<lparr>now := c\<rparr>)"
  using assms by (auto simp: wheel_ok_def queue_ok_def bitmap_covers_def times_ok_def word_le_nat_alt)






section \<open>New wheels\<close>

text \<open>Memory of zeros for a wheel of \<open>2 ^ order\<close> slots, at time \<open>c\<close>.\<close>

definition zeroed :: "nat \<Rightarrow> u64 \<Rightarrow> wheel" where
  "zeroed order c = \<lparr>num_slots = 0, slot_bitmap = replicate ((2 ^ order + 63) div 64) 0, next_expire_time = 0, last_runtime = 0,
     timer_count = 0, running = False, run_again = False,
     stats = \<lparr>add_timers = 0, add_already_running = 0, remove_timers = 0, change_timers = 0, timer_expires = 0,
       run_timer_wheel = 0, slot_retries = 0, timer_thread_signaled = 0, run_timer_wheel_retries = 0,
       spurious_run_timer_wheel = 0, remove_wheel_running = 0, timer_wheel_same_gen = 0, timer_wheel_next_gen = 0,
       timer_wheel_skip_gens = 0\<rparr>,
     time_units = 0, time_div = 0, slots = [], timers = (\<lambda>t. \<lparr>timer_set = False, timer_gen = 0, timer_index = 0\<rparr>),
     now = c, pops = [], called = []\<rparr>"

lemma created_ok:
  assumes "order < 31" "0 < units" "unat c < 2 ^ 62"
  shows "\<exists>w. xdp2_timer_create_wheel order units (Some (zeroed order c)) = Some w \<and> wheel_ok w \<and> expiry w = Map.empty \<and>
    \<not> running w \<and> \<not> run_again w \<and> now w = c \<and> (units \<le> 1000000000 \<longrightarrow> units_ok w)"
proof -
  have "(2 :: nat) ^ order < 2 ^ 31" using assms(1) by (intro power_strict_increasing) auto
  moreover have "(2 :: nat) ^ order \<le> (2 ^ order + 63) div 64 * 64" by (simp add: div_mult_self_is_m)
  ultimately show ?thesis using assms
    by (auto simp: xdp2_timer_create_wheel_def zeroed_def wheel_ok_def queue_ok_def bitmap_covers_def times_ok_def
      bm_ok_def units_ok_def expiry_def fun_eq_iff)
qed

definition sample_wheel :: wheel where
  "sample_wheel = the (xdp2_timer_create_wheel 2 1000000 (Some (zeroed 2 7)))"

lemma sample_wheel_ok:
  "wheel_ok sample_wheel" "expiry sample_wheel = Map.empty" "\<not> running sample_wheel" "\<not> run_again sample_wheel"
  "now sample_wheel = 7" "units_ok sample_wheel"
  using created_ok [of 2 1000000 7] by (auto simp: sample_wheel_def)

section \<open>The properties of the timer wheel\<close>

text \<open>C33: On a well-formed wheel, at any time below \<open>2 ^ 62\<close>, every sequence of calls at that time that add timers, add them if they do not run, and remove them
  succeeds and keeps the wheel well formed, and the wheel implements a map from timers to expiry times: an
  added timer expires at the time of the call plus its delay, at least one unit, an add of a timer
  that runs changes its time or, conditionally, nothing, and a removed timer is gone.\<close>

theorem timer_calls_refine_map:
  assumes "wheel_ok w"
  shows "\<exists>w'. do_calls cs w = Ok w' \<and> wheel_ok w' \<and> expiry w' = fold (spec_call (unat (now w))) cs (expiry w)"
  using do_calls_ok [OF assms] by blast

theorem timer_calls_refine_map_witness:
  "wheel_ok sample_wheel \<and>
   (\<exists>w'. do_calls [Add 0 5, Add 1 0, Add 0 9, Remove 1] sample_wheel = Ok w' \<and> wheel_ok w' \<and> expiry w' = [0 \<mapsto> 16])"
  using timer_calls_refine_map [OF sample_wheel_ok(1), of "[Add 0 5, Add 1 0, Add 0 9, Remove 1]"] sample_wheel_ok(1)
  by (simp add: sample_wheel_ok time_of_def fun_upd_twist)

text \<open>C32: At any time below \<open>2 ^ 62\<close> a run of the wheel ends and keeps it well formed, whatever timers the callbacks add and remove. A timer that
  the callbacks leave alone is called exactly once and removed if it is due at the time of the
  run, and otherwise is neither called nor changed. No timer that is left is due.\<close>

theorem timer_run_fires_due:
  assumes "wheel_ok w" "\<not> running w" "\<not> run_again w" "num_slots w + nat (timer_count w) < k" "0 < j"
  shows "\<exists>w'. xdp2_run_timer_wheel j k (calls_of acts) w = Ok w' \<and> wheel_ok w' \<and> \<not> running w' \<and>
    (\<forall>t e. expiry w' t = Some e \<longrightarrow> unat (now w) < e) \<and>
    (\<forall>t. untouched acts t \<longrightarrow>
       (if \<exists>e. expiry w t = Some e \<and> e \<le> unat (now w)
        then expiry w' t = None \<and> count_list (called w') t = count_list (called w) t + 1
        else expiry w' t = expiry w t \<and> count_list (called w') t = count_list (called w) t))"
proof -
  let ?T = "unat (now w)"
  obtain w' where w': "xdp2_run_timer_wheel j k (calls_of acts) w = Ok w'" "ran (untouched acts) ?T w w'"
    using run_calls_ok [OF assms] by (auto simp: wp_iff)
  have "if \<exists>e. expiry w t = Some e \<and> e \<le> ?T
      then expiry w' t = None \<and> count_list (called w') t = count_list (called w) t + 1
      else expiry w' t = expiry w t \<and> count_list (called w') t = count_list (called w) t" if "untouched acts t" for t
  proof -
    have f: "fate ?T w w' t" "due ?T w' = {}" "num_slots w' = num_slots w" using w'(2) that by (auto simp: ran_def)
    then show ?thesis by (auto simp: fate_def due_def expiry_def expire_def)
  qed
  moreover have "?T < e" if "expiry w' t = Some e" for t e
    using w'(2) that by (auto simp: ran_def due_def expiry_def not_le split: if_splits)
  ultimately show ?thesis using w' assms(2) by (auto simp: ran_def)
qed

text \<open>One timer is due at the run, one is not, and the callback adds a third.\<close>

theorem timer_run_fires_due_witness:
  "\<exists>w w'. do_calls [Add 0 1, Add 2 50] sample_wheel = Ok w \<and> untouched (\<lambda>t. [Add 1 3]) 0 \<and> untouched (\<lambda>t. [Add 1 3]) 2 \<and>
     xdp2_run_timer_wheel 1 (num_slots w + nat (timer_count w) + 1) (calls_of (\<lambda>t. [Add 1 3])) (w\<lparr>now := 20\<rparr>) = Ok w' \<and>
     expiry w' 0 = None \<and> count_list (called w') 0 = 1 \<and> expiry w' 2 = Some 57 \<and> count_list (called w') 2 = 0"
proof -
  let ?acts = "\<lambda>t. [Add 1 3]"
  obtain w where w: "do_calls [Add 0 1, Add 2 50] sample_wheel = Ok w" "wheel_ok w" "same_run sample_wheel w" "expiry w = [0 \<mapsto> 8, 2 \<mapsto> 57]"
    using do_calls_ok [OF sample_wheel_ok(1), of "[Add 0 1, Add 2 50]"] by (auto simp: sample_wheel_ok time_of_def)
  let ?w = "w\<lparr>now := 20\<rparr>"
  have ok: "wheel_ok ?w" "\<not> running ?w" "\<not> run_again ?w" using w(2,3) wheel_clock [OF w(2), of 20]
    by (simp_all add: same_run_def sample_wheel_ok)
  have k: "num_slots ?w + nat (timer_count ?w) < num_slots w + nat (timer_count w) + 1" by simp
  have e: "expiry ?w = [0 \<mapsto> 8, 2 \<mapsto> 57]" using w(4) by simp
  have c: "called w = []" using w(3) by (simp add: same_run_def sample_wheel_def xdp2_timer_create_wheel_def zeroed_def)
  have u: "untouched ?acts 0" "untouched ?acts 2" by (simp_all add: untouched_def)
  show ?thesis using timer_run_fires_due [OF ok k, of 1 ?acts] w(1) u e c by fastforce
qed





section \<open>A pop that is lost\<close>

lemma clear_find:
  assumes "bm_ok bm 0 n" "\<forall>i < n. \<not> bm_bit (\<lambda>x. x) (bm :: u64 list) 0 i" "pos \<le> lim" "lim \<le> n" "n < 2 ^ 31"
  shows "xdp2_bitmap_find (\<lambda>x. x) bm 0 pos lim = Ok lim"
proof -
  have "find_from (bm_bit (\<lambda>x. x) bm 0) pos lim = lim" using assms by (intro find_from_eqI) auto
  then show ?thesis using host.bitmap_find_ok(1) [of bm 0 lim pos] bm_ok_mono [OF assms(1,4)] assms(3-5) by simp
qed

text \<open>A wheel whose bitmap is clear: no slot is swept, and no pop is asked for.\<close>

definition clear_wheel :: "wheel \<Rightarrow> bool" where
  "clear_wheel w \<longleftrightarrow> wheel_ok w \<and> expiry w = Map.empty \<and> (\<forall>i < num_slots w. \<not> bm_bit (\<lambda>x. x) (slot_bitmap w) 0 i)"

lemma clear_wheel_find:
  assumes "clear_wheel w" "pos \<le> lim" "lim \<le> num_slots w"
  shows "xdp2_bitmap_find (\<lambda>x. x) (slot_bitmap w) 0 pos lim = Ok lim"
  using assms by (intro clear_find [of _ "num_slots w"]) (auto simp: clear_wheel_def wheel_ok_def queue_ok_def bitmap_covers_def)

lemma clear_run_slots:
  assumes "clear_wheel w" "pos \<le> lim" "lim \<le> num_slots w" "slot_bitmap v = slot_bitmap w"
  shows "run_slots (Suc k) cb g og pos lim v count = Ok (count, v)"
  using clear_wheel_find [OF assms(1-3)] assms(4) by (simp add: run_slots_def)

lemma clear_old_gens:
  assumes c: "clear_wheel w" and v: "slot_bitmap v = slot_bitmap w" "num_slots v = num_slots w" "last_runtime v = last_runtime w"
  shows "\<exists>index s. run_old_gens (Suc k) cb (last_runtime w div of_nat (num_slots w)) ((now w + 1) div of_nat (num_slots w)) v =
      Ok (index, 0, v\<lparr>stats := s\<rparr>) \<and> index \<le> unat ((now w + 1) mod of_nat (num_slots w))"
proof -
  let ?L = "unat (last_runtime w)" and ?T = "unat (now w)" and ?n = "num_slots w"
  have ok: "wheel_ok w" using c by (simp add: clear_wheel_def)
  note g = run_gens [OF ok]
  have i: "?L mod ?n \<le> (?T + 1) mod ?n" if "?L div ?n = (?T + 1) div ?n"
    using g(5) div_mult_mod_eq [of ?L ?n] div_mult_mod_eq [of "?T + 1" ?n] unfolding that by linarith
  have r: "run_slots (Suc k) cb g' o' pos ?n v 0 = Ok (0, v)" if "pos \<le> ?n" for g' o' pos
    using clear_run_slots [OF c that order_refl v(1)] .
  have m: "?L mod ?n \<le> ?n" using g(6) by (simp add: less_imp_le)
  show ?thesis
    using i r [OF m] r [of 0] unfolding run_old_gens_def Let_def v(2,3) g(2,4) word_unat_eq_iff [of "_ div _"] g(1,3)
    by auto
qed

lemma clear_run:
  assumes w: "clear_wheel w" "\<not> running w" "\<not> run_again w"
  shows "\<exists>w1. xdp2_run_timer_wheel (Suc j) (Suc k) cb w = Ok w1 \<and> pops w1 = pops w \<and> now w1 = now w \<and>
    last_runtime w1 = now w \<and> next_expire_time w1 = next_expire_time w \<and> expiry w1 = Map.empty \<and>
    (next_expire_time w \<noteq> now w \<longrightarrow> wheel_ok w1)"
proof -
  let ?n = "num_slots w"
  let ?old = "last_runtime w div of_nat ?n" and ?new = "(now w + 1) div of_nat ?n :: u64" and ?l = "unat ((now w + 1) mod of_nat ?n)"
  have ok: "wheel_ok w" and e: "expiry w = Map.empty" using w(1) by (simp_all add: clear_wheel_def)
  note g = run_gens [OF ok]
  have lte: "xdp2_seqno_ul_lte (last_runtime w) (now w)" using ok g(5) by (subst seqno_nat) (auto simp: wheel_ok_def times_ok_def)
  have l: "?l < ?n" unfolding g(4) using g(6) by simp
  define v where "v = w\<lparr>running := True, stats := (stats w)\<lparr>run_timer_wheel := run_timer_wheel (stats w) + 1\<rparr>\<rparr>"
  obtain index s where o: "run_old_gens (Suc k) cb ?old ?new v = Ok (index, 0, v\<lparr>stats := s\<rparr>)" "index \<le> ?l"
    using clear_old_gens [OF w(1), of v k cb] by (auto simp: v_def)
  have r: "run_slots (Suc k) cb ?new ?old index ?l (v\<lparr>stats := s\<rparr>) 0 = Ok (0, v\<lparr>stats := s\<rparr>)"
    using l o(2) by (intro clear_run_slots [OF w(1)]) (simp_all add: v_def)
  have p: "find_next_pop ?new ?l u = Ok u" if "slot_bitmap u = slot_bitmap w" "num_slots u = ?n" for u
    using clear_wheel_find [OF w(1), of ?l ?n] clear_wheel_find [OF w(1), of 0 ?l] l that by (simp add: find_next_pop_def)
  obtain s' where "run_once (Suc k) cb w = Ok (v\<lparr>last_runtime := now w, stats := s'\<rparr>)"
    using lte o(1) r p by (simp add: run_once_def XDP2_ASSERT_def v_def)
  then have "xdp2_run_timer_wheel (Suc j) (Suc k) cb w = Ok (v\<lparr>last_runtime := now w, stats := s', running := False\<rparr>)"
    using w(2,3) by (simp add: v_def)
  moreover have "\<not> pending w t" for t using e by (auto simp: expiry_def fun_eq_iff split: if_splits dest: spec [of _ t])
  ultimately show ?thesis using ok e
    by (auto simp: v_def wheel_ok_def times_ok_def expiry_def fun_eq_iff)
qed

text \<open>While the time of the next pop is before the last run, no call asks for a pop.\<close>

lemma remove_keeps_pop:
  assumes "timer_remove_locked u t = Ok v"
  shows "pops v = pops u \<and> next_expire_time v = next_expire_time u \<and> last_runtime v = last_runtime u"
  using assms by (auto simp: timer_remove_locked_def Let_def XDP2_ASSERT_def bind_res_Ok_iff slot_remove_def unset_if_empty_def
      map_res_bind clear_timer_def split: if_splits)

lemma setup_keeps_pop:
  assumes "add_setup u t e = Ok v"
  shows "pops v = pops u \<and> next_expire_time v = next_expire_time u \<and> last_runtime v = last_runtime u"
  using assms by (auto simp: add_setup_def Let_def bind_res_Ok_iff slot_insert_head_def split: if_splits)

lemma stale_call:
  assumes "wheel_ok w" "unat (next_expire_time w) < unat (last_runtime w)" "do_call c w = Ok w'"
  shows "pops w' = pops w \<and> next_expire_time w' = next_expire_time w \<and> last_runtime w' = last_runtime w"
proof -
  have n: "unat (now w) < 2 ^ 62" "unat (last_runtime w) \<le> unat (now w)" using assms(1) by (auto simp: wheel_ok_def times_ok_def)
  have pop: "add_pop v (now w) (now w + ucast d) = Ok v"
    if "next_expire_time v = next_expire_time w" "last_runtime v = last_runtime w" for v and d :: u32
  proof -
    have "unat (ucast d :: u64) < 2 ^ 32" using unsigned_less [of d, where 'a = nat] by (simp add: unsigned_ucast_eq take_bit_nat_eq_self)
    then have "unat (now w + ucast d) = unat (now w) + unat (ucast d :: u64)" using n(1) by (simp add: unat_word_ariths)
    then have "\<not> xdp2_seqno_ul_lt (now w + ucast d) (next_expire_time w)"
      using n assms(2) \<open>unat (ucast d :: u64) < 2 ^ 32\<close> by (subst seqno_nat) auto
    then show ?thesis using that assms(2) by (auto simp: add_pop_def)
  qed
  then have pop1: "add_pop v (now w) (now w + 1) = Ok v"
    if "next_expire_time v = next_expire_time w" "last_runtime v = last_runtime w" for v
    using that pop [of v 1] by simp
  have add: "pops v = pops w \<and> next_expire_time v = next_expire_time w \<and> last_runtime v = last_runtime w"
    if "xdp2_timer_add0 w t d nr = Ok v" for t d nr v
    using that pop pop1 by (auto simp: xdp2_timer_add0_def Let_def XDP2_ASSERT_def bind_res_Ok_iff dest!: setup_keeps_pop remove_keeps_pop split: if_splits)
  have rem: "pops v = pops w \<and> next_expire_time v = next_expire_time w \<and> last_runtime v = last_runtime w"
    if "map_res snd (xdp2_timer_remove w t) = Ok v" for t v
    using that by (auto simp: xdp2_timer_remove_def Let_def map_res_bind bind_res_Ok_iff dest!: remove_keeps_pop split: if_splits)
  show ?thesis using assms(3) add rem
    by (cases c) (auto simp: xdp2_timer_add_def xdp2_timer_add_not_running_def)
qed

lemma stale_calls:
  assumes "wheel_ok w" "unat (next_expire_time w) < unat (last_runtime w)" "do_calls cs w = Ok w'"
  shows "pops w' = pops w"
  using assms
proof (induction cs arbitrary: w)
  case (Cons c cs)
  obtain w1 where w1: "do_call c w = Ok w1" "call_post c w w1" using do_call_ok [OF Cons.prems(1)] by blast
  then show ?case using stale_call [OF Cons.prems(1,2) w1(1)] Cons.IH [of w1] Cons.prems by (simp add: call_post_def)
qed simp

text \<open>C37: The pop timer of a wheel that its user drives can be lost. When the wheel is run after the time of the next
  pop and has no timer left, the time of the next pop stays before the last run. Whatever calls are made
  then, they put timers into the wheel but ask for no pop, so that nothing runs the wheel when the timers expire.\<close>

theorem timer_late_run_loses_pop:
  assumes "clear_wheel w" "\<not> running w" "\<not> run_again w" "next_expire_time w < now w" "0 < j" "0 < k"
  shows "\<exists>w1. xdp2_run_timer_wheel j k cb w = Ok w1 \<and>
    (\<forall>cs. \<exists>w2. do_calls cs w1 = Ok w2 \<and> expiry w2 = fold (spec_call (unat (now w))) cs Map.empty \<and> pops w2 = pops w)"
proof -
  obtain j' k' where jk: "j = Suc j'" "k = Suc k'" using assms(5,6) by (cases j; cases k) auto
  obtain w1 where w1: "xdp2_run_timer_wheel j k cb w = Ok w1" "pops w1 = pops w" "now w1 = now w" "last_runtime w1 = now w"
    "next_expire_time w1 = next_expire_time w" "expiry w1 = Map.empty" "wheel_ok w1"
    using clear_run [OF assms(1-3), of j' k' cb] assms(4) unfolding jk by auto
  have "\<exists>w2. do_calls cs w1 = Ok w2 \<and> expiry w2 = fold (spec_call (unat (now w))) cs Map.empty \<and> pops w2 = pops w" for cs
    using do_calls_ok [OF w1(7), of cs] stale_calls [OF w1(7), of cs] w1 assms(4) by (auto simp: word_less_nat_alt)
  then show ?thesis using w1(1) by blast
qed

lemma clear_sample:
  "\<exists>w. do_calls [Add 0 1, Remove 0] sample_wheel = Ok w \<and> clear_wheel (w\<lparr>now := 20\<rparr>) \<and> next_expire_time w = 8 \<and> pops w = [8] \<and>
     \<not> running w \<and> \<not> run_again w"
proof -
  obtain w where w: "do_calls [Add 0 1, Remove 0] sample_wheel = Ok w" "wheel_ok w" "same_run sample_wheel w" "expiry w = Map.empty"
    using do_calls_ok [OF sample_wheel_ok(1), of "[Add 0 1, Remove 0]"] by (auto simp: sample_wheel_ok)
  moreover have "slot_bitmap w = [0]" "next_expire_time w = 8" "pops w = [8]" "num_slots w = 4"
    using w(1) by (auto simp: sample_wheel_def xdp2_timer_create_wheel_def zeroed_def xdp2_timer_add_def
        xdp2_timer_add0_def Let_def XDP2_ASSERT_def xdp2_seqno_ul_gt_def xdp2_seqno_ul_lt_def add_setup_def slot_insert_head_def
        xdp2_bitmap_set_def xdp2_bitmap_unset_def rd_word_def wr_word_def word_index_def add_pop_def set_next_timer_pop_def
        slot_remove_def clear_timer_def unset_if_empty_def xdp2_timer_remove_def timer_remove_locked_def)
  moreover have "wheel_ok (w\<lparr>now := 20\<rparr>)" using w(2,3) by (intro wheel_clock) (simp_all add: same_run_def sample_wheel_ok)
  ultimately show ?thesis
    by (auto simp: clear_wheel_def same_run_def sample_wheel_ok bm_bit_def word_index_def less_Suc_eq numeral_eq_Suc)
qed

text \<open>A timer is added and removed, and the pop for it comes late.\<close>

theorem timer_late_run_loses_pop_witness:
  "\<exists>w w1 w2. do_calls [Add 0 1, Remove 0] sample_wheel = Ok w \<and> pops w = [8] \<and>
     xdp2_run_timer_wheel 1 1 (calls_of (\<lambda>t. [])) (w\<lparr>now := 20\<rparr>) = Ok w1 \<and>
     do_calls [Add 1 1] w1 = Ok w2 \<and> expiry w2 = [1 \<mapsto> 21] \<and> pops w2 = [8]"
proof -
  obtain w where w: "do_calls [Add 0 1, Remove 0] sample_wheel = Ok w" "clear_wheel (w\<lparr>now := 20\<rparr>)" "next_expire_time w = 8"
    "pops w = [8]" "\<not> running w" "\<not> run_again w" using clear_sample by blast
  obtain w1 where w1: "xdp2_run_timer_wheel 1 1 (calls_of (\<lambda>t. [])) (w\<lparr>now := 20\<rparr>) = Ok w1"
    "\<forall>cs. \<exists>w2. do_calls cs w1 = Ok w2 \<and> expiry w2 = fold (spec_call 20) cs Map.empty \<and> pops w2 = pops w"
    using timer_late_run_loses_pop [OF w(2), of 1 1 "calls_of (\<lambda>t. [])"] w by auto
  then obtain w2 where "do_calls [Add 1 1] w1 = Ok w2" "expiry w2 = [1 \<mapsto> 21]" "pops w2 = [8]"
    using w(4) by (auto simp: time_of_def dest!: spec [of _ "[Add 1 1]"])
  then show ?thesis using w w1(1) by blast
qed

end
