(* ===== verification/Crc.thy ===== *)
theory Crc
  imports Le_Words
begin

text \<open>
  The cyclic redundancy checks of \<open>src/lib/crc\<close>: CRC-64 and the slice-by-eight routines of \<open>crcspeed.c\<close>
  that it uses, CRC-32C in software, and CRC-16. A table is a function of the slice and the
  byte, the second index of the C array, which the code always cuts to eight bits. The machine is
  little-endian; the routines for big-endian machines are not modelled.
\<close>

section \<open>Bit by bit\<close>

text \<open>The reference: one bit, and one byte, of a reflected CRC with the polynomial \<open>P\<close>.\<close>

definition crc_bit :: "'w::len word \<Rightarrow> 'w word \<Rightarrow> 'w word" where
  "crc_bit P x = (if bit x 0 then drop_bit 1 x XOR P else drop_bit 1 x)"

definition crc_byte :: "'w::len word \<Rightarrow> 'w word \<Rightarrow> 'w word" where
  "crc_byte P x = (crc_bit P ^^ 8) x"

definition crc_ref :: "'w::len word \<Rightarrow> 'w word \<Rightarrow> u8 list \<Rightarrow> 'w word" where
  "crc_ref P crc bs = foldl (\<lambda>c b. crc_byte P (c XOR ucast b)) crc bs"

section \<open>CRC-64\<close>

definition CRC64_POLY :: u64 where
  "CRC64_POLY = 0xad93d23594c935a9"

primrec reflect_loop :: "nat \<Rightarrow> u64 \<Rightarrow> u64 \<Rightarrow> u64" where
  "reflect_loop 0 data ret = ret"
| "reflect_loop (Suc n) data ret =
     (let data = drop_bit 1 data in reflect_loop n data (push_bit 1 ret OR (data AND 1)))"

definition crc_reflect :: "u64 \<Rightarrow> nat \<Rightarrow> u64" where
  "crc_reflect data data_len = reflect_loop (data_len - 1) data (data AND 1)"

definition crc64_bit :: "u8 \<Rightarrow> u64 \<Rightarrow> u8 \<Rightarrow> u64" where
  "crc64_bit c crc i =
     (let b = crc AND 0x8000000000000000;
          b = (if c AND i \<noteq> 0 then if b = 0 then 1 else 0 else b);
          crc = push_bit 1 crc
      in if b \<noteq> 0 then crc XOR CRC64_POLY else crc)"

definition crc64_bitwise :: "u64 \<Rightarrow> u8 list \<Rightarrow> u64" where
  "crc64_bitwise crc data =
     crc_reflect (foldl (\<lambda>crc c. foldl (crc64_bit c) crc (map (\<lambda>j. push_bit j 1) [0..<8])) crc data) 64"

type_synonym 'w table = "nat \<Rightarrow> u8 \<Rightarrow> 'w word"

definition all_bytes :: "u8 list" where
  "all_bytes = map of_nat [0..<256]"

definition set_entry :: "nat \<Rightarrow> u8 \<Rightarrow> 'w::len word \<Rightarrow> 'w table \<Rightarrow> 'w table" where
  "set_entry k n v t = t(k := (t k)(n := v))"

text \<open>The loop over the slices of one byte, which the tables share; \<open>nxt\<close> is the lookup in slice 0.\<close>

primrec slices :: "('w::len table \<Rightarrow> 'w word \<Rightarrow> 'w word) \<Rightarrow> nat list \<Rightarrow> u8 \<Rightarrow> 'w word \<Rightarrow> 'w table \<Rightarrow> 'w table" where
  "slices nxt [] n crc t = t"
| "slices nxt (k # ks) n crc t =
     (let crc = nxt t crc in slices nxt ks n crc (set_entry k n crc t))"

definition next_low :: "'w::len table \<Rightarrow> 'w word \<Rightarrow> 'w word" where
  "next_low t crc = t 0 (ucast crc) XOR drop_bit 8 crc"

definition crcspeed64little_init :: "(u64 \<Rightarrow> u8 list \<Rightarrow> u64) \<Rightarrow> 64 table \<Rightarrow> 64 table" where
  "crcspeed64little_init crcfn t =
     (let t = fold (\<lambda>n. set_entry 0 n (crcfn 0 [n])) all_bytes t
      in fold (\<lambda>n t. slices next_low [1..<8] n (t 0 n) t) all_bytes t)"

text \<open>The loops over the buffer \<open>p\<close>, whose address is \<open>base\<close>; \<open>off\<close> is the offset of \<open>next\<close>.\<close>

definition byte_step :: "'w::len table \<Rightarrow> 'w word \<Rightarrow> u8 \<Rightarrow> 'w word" where
  "byte_step t crc b = t 0 (ucast (crc XOR ucast b)) XOR drop_bit 8 crc"

primrec crc_head :: "('w::len word \<Rightarrow> u8 \<Rightarrow> 'w word) \<Rightarrow> packet \<Rightarrow> nat \<Rightarrow> nat \<Rightarrow> nat \<Rightarrow> 'w word \<Rightarrow> ('w word \<times> nat \<times> nat) res" where
  "crc_head f p base 0 off crc = Ok (crc, off, 0)"
| "crc_head f p base (Suc len) off crc =
     (if (base + off) mod 8 \<noteq> 0
      then bind_res (rd8 p off) (\<lambda>b. crc_head f p base len (off + 1) (f crc b))
      else Ok (crc, off, Suc len))"

primrec crc_tail :: "('w::len word \<Rightarrow> u8 \<Rightarrow> 'w word) \<Rightarrow> packet \<Rightarrow> nat \<Rightarrow> nat \<Rightarrow> 'w word \<Rightarrow> 'w word res" where
  "crc_tail f p 0 off crc = Ok crc"
| "crc_tail f p (Suc len) off crc = bind_res (rd8 p off) (\<lambda>b. crc_tail f p len (off + 1) (f crc b))"

text \<open>The eight lookups of one step.\<close>

definition slice8 :: "(nat \<Rightarrow> u8 \<Rightarrow> 'w::len word) \<Rightarrow> u64 \<Rightarrow> 'w word" where
  "slice8 t w = t 7 (ucast w) XOR t 6 (ucast (drop_bit 8 w)) XOR t 5 (ucast (drop_bit 16 w)) XOR
     t 4 (ucast (drop_bit 24 w)) XOR t 3 (ucast (drop_bit 32 w)) XOR t 2 (ucast (drop_bit 40 w)) XOR
     t 1 (ucast (drop_bit 48 w)) XOR t 0 (ucast (drop_bit 56 w))"

function crc64_words :: "64 table \<Rightarrow> packet \<Rightarrow> nat \<Rightarrow> nat \<Rightarrow> u64 \<Rightarrow> (u64 \<times> nat \<times> nat) res" where
  "crc64_words t p len off crc =
     (if len \<ge> 8 then bind_res (rd64 p off) (\<lambda>w. crc64_words t p (len - 8) (off + 8) (slice8 t (crc XOR w)))
      else Ok (crc, off, len))"
  by pat_completeness auto
termination by (relation "measure (\<lambda>(t, p, len, off, crc). len)") auto

declare crc64_words.simps [simp del]

definition crcspeed64little :: "64 table \<Rightarrow> u64 \<Rightarrow> packet \<Rightarrow> nat \<Rightarrow> nat \<Rightarrow> u64 res" where
  "crcspeed64little t crc p base len =
     bind_res (crc_head (byte_step t) p base len 0 crc) (\<lambda>(crc, off, len).
     bind_res (crc64_words t p len off crc) (\<lambda>(crc, off, len).
     crc_tail (byte_step t) p len off crc))"

text \<open>\<open>crc64_table\<close> starts as zeros.\<close>

definition crc64_init :: "64 table" where
  "crc64_init = crcspeed64little_init crc64_bitwise (\<lambda>k n. 0)"

definition crc64 :: "u64 \<Rightarrow> packet \<Rightarrow> nat \<Rightarrow> nat \<Rightarrow> u64 res" where
  "crc64 crc p base len = crcspeed64little crc64_init crc p base len"

section \<open>CRC-32C\<close>

definition CRC32C_POLY :: u32 where
  "CRC32C_POLY = 0x82f63b78"

definition crc32c_shift :: "u32 \<Rightarrow> u32" where
  "crc32c_shift crc = (if crc AND 1 \<noteq> 0 then drop_bit 1 crc XOR CRC32C_POLY else drop_bit 1 crc)"

definition crc32c_init_sw_little :: "32 table \<Rightarrow> 32 table" where
  "crc32c_init_sw_little t =
     (let t = fold (\<lambda>n. set_entry 0 n
            (crc32c_shift (crc32c_shift (crc32c_shift (crc32c_shift
            (crc32c_shift (crc32c_shift (crc32c_shift (crc32c_shift (ucast n)))))))))) all_bytes t
      in fold (\<lambda>n t. slices next_low [1..<8] n (t 0 n) t) all_bytes t)"

function crc32c_words :: "32 table \<Rightarrow> packet \<Rightarrow> nat \<Rightarrow> nat \<Rightarrow> u64 \<Rightarrow> (u64 \<times> nat \<times> nat) res" where
  "crc32c_words t p len off crcw =
     bind_res (rd64 p off) (\<lambda>w.
     let crcw = slice8 (\<lambda>k n. ucast (t k n)) (crcw XOR w);
         off = off + 8;
         len = len - 8
     in if len \<ge> 8 then crc32c_words t p len off crcw else Ok (crcw, off, len))"
  by pat_completeness auto
termination by (relation "measure (\<lambda>(t, p, len, off, crcw). len)") auto

declare crc32c_words.simps [simp del]

definition crc32c_sw_little :: "u32 \<Rightarrow> packet \<Rightarrow> nat \<Rightarrow> nat \<Rightarrow> u32 res" where
  "crc32c_sw_little crc p base len =
     (let t = crc32c_init_sw_little (\<lambda>k n. 0)
      in bind_res (crc_head (byte_step t) p base len 0 (NOT crc)) (\<lambda>(crc, off, len).
         bind_res (if len \<ge> 8 then map_res (\<lambda>(crcw, off, len). (ucast crcw, off, len)) (crc32c_words t p len off (ucast crc))
                   else Ok (crc, off, len)) (\<lambda>(crc, off, len).
         map_res (\<lambda>crc. NOT crc) (crc_tail (byte_step t) p len off crc))))"

definition crc32c_sw :: "u32 \<Rightarrow> packet \<Rightarrow> nat \<Rightarrow> nat \<Rightarrow> u32 res" where
  "crc32c_sw crc p base len = crc32c_sw_little crc p base len"

section \<open>CRC-16\<close>

text \<open>The reference for a CRC that is not reflected.\<close>

definition fwd_bit :: "u16 \<Rightarrow> u16 \<Rightarrow> u16" where
  "fwd_bit P x = (if bit x 15 then push_bit 1 x XOR P else push_bit 1 x)"

definition fwd_byte :: "u16 \<Rightarrow> u16 \<Rightarrow> u16" where
  "fwd_byte P x = (fwd_bit P ^^ 8) x"

definition fwd_ref :: "u16 \<Rightarrow> u16 \<Rightarrow> u8 list \<Rightarrow> u16" where
  "fwd_ref P crc bs = foldl (\<lambda>c b. fwd_byte P (c XOR push_bit 8 (ucast b))) crc bs"

definition next_high :: "16 table \<Rightarrow> u16 \<Rightarrow> u16" where
  "next_high t crc = t 0 (ucast (drop_bit 8 crc)) XOR push_bit 8 crc"

definition crcspeed16little_init :: "(u16 \<Rightarrow> u8 list \<Rightarrow> u16) \<Rightarrow> 16 table \<Rightarrow> 16 table" where
  "crcspeed16little_init crcfn t =
     (let t = fold (\<lambda>n. set_entry 0 n (crcfn 0 [n])) all_bytes t
      in fold (\<lambda>n t. slices next_high [1..<8] n (t 0 n) t) all_bytes t)"

definition byte_step16 :: "16 table \<Rightarrow> u16 \<Rightarrow> u8 \<Rightarrow> u16" where
  "byte_step16 t crc b = t 0 (ucast (drop_bit 8 crc XOR ucast b)) XOR push_bit 8 crc"

definition slice8_16 :: "16 table \<Rightarrow> u16 \<Rightarrow> u64 \<Rightarrow> u16" where
  "slice8_16 t crc n = t 7 (ucast n XOR ucast (drop_bit 8 crc)) XOR t 6 (ucast (drop_bit 8 n) XOR ucast crc) XOR
     t 5 (ucast (drop_bit 16 n)) XOR t 4 (ucast (drop_bit 24 n)) XOR t 3 (ucast (drop_bit 32 n)) XOR
     t 2 (ucast (drop_bit 40 n)) XOR t 1 (ucast (drop_bit 48 n)) XOR t 0 (ucast (drop_bit 56 n))"

function crc16_words :: "16 table \<Rightarrow> packet \<Rightarrow> nat \<Rightarrow> nat \<Rightarrow> u16 \<Rightarrow> (u16 \<times> nat \<times> nat) res" where
  "crc16_words t p len off crc =
     (if len \<ge> 8 then bind_res (rd64 p off) (\<lambda>n. crc16_words t p (len - 8) (off + 8) (slice8_16 t crc n))
      else Ok (crc, off, len))"
  by pat_completeness auto
termination by (relation "measure (\<lambda>(t, p, len, off, crc). len)") auto

declare crc16_words.simps [simp del]

definition crcspeed16little :: "16 table \<Rightarrow> u16 \<Rightarrow> packet \<Rightarrow> nat \<Rightarrow> nat \<Rightarrow> u16 res" where
  "crcspeed16little t crc p base len =
     bind_res (crc_head (byte_step16 t) p base len 0 crc) (\<lambda>(crc, off, len).
     bind_res (crc16_words t p len off crc) (\<lambda>(crc, off, len).
     crc_tail (byte_step16 t) p len off crc))"

definition crc16tab :: "u16 list" where
  "crc16tab = [
     0x0000, 0x1021, 0x2042, 0x3063, 0x4084, 0x50a5, 0x60c6, 0x70e7,
     0x8108, 0x9129, 0xa14a, 0xb16b, 0xc18c, 0xd1ad, 0xe1ce, 0xf1ef,
     0x1231, 0x0210, 0x3273, 0x2252, 0x52b5, 0x4294, 0x72f7, 0x62d6,
     0x9339, 0x8318, 0xb37b, 0xa35a, 0xd3bd, 0xc39c, 0xf3ff, 0xe3de,
     0x2462, 0x3443, 0x0420, 0x1401, 0x64e6, 0x74c7, 0x44a4, 0x5485,
     0xa56a, 0xb54b, 0x8528, 0x9509, 0xe5ee, 0xf5cf, 0xc5ac, 0xd58d,
     0x3653, 0x2672, 0x1611, 0x0630, 0x76d7, 0x66f6, 0x5695, 0x46b4,
     0xb75b, 0xa77a, 0x9719, 0x8738, 0xf7df, 0xe7fe, 0xd79d, 0xc7bc,
     0x48c4, 0x58e5, 0x6886, 0x78a7, 0x0840, 0x1861, 0x2802, 0x3823,
     0xc9cc, 0xd9ed, 0xe98e, 0xf9af, 0x8948, 0x9969, 0xa90a, 0xb92b,
     0x5af5, 0x4ad4, 0x7ab7, 0x6a96, 0x1a71, 0x0a50, 0x3a33, 0x2a12,
     0xdbfd, 0xcbdc, 0xfbbf, 0xeb9e, 0x9b79, 0x8b58, 0xbb3b, 0xab1a,
     0x6ca6, 0x7c87, 0x4ce4, 0x5cc5, 0x2c22, 0x3c03, 0x0c60, 0x1c41,
     0xedae, 0xfd8f, 0xcdec, 0xddcd, 0xad2a, 0xbd0b, 0x8d68, 0x9d49,
     0x7e97, 0x6eb6, 0x5ed5, 0x4ef4, 0x3e13, 0x2e32, 0x1e51, 0x0e70,
     0xff9f, 0xefbe, 0xdfdd, 0xcffc, 0xbf1b, 0xaf3a, 0x9f59, 0x8f78,
     0x9188, 0x81a9, 0xb1ca, 0xa1eb, 0xd10c, 0xc12d, 0xf14e, 0xe16f,
     0x1080, 0x00a1, 0x30c2, 0x20e3, 0x5004, 0x4025, 0x7046, 0x6067,
     0x83b9, 0x9398, 0xa3fb, 0xb3da, 0xc33d, 0xd31c, 0xe37f, 0xf35e,
     0x02b1, 0x1290, 0x22f3, 0x32d2, 0x4235, 0x5214, 0x6277, 0x7256,
     0xb5ea, 0xa5cb, 0x95a8, 0x8589, 0xf56e, 0xe54f, 0xd52c, 0xc50d,
     0x34e2, 0x24c3, 0x14a0, 0x0481, 0x7466, 0x6447, 0x5424, 0x4405,
     0xa7db, 0xb7fa, 0x8799, 0x97b8, 0xe75f, 0xf77e, 0xc71d, 0xd73c,
     0x26d3, 0x36f2, 0x0691, 0x16b0, 0x6657, 0x7676, 0x4615, 0x5634,
     0xd94c, 0xc96d, 0xf90e, 0xe92f, 0x99c8, 0x89e9, 0xb98a, 0xa9ab,
     0x5844, 0x4865, 0x7806, 0x6827, 0x18c0, 0x08e1, 0x3882, 0x28a3,
     0xcb7d, 0xdb5c, 0xeb3f, 0xfb1e, 0x8bf9, 0x9bd8, 0xabbb, 0xbb9a,
     0x4a75, 0x5a54, 0x6a37, 0x7a16, 0x0af1, 0x1ad0, 0x2ab3, 0x3a92,
     0xfd2e, 0xed0f, 0xdd6c, 0xcd4d, 0xbdaa, 0xad8b, 0x9de8, 0x8dc9,
     0x7c26, 0x6c07, 0x5c64, 0x4c45, 0x3ca2, 0x2c83, 0x1ce0, 0x0cc1,
     0xef1f, 0xff3e, 0xcf5d, 0xdf7c, 0xaf9b, 0xbfba, 0x8fd9, 0x9ff8,
     0x6e17, 0x7e36, 0x4e55, 0x5e74, 0x2e93, 0x3eb2, 0x0ed1, 0x1ef0]"

text \<open>A \<open>char\<close> is signed; the sign bits that it brings along are masked off again.\<close>

definition crc16_step :: "u16 \<Rightarrow> u8 \<Rightarrow> u16" where
  "crc16_step crc c =
     ucast (push_bit 8 (ucast crc :: u32) XOR
            ucast (crc16tab ! unat ((drop_bit 8 (ucast crc :: u32) XOR scast c) AND 0x00FF)))"

definition crc16 :: "packet \<Rightarrow> int \<Rightarrow> u16 res" where
  "crc16 buf len = crc_tail crc16_step buf (nat len) 0 0"

section \<open>Slices of a linear step\<close>

text \<open>Slice \<open>k\<close> holds what a byte becomes after \<open>k + 1\<close> steps.\<close>

definition table_ok :: "('w::len word \<Rightarrow> 'w word) \<Rightarrow> (u8 \<Rightarrow> 'w word) \<Rightarrow> 'w table \<Rightarrow> bool" where
  "table_ok f e t \<longleftrightarrow> (\<forall>k<8. \<forall>n. t k n = (f ^^ Suc k) (e n))"

lemma set_all_bytes [simp]: "set all_bytes = UNIV"
proof -
  have "n \<in> set all_bytes" for n :: u8
    using unsigned_less [of n, where 'a = nat] image_eqI [of n of_nat "unat n" "{0..<256}"]
    by (simp add: all_bytes_def)
  then show ?thesis by auto
qed

lemma fold_set_entry:
  "fold (\<lambda>n. set_entry k n (g n)) ns t = t(k := (\<lambda>n. if n \<in> set ns then g n else t k n))"
  by (induction ns arbitrary: t) (auto simp: set_entry_def fun_eq_iff)

text \<open>
  What slicing by eight relies on: the step of a byte is linear, the byte enters linearly, and
  the step splits into that of one byte of the register, which the table holds, and a shift.
\<close>

locale crc_steps =
  fixes f :: "'w::len word \<Rightarrow> 'w word" and e :: "u8 \<Rightarrow> 'w word"
    and sel :: "'w word \<Rightarrow> u8" and sh :: "'w word \<Rightarrow> 'w word"
  assumes f_xor: "f (x XOR y) = f x XOR f y"
    and e_xor: "e (a XOR b) = e a XOR e b"
    and f_split: "f x = f (e (sel x)) XOR sh x"
begin

lemma f_zero: "f 0 = 0"
  using f_xor [of 0 0] by simp

lemma pow_xor: "(f ^^ n) (x XOR y) = (f ^^ n) x XOR (f ^^ n) y"
  by (induction n) (simp_all add: f_xor)

lemma foldl_xor:
  "foldl (\<lambda>c b. f (c XOR e b)) (x XOR y) bs =
     (f ^^ length bs) x XOR foldl (\<lambda>c b. f (c XOR e b)) y bs"
proof (induction bs arbitrary: x y)
  case (Cons b bs)
  have "f ((x XOR y) XOR e b) = f x XOR f (y XOR e b)" by (simp add: f_xor xor.assoc)
  then show ?case by (simp add: Cons.IH funpow_swap1)
qed simp

lemma foldl_split:
  "foldl (\<lambda>c b. f (c XOR e b)) c (b # bs) =
     (f ^^ Suc (length bs)) (e (sel c XOR b)) XOR foldl (\<lambda>c b. f (c XOR e b)) (sh c) bs"
proof -
  have "f (c XOR e b) = f (e (sel c XOR b)) XOR sh c"
    by (simp add: f_xor e_xor f_split [of c] xor.assoc xor.commute [of "sh c"])
  then show ?thesis by (simp add: foldl_xor funpow_swap1)
qed

lemma slices_val:
  assumes nxt: "\<And>t c. nxt t c = t 0 (sel c) XOR sh c" and t0: "t 0 = (\<lambda>n. f (e n))" and pos: "0 < k"
  shows "slices nxt [k..<k + m] n crc t =
    (\<lambda>j. if k \<le> j \<and> j < k + m then (t j)(n := (f ^^ Suc (j - k)) crc) else t j)"
  using t0 pos
proof (induction m arbitrary: k crc t)
  case (Suc m)
  have c: "nxt t crc = f crc" using Suc.prems(1) by (simp add: nxt f_split [of crc])
  have "[k..<k + Suc m] = k # [Suc k..<Suc k + m]" by (simp add: upt_rec)
  moreover have "set_entry k n (f crc) t 0 = (\<lambda>n. f (e n))" using Suc.prems by (simp add: set_entry_def)
  ultimately have "slices nxt [k..<k + Suc m] n crc t =
      (\<lambda>j. if Suc k \<le> j \<and> j < Suc k + m
           then (set_entry k n (f crc) t j)(n := (f ^^ Suc (j - Suc k)) (f crc)) else set_entry k n (f crc) t j)"
    by (simp only: slices.simps Let_def c Suc.IH [OF _ zero_less_Suc])
  moreover have "(f ^^ Suc (j - Suc k)) (f crc) = (f ^^ Suc (j - k)) crc" if "Suc k \<le> j" for j
    using that by (auto simp: le_iff_add funpow_swap1)
  ultimately show ?case
    by (auto simp: fun_eq_iff set_entry_def not_less_eq_eq le_antisym simp del: upt_Suc)
qed (auto simp: fun_eq_iff)

lemma fold_slices:
  assumes nxt: "\<And>t c. nxt t c = t 0 (sel c) XOR sh c" and t0: "t 0 = (\<lambda>n. f (e n))"
  shows "fold (\<lambda>n t. slices nxt [1..<8] n (t 0 n) t) ns t =
    (\<lambda>k n. if 1 \<le> k \<and> k < 8 \<and> n \<in> set ns then (f ^^ Suc k) (e n) else t k n)"
  using t0
proof (induction ns arbitrary: t)
  case (Cons m ns)
  let ?t = "\<lambda>j. if 1 \<le> j \<and> j < 8 then (t j)(m := (f ^^ Suc j) (e m)) else t j"
  have pow: "(f ^^ Suc (j - 1)) (f (e m)) = (f ^^ Suc j) (e m)" if "1 \<le> j" for j
    using that by (cases j) (simp_all add: funpow_swap1)
  have "slices nxt [1..<8] m (t 0 m) t = ?t"
    using slices_val [of nxt t 1 7 m "t 0 m", OF nxt Cons.prems] pow
    by (auto simp: Cons.prems fun_eq_iff simp del: funpow.simps)
  moreover have "?t 0 = (\<lambda>n. f (e n))" using Cons.prems by simp
  ultimately have "fold (\<lambda>n t. slices nxt [1..<8] n (t 0 n) t) (m # ns) t =
      (\<lambda>k n. if 1 \<le> k \<and> k < 8 \<and> n \<in> set ns then (f ^^ Suc k) (e n) else ?t k n)"
    by (simp only: fold_simps Cons.IH)
  then show ?case by (simp only: fun_eq_iff) (auto simp del: funpow.simps)
qed (simp add: fun_eq_iff)

lemma table_init:
  assumes "\<And>t c. nxt t c = t 0 (sel c) XOR sh c" "\<And>n. g n = f (e n)"
  shows "table_ok f e (let t = fold (\<lambda>n. set_entry 0 n (g n)) all_bytes t
    in fold (\<lambda>n t. slices nxt [1..<8] n (t 0 n) t) all_bytes t)"
proof -
  have "fold (\<lambda>n. set_entry 0 n (g n)) all_bytes t = t(0 := (\<lambda>n. f (e n)))"
    by (simp add: fold_set_entry assms(2))
  then show ?thesis
    using fold_slices [of nxt "t(0 := (\<lambda>n. f (e n)))" all_bytes] assms(1)
    by (auto simp: table_ok_def not_less_eq_eq)
qed

lemma byte_val:
  assumes "table_ok f e t"
  shows "t 0 (sel c XOR b) XOR sh c = f (c XOR e b)"
  using assms by (simp add: table_ok_def f_xor e_xor f_split [of c] xor.assoc xor.commute [of "sh c"])

lemma eight_bytes:
  assumes t: "table_ok f e t" and out: "(sh ^^ 8) c = 0"
  shows "foldl (\<lambda>c b. f (c XOR e b)) c [b0, b1, b2, b3, b4, b5, b6, b7] =
    t 7 (sel c XOR b0) XOR t 6 (sel ((sh ^^ 1) c) XOR b1) XOR t 5 (sel ((sh ^^ 2) c) XOR b2) XOR
    t 4 (sel ((sh ^^ 3) c) XOR b3) XOR t 3 (sel ((sh ^^ 4) c) XOR b4) XOR t 2 (sel ((sh ^^ 5) c) XOR b5) XOR
    t 1 (sel ((sh ^^ 6) c) XOR b6) XOR t 0 (sel ((sh ^^ 7) c) XOR b7)"
proof -
  have tk: "t k n = (f ^^ Suc k) (e n)" if "k < 8" for k n using t that by (simp add: table_ok_def)
  have "foldl (\<lambda>c b. f (c XOR e b)) ((sh ^^ 8) c) [] = 0" using out by simp
  then show ?thesis unfolding foldl_split by (simp add: tk eval_nat_numeral)
qed

end

section \<open>The steps of the three checks\<close>

lemma crc_bit_xor: "crc_bit P (x XOR y) = crc_bit P x XOR crc_bit P y"
  by (auto simp: crc_bit_def bit_xor_iff drop_bit_xor ac_simps)

lemma crc_bit_pow_xor: "(crc_bit P ^^ k) (x XOR y) = (crc_bit P ^^ k) x XOR (crc_bit P ^^ k) y"
  by (induction k) (simp_all add: crc_bit_xor)

lemma crc_bit_pow_shift: "(\<forall>i<k. \<not> bit x i) \<Longrightarrow> (crc_bit P ^^ k) x = drop_bit k x"
  by (induction k) (auto simp: crc_bit_def bit_drop_bit_eq drop_bit_drop_bit)

lemma crc_byte_split: "crc_byte P x = crc_byte P (ucast (ucast x :: u8)) XOR drop_bit 8 x"
proof -
  let ?hi = "push_bit 8 (drop_bit 8 x)"
  have "x = ucast (ucast x :: u8) XOR ?hi"
    by (rule bit_word_eqI) (auto simp: bit_xor_iff bit_ucast_iff bit_push_bit_iff bit_drop_bit_eq)
  moreover have "(crc_bit P ^^ 8) ?hi = drop_bit 8 ?hi"
    by (rule crc_bit_pow_shift) (simp add: bit_push_bit_iff)
  moreover have "drop_bit 8 ?hi = drop_bit 8 x"
    by (rule bit_word_eqI) (auto simp: bit_push_bit_iff bit_drop_bit_eq dest: bit_imp_le_length)
  ultimately show ?thesis unfolding crc_byte_def by (metis crc_bit_pow_xor)
qed

interpretation low: crc_steps "crc_byte P" ucast ucast "drop_bit 8" for P
proof
  show "crc_byte P (x XOR y) = crc_byte P x XOR crc_byte P y" for x y
    by (simp add: crc_byte_def crc_bit_pow_xor)
  show "ucast (a XOR b) = (ucast a XOR ucast b :: 'a word)" for a b :: u8
    by (rule bit_word_eqI) (simp add: bit_ucast_iff bit_xor_iff)
qed (rule crc_byte_split)

lemma fwd_bit_xor: "fwd_bit P (x XOR y) = fwd_bit P x XOR fwd_bit P y"
  by (auto simp: fwd_bit_def bit_xor_iff push_bit_xor ac_simps)

lemma fwd_bit_pow_xor: "(fwd_bit P ^^ k) (x XOR y) = (fwd_bit P ^^ k) x XOR (fwd_bit P ^^ k) y"
  by (induction k) (simp_all add: fwd_bit_xor)

lemma fwd_bit_pow_shift: "(\<forall>i\<ge>16 - k. \<not> bit x i) \<Longrightarrow> (fwd_bit P ^^ k) x = push_bit k x"
proof (induction k)
  case (Suc k)
  then have "(fwd_bit P ^^ k) x = push_bit k x" by simp
  moreover have "\<not> bit (push_bit k x) 15" using Suc.prems by (auto simp: bit_push_bit_iff)
  ultimately have "(fwd_bit P ^^ Suc k) x = push_bit 1 (push_bit k x)" by (simp add: fwd_bit_def [of P "push_bit k x"])
  then show ?case by (simp only: push_bit_push_bit) simp
qed simp

lemma fwd_byte_split:
  "fwd_byte P x = fwd_byte P (push_bit 8 (ucast (ucast (drop_bit 8 x) :: u8))) XOR push_bit 8 x"
proof -
  let ?hi = "push_bit 8 (ucast (ucast (drop_bit 8 x) :: u8)) :: u16" and ?lo = "ucast (ucast x :: u8) :: u16"
  have "x = ?hi XOR ?lo"
    by (rule bit_word_eqI) (auto simp: bit_xor_iff bit_ucast_iff bit_push_bit_iff bit_drop_bit_eq)
  moreover have "(fwd_bit P ^^ 8) ?lo = push_bit 8 ?lo"
    by (rule fwd_bit_pow_shift) (simp add: bit_ucast_iff)
  moreover have "push_bit 8 ?lo = push_bit 8 x"
    by (rule bit_word_eqI) (auto simp: bit_push_bit_iff bit_ucast_iff)
  ultimately show ?thesis unfolding fwd_byte_def by (metis fwd_bit_pow_xor)
qed

interpretation high: crc_steps "fwd_byte P" "\<lambda>b. push_bit 8 (ucast b)" "\<lambda>x. ucast (drop_bit 8 x)" "push_bit 8" for P
proof
  show "fwd_byte P (x XOR y) = fwd_byte P x XOR fwd_byte P y" for x y
    by (simp add: fwd_byte_def fwd_bit_pow_xor)
  show "push_bit 8 (ucast (a XOR b)) = (push_bit 8 (ucast a) XOR push_bit 8 (ucast b) :: u16)" for a b :: u8
    by (rule bit_word_eqI) (auto simp: bit_ucast_iff bit_xor_iff bit_push_bit_iff)
qed (rule fwd_byte_split)

section \<open>The loops over the buffer\<close>

text \<open>
  What a loop that leaves the register, the offset and the remaining length has done: it has
  folded the bytes it has passed, or, when the buffer is too short, it has not hidden that.
\<close>

definition loop_ok :: "('c \<Rightarrow> u8 \<Rightarrow> 'c) \<Rightarrow> packet \<Rightarrow> nat \<Rightarrow> nat \<Rightarrow> 'c \<Rightarrow> ('c \<times> nat \<times> nat) res \<Rightarrow> bool" where
  "loop_ok f p off len crc m \<longleftrightarrow>
     (if off + len \<le> length p
      then \<exists>k\<le>len. m = Ok (foldl f crc (take k (drop off p)), off + k, len - k)
      else m = Err OutOfBounds \<or> (\<exists>c i l. m = Ok (c, i, l) \<and> i + l = off + len \<and> i \<le> max off (length p)))"

lemma loop_ok_stop [intro]: "loop_ok f p off len crc (Ok (crc, off, len))"
  by (auto simp: loop_ok_def intro: exI [of _ 0])

lemma foldl_take_add:
  "foldl f (foldl f c (take j xs)) (take k (drop j xs)) = foldl f c (take (j + k) xs)"
  by (simp add: take_add)

lemma loop_ok_step:
  assumes "j \<le> len" "off + j \<le> length p" "loop_ok f p (off + j) (len - j) (foldl f crc (take j (drop off p))) m"
  shows "loop_ok f p off len crc m"
proof (cases "off + len \<le> length p")
  case True
  with assms obtain k where k: "k \<le> len - j"
    "m = Ok (foldl f (foldl f crc (take j (drop off p))) (take k (drop (off + j) p)), off + j + k, len - j - k)"
    by (auto simp: loop_ok_def)
  then have "m = Ok (foldl f crc (take (j + k) (drop off p)), off + (j + k), len - (j + k))"
    using foldl_take_add [of f crc j "drop off p" k] by (simp add: add.commute)
  with k(1) True assms(1) show ?thesis unfolding loop_ok_def by (auto intro!: exI [of _ "j + k"])
qed (use assms in \<open>auto simp: loop_ok_def split: if_splits\<close>)

lemma loop_ok_bind:
  assumes "loop_ok f p off len crc m" "\<And>c i l. loop_ok f p i l c (g c i l)"
  shows "loop_ok f p off len crc (bind_res m (\<lambda>(c, i, l). g c i l))"
proof (cases "off + len \<le> length p")
  case True
  with assms(1) obtain k where "k \<le> len" "m = Ok (foldl f crc (take k (drop off p)), off + k, len - k)"
    by (auto simp: loop_ok_def)
  then show ?thesis using True assms(2) by (auto intro: loop_ok_step [of k])
next
  case False
  then consider "m = Err OutOfBounds" | c i l where "m = Ok (c, i, l)" "i + l = off + len" "i \<le> max off (length p)"
    using assms(1) by (auto simp: loop_ok_def)
  then show ?thesis
  proof cases
    case 2
    then show ?thesis using False assms(2) [of i l c] by (auto simp: loop_ok_def)
  qed (use False in \<open>simp add: loop_ok_def\<close>)
qed

lemma crc_head_ok: "loop_ok f p off len crc (crc_head f p base len off crc)"
proof (induction len arbitrary: off crc)
  case (Suc len)
  show ?case
  proof (cases "off < length p \<and> (base + off) mod 8 \<noteq> 0")
    case True
    then show ?thesis using Suc.IH [of "off + 1" "f crc (p ! off)"]
      by (auto simp: rd8_word Cons_nth_drop_Suc [symmetric] intro!: loop_ok_step [of 1 "Suc len"])
  qed (auto simp: loop_ok_def rd8_def intro: exI [of _ 0])
qed auto

lemma crc_tail_val:
  "crc_tail f p len off crc =
     (if off + len \<le> length p \<or> len = 0 then Ok (foldl f crc (take len (drop off p))) else Err OutOfBounds)"
  by (induction len arbitrary: off crc) (auto simp: rd8_def Cons_nth_drop_Suc [symmetric])

lemma loop_ok_tail:
  assumes "loop_ok f p 0 len crc m"
  shows "bind_res m (\<lambda>(c, i, l). crc_tail f p l i c) =
    (if len \<le> length p then Ok (foldl f crc (take len p)) else Err OutOfBounds)"
proof (cases "len \<le> length p")
  case True
  then show ?thesis using assms foldl_take_add [of f crc _ p]
    by (auto simp: loop_ok_def crc_tail_val)
qed (use assms in \<open>auto simp: loop_ok_def crc_tail_val\<close>)

section \<open>The word loops\<close>

lemma eight_nth:
  "length bs = 8 \<Longrightarrow> bs = [bs ! 0, bs ! 1, bs ! 2, bs ! 3, bs ! 4, bs ! 5, bs ! 6, bs ! 7]"
  by (rule nth_equalityI) (auto simp: nth_Cons' numeral_eq_Suc less_Suc_eq)

lemma byte_of_word:
  assumes "k < 8" "length bs = 8"
  shows "ucast (drop_bit (8 * k) (word_of_le bs :: u64)) = (bs ! k :: u8)"
proof -
  have "bytes_le 8 (word_of_le bs :: u64) ! k = bs ! k"
    using bytes_of_word_of_le [of bs, where 'a = 64] assms by simp
  then show ?thesis using assms(1) by (simp add: bytes_le_def)
qed

lemma drop_bit_pow: "(drop_bit n ^^ k) (x :: 'a::len word) = drop_bit (n * k) x"
  by (induction k) (simp_all add: drop_bit_drop_bit)

lemma push_bit_pow: "(push_bit n ^^ k) (x :: 'a::len word) = push_bit (n * k) x"
  by (induction k) (simp_all add: push_bit_push_bit)

lemma drop_bit_all: "LENGTH('a) \<le> n \<Longrightarrow> drop_bit n (x :: 'a::len word) = 0"
  by (rule bit_word_eqI) (auto simp: bit_drop_bit_eq dest: bit_imp_le_length)

lemma push_bit_all: "LENGTH('a) \<le> n \<Longrightarrow> push_bit n (x :: 'a::len word) = 0"
  by (rule bit_word_eqI) (auto simp: bit_push_bit_iff)

lemma index_of_word:
  assumes "k < 8" "length bs = 8" "LENGTH('w) \<le> 64"
  shows "(ucast (drop_bit (8 * k) (ucast (crc :: 'w::len word) XOR word_of_le bs :: u64)) :: u8) =
    ucast (drop_bit (8 * k) crc) XOR bs ! k"
proof -
  have "(ucast (drop_bit (8 * k) (ucast crc :: u64)) :: u8) = ucast (drop_bit (8 * k) crc)"
    using assms(1,3) by (auto intro!: bit_word_eqI simp: bit_ucast_iff bit_drop_bit_eq dest: bit_imp_le_length)
  then show ?thesis by (simp add: drop_bit_xor unsigned_xor_eq low.e_xor byte_of_word assms)
qed

lemma slice8_val:
  assumes "table_ok (crc_byte P) ucast t" "length bs = 8" "LENGTH('w) \<le> 64"
  shows "slice8 t (ucast (crc :: 'w::len word) XOR word_of_le bs) = crc_ref P crc bs"
proof -
  note bs = eight_nth [OF assms(2)]
  have out: "(drop_bit 8 ^^ 8) crc = 0" using assms(3) by (simp add: drop_bit_pow drop_bit_all)
  note ix = index_of_word [OF _ assms(2,3), of _ crc]
  show ?thesis unfolding crc_ref_def
    by (subst bs, subst low.eight_bytes [OF assms(1) out])
       (use ix [of 0] ix [of 1] ix [of 2] ix [of 3] ix [of 4] ix [of 5] ix [of 6] ix [of 7] in
         \<open>simp add: slice8_def drop_bit_pow\<close>)
qed

lemma slice8_16_val:
  assumes "table_ok (fwd_byte P) (\<lambda>b. push_bit 8 (ucast b)) t" "length bs = 8"
  shows "slice8_16 t crc (word_of_le bs) = fwd_ref P crc bs"
proof -
  note bs = eight_nth [OF assms(2)]
  have out: "(push_bit 8 ^^ 8) crc = 0" by (simp only: push_bit_pow) (simp add: push_bit_all)
  have lo: "ucast (drop_bit 8 (push_bit 8 crc)) = (ucast crc :: u8)"
    by (rule bit_word_eqI) (simp add: bit_ucast_iff bit_drop_bit_eq bit_push_bit_iff)
  note ix = byte_of_word [OF _ assms(2)]
  show ?thesis unfolding fwd_ref_def
    by (subst bs, subst high.eight_bytes [OF assms(1) out])
       (use ix [of 0] ix [of 1] ix [of 2] ix [of 3] ix [of 4] ix [of 5] ix [of 6] ix [of 7] in
         \<open>simp add: slice8_16_def push_bit_pow push_bit_all lo xor.commute\<close>)
qed

text \<open>The steps of the tables are the steps of the reference.\<close>

lemma byte_step_val:
  assumes "table_ok (crc_byte P) ucast (t :: 'w::len table)" "8 \<le> LENGTH('w)"
  shows "byte_step t = (\<lambda>c b. crc_byte P (c XOR ucast b))"
proof (intro ext)
  fix c :: "'w word" and b :: u8
  have "ucast (c XOR ucast b) = (ucast c XOR b :: u8)"
    using assms(2) by (intro bit_word_eqI) (auto simp: bit_ucast_iff bit_xor_iff)
  then show "byte_step t c b = crc_byte P (c XOR ucast b)"
    using low.byte_val [OF assms(1), of c b] by (simp add: byte_step_def)
qed

lemma byte_step16_val:
  assumes "table_ok (fwd_byte P) (\<lambda>b. push_bit 8 (ucast b)) t"
  shows "byte_step16 t = (\<lambda>c b. fwd_byte P (c XOR push_bit 8 (ucast b)))"
proof (intro ext)
  fix c b
  have "ucast (drop_bit 8 c XOR (ucast b :: u16)) = (ucast (drop_bit 8 c) XOR b :: u8)"
    by (rule bit_word_eqI) (auto simp: bit_ucast_iff bit_xor_iff)
  then show "byte_step16 t c b = fwd_byte P (c XOR push_bit 8 (ucast b))"
    using high.byte_val [OF assms, of c b] by (simp add: byte_step16_def)
qed

lemma length_take8: "off + 8 \<le> length p \<Longrightarrow> length (take 8 (drop off p)) = 8"
  by simp

lemma crc64_words_ok:
  assumes t: "table_ok (crc_byte P) ucast t"
  shows "loop_ok (\<lambda>c b. crc_byte P (c XOR ucast b)) p off len crc (crc64_words t p len off crc)"
proof (induction len arbitrary: off crc rule: less_induct)
  case (less len)
  show ?case
  proof (cases "8 \<le> len \<and> off + 8 \<le> length p")
    case True
    with slice8_val [OF t length_take8, of off p crc] less [of "len - 8"] show ?thesis
      by (subst crc64_words.simps) (auto simp: rd64_word crc_ref_def intro!: loop_ok_step [of 8 len])
  qed (subst crc64_words.simps, auto simp: loop_ok_def rd64_Err intro: exI [of _ 0])
qed

lemma crc16_words_ok:
  assumes t: "table_ok (fwd_byte P) (\<lambda>b. push_bit 8 (ucast b)) t"
  shows "loop_ok (\<lambda>c b. fwd_byte P (c XOR push_bit 8 (ucast b))) p off len crc (crc16_words t p len off crc)"
proof (induction len arbitrary: off crc rule: less_induct)
  case (less len)
  show ?case
  proof (cases "8 \<le> len \<and> off + 8 \<le> length p")
    case True
    with slice8_16_val [OF t length_take8, of off p crc] less [of "len - 8"] show ?thesis
      by (subst crc16_words.simps) (auto simp: rd64_word fwd_ref_def intro!: loop_ok_step [of 8 len])
  qed (subst crc16_words.simps, auto simp: loop_ok_def rd64_Err intro: exI [of _ 0])
qed

lemma crc32c_words_ok:
  assumes t: "table_ok (crc_byte P) ucast t" and len: "8 \<le> len"
  shows "loop_ok (\<lambda>c b. crc_byte P (c XOR ucast b)) p off len crc
    (map_res (\<lambda>(crcw, off, len). (ucast crcw, off, len)) (crc32c_words t p len off (ucast crc)))"
  using len
proof (induction len arbitrary: off crc rule: less_induct)
  case (less len)
  have up: "slice8 (\<lambda>k n. ucast (t k n)) w = ucast (slice8 t w)" for w
    by (simp add: slice8_def unsigned_xor_eq)
  have down: "ucast (ucast c :: u64) = c" for c :: u32
    by (rule bit_word_eqI) (simp add: bit_ucast_iff)
  show ?case
  proof (cases "off + 8 \<le> length p")
    case True
    with slice8_val [OF t length_take8, of off p crc] less(1) [of "len - 8" "off + 8"] less(2) show ?thesis
      by (subst crc32c_words.simps)
        (auto simp: rd64_word crc_ref_def up Let_def down intro!: loop_ok_step [of 8 len])
  qed (use less(2) in \<open>subst crc32c_words.simps, simp add: loop_ok_def rd64_Err\<close>)
qed

section \<open>The tables\<close>

text \<open>\<open>crc64_bitwise\<close> keeps the register mirrored; \<open>crc_reflect\<close> turns it round at the end.\<close>

lemma reflect_loop_bit:
  "bit (reflect_loop n data ret) i \<longleftrightarrow>
     i < 64 \<and> (if i < n then bit data (n - i) else bit ret (i - n))"
proof (induction n arbitrary: data ret)
  case (Suc n)
  show ?case
    by (auto simp: Suc.IH Let_def bit_or_iff bit_and_iff bit_push_bit_iff bit_drop_bit_eq bit_1_iff Suc_diff_le
        simp del: push_bit_Suc dest: bit_imp_le_length)
qed (auto dest: bit_imp_le_length)

lemma crc_reflect_bit: "bit (crc_reflect x 64) i \<longleftrightarrow> i < 64 \<and> bit x (63 - i)"
  by (auto simp: crc_reflect_def reflect_loop_bit bit_and_iff bit_1_iff not_less le_antisym)

definition CRC64_REFLECTED :: u64 where
  "CRC64_REFLECTED = 0x95ac9329ac4bc9b5"

lemma reflect_poly: "crc_reflect CRC64_POLY 64 = CRC64_REFLECTED"
  by code_simp

lemma reflect_xor: "crc_reflect (x XOR y) 64 = crc_reflect x 64 XOR crc_reflect y 64"
  by (rule bit_word_eqI) (auto simp: crc_reflect_bit bit_xor_iff)

lemma reflect_push: "crc_reflect (push_bit 1 x) 64 = drop_bit 1 (crc_reflect x 64)"
  by (rule bit_word_eqI) (auto simp: crc_reflect_bit bit_push_bit_iff bit_drop_bit_eq simp del: push_bit_Suc)

lemma crc64_bit_reflect:
  assumes "j < 8"
  shows "crc_reflect (crc64_bit c crc (push_bit j 1)) 64 =
    crc_bit CRC64_REFLECTED (crc_reflect crc 64 XOR (if bit c j then 1 else 0))"
proof -
  have top: "crc AND 0x8000000000000000 = 0 \<longleftrightarrow> \<not> bit crc 63"
    using and_exp_eq_0_iff_not_bit [of crc 63] by simp
  have cj: "c AND push_bit j 1 = 0 \<longleftrightarrow> \<not> bit c j"
    using and_exp_eq_0_iff_not_bit [of c j] by simp
  have lo: "bit (crc_reflect crc 64) 0 \<longleftrightarrow> bit crc 63" by (simp add: crc_reflect_bit)
  have "drop_bit 1 (x XOR 1) = drop_bit 1 x" for x :: u64 by (simp add: drop_bit_xor)
  then show ?thesis
    by (auto simp: crc64_bit_def crc_bit_def top cj lo reflect_xor reflect_push [unfolded One_nat_def] reflect_poly bit_xor_iff Let_def
        simp del: push_bit_of_1 push_bit_Suc)
qed

lemma crc64_bits_reflect:
  "k \<le> 8 \<Longrightarrow> crc_reflect (foldl (crc64_bit c) crc (map (\<lambda>j. push_bit j 1) [0..<k])) 64 =
    (crc_bit CRC64_REFLECTED ^^ k) (crc_reflect crc 64 XOR take_bit k (ucast c))"
proof (induction k)
  case (Suc k)
  let ?s = "crc_bit CRC64_REFLECTED" and ?b = "if bit c k then 1 else 0 :: u64"
  have b: "(?s ^^ k) (push_bit k ?b) = ?b"
    using Suc.prems by (subst crc_bit_pow_shift) (auto simp: bit_push_bit_iff bit_exp_iff intro!: bit_word_eqI simp: bit_drop_bit_eq bit_1_iff)
  have split: "take_bit (Suc k) (ucast c :: u64) = take_bit k (ucast c) XOR push_bit k ?b"
    using Suc.prems
    by (auto intro!: bit_word_eqI simp: bit_take_bit_iff bit_xor_iff bit_push_bit_iff bit_ucast_iff bit_1_iff bit_exp_iff less_Suc_eq)
  show ?case using Suc crc64_bit_reflect [of k]
    by (simp add: crc_bit_pow_xor split b xor.assoc [symmetric] del: push_bit_of_1)
qed simp

lemma crc64_bitwise_byte: "crc64_bitwise 0 [n] = crc_byte CRC64_REFLECTED (ucast n)"
proof -
  have "crc_reflect 0 64 = 0" by (rule bit_word_eqI) (simp add: crc_reflect_bit)
  moreover have "take_bit 8 (ucast n :: u64) = ucast n"
    by (rule bit_word_eqI) (auto simp: bit_take_bit_iff bit_ucast_iff dest: bit_u8_imp)
  ultimately show ?thesis
    using crc64_bits_reflect [of 8 n 0] by (simp add: crc64_bitwise_def crc_byte_def del: push_bit_of_1)
qed

lemma crc64_table_ok: "table_ok (crc_byte CRC64_REFLECTED) ucast crc64_init"
  unfolding crc64_init_def crcspeed64little_init_def
  by (rule low.table_init) (simp_all add: next_low_def crc64_bitwise_byte)

lemma crc32c_table_ok: "table_ok (crc_byte CRC32C_POLY) ucast (crc32c_init_sw_little t)"
proof -
  have "crc32c_shift = crc_bit CRC32C_POLY"
    by (simp add: fun_eq_iff crc32c_shift_def crc_bit_def and_one_eq bit_0 odd_iff_mod_2_eq_one)
  then show ?thesis unfolding crc32c_init_sw_little_def
    by (intro low.table_init) (simp_all add: next_low_def crc_byte_def eval_nat_numeral)
qed

definition CRC16_POLY :: u16 where
  "CRC16_POLY = 0x1021"

text \<open>The table of \<open>crc16.c\<close>: it doubles with each bit of the index.\<close>

definition table16 :: "nat \<Rightarrow> u16 list" where
  "table16 k = map (\<lambda>n. fwd_byte CRC16_POLY (push_bit 8 (ucast (of_nat n :: u8)))) [0..<2 ^ k]"

lemma of_nat_exp_xor:
  assumes "n < 2 ^ k" shows "(of_nat (2 ^ k + n) :: 'a::len word) = of_nat n XOR push_bit k 1"
proof -
  have "\<not> bit n k" using assms by (simp add: bit_iff_odd)
  then have "2 ^ k AND n = 0" by (auto intro!: bit_eqI simp: bit_and_iff bit_exp_iff)
  then have e: "2 ^ k + n = n XOR 2 ^ k" by (simp add: xor.commute disjunctive_add_eq_xor)
  show ?thesis unfolding e by (rule bit_word_eqI) (auto simp: bit_xor_iff bit_of_nat_iff bit_exp_iff)
qed

lemma table16_Suc:
  "table16 (Suc k) = table16 k @ map (\<lambda>x. x XOR fwd_byte CRC16_POLY (push_bit 8 (ucast (push_bit k 1 :: u8)))) (table16 k)"
proof -
  have "[0..<2 ^ Suc k] = [0..<2 ^ k] @ map (\<lambda>n. 2 ^ k + n) [0..<2 ^ k :: nat]"
    by (rule nth_equalityI) (auto simp: nth_append simp del: upt_Suc)
  then show ?thesis
    by (simp add: table16_def of_nat_exp_xor high.e_xor high.f_xor del: push_bit_of_1 of_nat_add)
qed

lemma fwd_byte_exp:
  assumes "k < 8" shows "fwd_byte P (push_bit 8 (ucast (push_bit k 1 :: u8))) = (fwd_bit P ^^ k) P"
proof -
  have top: "push_bit 8 (ucast (push_bit k 1 :: u8)) = (2 ^ (8 + k) :: u16)"
    using assms by (auto intro!: bit_word_eqI simp: bit_push_bit_iff bit_ucast_iff bit_exp_iff)
  have "(fwd_bit P ^^ (7 - k)) (2 ^ (8 + k)) = push_bit (7 - k) (2 ^ (8 + k))"
    using assms by (intro fwd_bit_pow_shift) (auto simp: bit_exp_iff)
  moreover have "push_bit (7 - k) (2 ^ (8 + k) :: u16) = 2 ^ 15"
    using assms power_add [of "2 :: u16" "7 - k" "8 + k"] by (simp add: push_bit_eq_mult mult.commute)
  moreover have "push_bit 1 (2 ^ 15 :: u16) = 0" "bit (2 ^ 15 :: u16) 15" by code_simp+
  then have "fwd_bit P (2 ^ 15) = P" by (simp only: fwd_bit_def if_True xor.left_neutral)
  moreover have "(fwd_bit P ^^ (k + Suc (7 - k))) x = (fwd_bit P ^^ k) (fwd_bit P ((fwd_bit P ^^ (7 - k)) x))" for x
    by (simp add: funpow_add funpow_swap1)
  then have "fwd_byte P x = (fwd_bit P ^^ k) (fwd_bit P ((fwd_bit P ^^ (7 - k)) x))" for x
    using assms by (simp add: fwd_byte_def)
  ultimately show ?thesis unfolding top by (simp only:)
qed

lemma table16_step:
  assumes "k < 8" "(fwd_bit CRC16_POLY ^^ k) CRC16_POLY = v" "m = Suc k"
  shows "table16 m = table16 k @ map (\<lambda>x. x XOR v) (table16 k)"
  using assms table16_Suc [of k] fwd_byte_exp [OF assms(1)] by simp

lemma fwd_poly_steps:
  "fwd_bit CRC16_POLY 0x1021 = 0x2042" "fwd_bit CRC16_POLY 0x2042 = 0x4084"
  "fwd_bit CRC16_POLY 0x4084 = 0x8108" "fwd_bit CRC16_POLY 0x8108 = 0x1231"
  "fwd_bit CRC16_POLY 0x1231 = 0x2462" "fwd_bit CRC16_POLY 0x2462 = 0x48c4"
  "fwd_bit CRC16_POLY 0x48c4 = 0x9188" "CRC16_POLY = 0x1021"
  by code_simp+

lemma fwd_pow_step:
  "(fwd_bit P ^^ k) P = v \<Longrightarrow> fwd_bit P v = w \<Longrightarrow> m = Suc k \<Longrightarrow> (fwd_bit P ^^ m) P = w"
  by simp

lemma crc16tab_ok: "crc16tab = table16 8"
proof -
  have t0: "table16 0 = [0]" by (simp add: table16_def high.f_zero)
  have p0: "(fwd_bit CRC16_POLY ^^ 0) CRC16_POLY = 0x1021" by (simp add: fwd_poly_steps(8))
  have p1: "(fwd_bit CRC16_POLY ^^ 1) CRC16_POLY = 0x2042"
    by (rule fwd_pow_step [OF p0 fwd_poly_steps(1)]) simp
  have p2: "(fwd_bit CRC16_POLY ^^ 2) CRC16_POLY = 0x4084"
    by (rule fwd_pow_step [OF p1 fwd_poly_steps(2)]) simp
  have p3: "(fwd_bit CRC16_POLY ^^ 3) CRC16_POLY = 0x8108"
    by (rule fwd_pow_step [OF p2 fwd_poly_steps(3)]) simp
  have p4: "(fwd_bit CRC16_POLY ^^ 4) CRC16_POLY = 0x1231"
    by (rule fwd_pow_step [OF p3 fwd_poly_steps(4)]) simp
  have p5: "(fwd_bit CRC16_POLY ^^ 5) CRC16_POLY = 0x2462"
    by (rule fwd_pow_step [OF p4 fwd_poly_steps(5)]) simp
  have p6: "(fwd_bit CRC16_POLY ^^ 6) CRC16_POLY = 0x48c4"
    by (rule fwd_pow_step [OF p5 fwd_poly_steps(6)]) simp
  have p7: "(fwd_bit CRC16_POLY ^^ 7) CRC16_POLY = 0x9188"
    by (rule fwd_pow_step [OF p6 fwd_poly_steps(7)]) simp
  have t1: "table16 1 = table16 0 @ map (\<lambda>x. x XOR 0x1021) (table16 0)"
    by (rule table16_step [OF _ p0]) simp_all
  have t2: "table16 2 = table16 1 @ map (\<lambda>x. x XOR 0x2042) (table16 1)"
    by (rule table16_step [OF _ p1]) simp_all
  have t3: "table16 3 = table16 2 @ map (\<lambda>x. x XOR 0x4084) (table16 2)"
    by (rule table16_step [OF _ p2]) simp_all
  have t4: "table16 4 = table16 3 @ map (\<lambda>x. x XOR 0x8108) (table16 3)"
    by (rule table16_step [OF _ p3]) simp_all
  have t5: "table16 5 = table16 4 @ map (\<lambda>x. x XOR 0x1231) (table16 4)"
    by (rule table16_step [OF _ p4]) simp_all
  have t6: "table16 6 = table16 5 @ map (\<lambda>x. x XOR 0x2462) (table16 5)"
    by (rule table16_step [OF _ p5]) simp_all
  have t7: "table16 7 = table16 6 @ map (\<lambda>x. x XOR 0x48c4) (table16 6)"
    by (rule table16_step [OF _ p6]) simp_all
  have t8: "table16 8 = table16 7 @ map (\<lambda>x. x XOR 0x9188) (table16 7)"
    by (rule table16_step [OF _ p7]) simp_all
  show ?thesis unfolding t8 t7 t6 t5 t4 t3 t2 t1 t0 by (simp add: crc16tab_def)
qed

lemma crc16_step_val: "crc16_step c b = fwd_byte CRC16_POLY (c XOR push_bit 8 (ucast b))"
proof -
  let ?i = "ucast (drop_bit 8 c) XOR b"
  have "((drop_bit 8 (ucast c :: u32) XOR scast b) AND mask 8) = ucast ?i"
  proof (rule bit_word_eqI)
    fix n :: nat
    show "bit ((drop_bit 8 (ucast c :: u32) XOR scast b) AND mask 8) n = bit (ucast ?i :: u32) n"
      by (cases "n < 8") (auto simp: bit_and_iff bit_mask_iff bit_xor_iff bit_drop_bit_eq bit_ucast_iff
          bit_signed_iff min_absorb2 dest: bit_u8_imp)
  qed
  moreover have "unat (ucast ?i :: u32) = unat ?i"
    using unsigned_less [of ?i, where 'a = nat] by (simp add: unsigned_ucast_eq take_bit_nat_eq_self)
  moreover have "(0x00FF :: u32) = mask 8" by code_simp
  ultimately have "unat ((drop_bit 8 (ucast c :: u32) XOR scast b) AND 0x00FF) = unat ?i" by (simp only:)
  moreover have "crc16tab ! unat ?i = fwd_byte CRC16_POLY (push_bit 8 (ucast ?i))"
    using unsigned_less [of ?i, where 'a = nat] by (simp add: crc16tab_ok table16_def)
  moreover have "ucast (push_bit 8 (ucast c :: u32) XOR ucast w) = push_bit 8 c XOR w" for w :: u16
    by (rule bit_word_eqI) (auto simp: bit_ucast_iff bit_xor_iff bit_push_bit_iff)
  ultimately have "crc16_step c b = push_bit 8 c XOR fwd_byte CRC16_POLY (push_bit 8 (ucast ?i))"
    unfolding crc16_step_def by (simp only:)
  then show ?thesis by (simp add: high.f_xor high.e_xor high.f_split [of _ c] ac_simps)
qed

section \<open>The published check values\<close>

lemma crc_bit_numeral:
  "crc_bit P (numeral (num.Bit0 n)) = drop_bit 1 (numeral (num.Bit0 n))"
  "crc_bit P (numeral (num.Bit1 n)) = drop_bit 1 (numeral (num.Bit1 n)) XOR P"
  "crc_bit P 0 = 0" "crc_bit P 1 = P"
  by (simp_all add: crc_bit_def bit_0)

lemma crc_byte_bits:
  "crc_byte P x = crc_bit P (crc_bit P (crc_bit P (crc_bit P (crc_bit P (crc_bit P (crc_bit P (crc_bit P x)))))))"
  by (simp add: crc_byte_def eval_nat_numeral)

text \<open>The string is \<open>123456789\<close>; \<open>crc64Test\<close> in \<open>crc64.c\<close> expects the first value.\<close>

definition check_string :: packet where
  "check_string = [0x31, 0x32, 0x33, 0x34, 0x35, 0x36, 0x37, 0x38, 0x39]"

lemma crc64_check: "crc_ref CRC64_REFLECTED 0 check_string = 0xe9c6d914c4b8d9ca"
  unfolding crc_ref_def check_string_def CRC64_REFLECTED_def by (simp add: crc_bit_numeral crc_byte_bits)

lemma crc32c_check: "NOT (crc_ref CRC32C_POLY (NOT 0) check_string) = 0xe3069283"
proof -
  have n: "NOT (0 :: u32) = 0xffffffff" by simp
  have "crc_ref CRC32C_POLY 0xffffffff check_string = 0x1cf96d7c"
    unfolding crc_ref_def check_string_def CRC32C_POLY_def by (simp add: crc_bit_numeral crc_byte_bits)
  then show ?thesis unfolding n by (simp only:) simp
qed

section \<open>Main results\<close>

text \<open>C15: \<open>crc64\<close>, after \<open>crc64_init\<close>, computes the reflected CRC with the polynomial of Jones bit by
  bit, whatever the alignment of the buffer, its length and the value it continues from. It
  reads no byte beyond the length it is given, and a buffer that is shorter is read past its end.\<close>

theorem crc64_value:
  "crc64 crc p base len =
     (if len \<le> length p then Ok (crc_ref CRC64_REFLECTED crc (take len p)) else Err OutOfBounds)"
proof -
  let ?f = "\<lambda>c b. crc_byte CRC64_REFLECTED (c XOR ucast b)"
  note t = crc64_table_ok
  have "loop_ok ?f p 0 len crc (bind_res (crc_head ?f p base len 0 crc) (\<lambda>(crc, off, len). crc64_words crc64_init p len off crc))"
    by (rule loop_ok_bind [OF crc_head_ok crc64_words_ok [OF t]])
  from loop_ok_tail [OF this] show ?thesis
    by (simp add: crc64_def crcspeed64little_def byte_step_val [OF t] crc_ref_def bind_res_assoc case_prod_unfold)
qed

text \<open>C16: \<open>crc32c_sw\<close> computes the reflected CRC with the Castagnoli polynomial, complemented before
  and after, for every alignment, length and value that it continues from.\<close>

theorem crc32c_value:
  "crc32c_sw crc p base len =
     (if len \<le> length p then Ok (NOT (crc_ref CRC32C_POLY (NOT crc) (take len p))) else Err OutOfBounds)"
proof -
  let ?f = "\<lambda>c b. crc_byte CRC32C_POLY (c XOR ucast b)" and ?t = "crc32c_init_sw_little (\<lambda>k n. 0)"
  note t = crc32c_table_ok [of "\<lambda>k n. 0"]
  let ?m = "bind_res (crc_head ?f p base len 0 (NOT crc)) (\<lambda>(crc, off, len).
    if len \<ge> 8 then map_res (\<lambda>(crcw, off, len). (ucast crcw, off, len)) (crc32c_words ?t p len off (ucast crc))
    else Ok (crc, off, len))"
  have "loop_ok ?f p 0 len (NOT crc) ?m"
    by (rule loop_ok_bind [OF crc_head_ok], split if_split, intro conjI impI, rule crc32c_words_ok [OF t])
      (simp_all only: loop_ok_stop)
  from loop_ok_tail [OF this]
  have "map_res (\<lambda>crc. NOT crc) (bind_res ?m (\<lambda>(c, i, l). crc_tail ?f p l i c)) =
    (if len \<le> length p then Ok (NOT (crc_ref CRC32C_POLY (NOT crc) (take len p))) else Err OutOfBounds)"
    by (simp add: crc_ref_def)
  then show ?thesis
    by (simp add: map_res_of_bind crc32c_sw_def crc32c_sw_little_def byte_step_val [OF t] bind_res_assoc case_prod_unfold Let_def)
qed

text \<open>C19: \<open>crc16\<close> is the CRC with the polynomial 0x1021 and the initial value 0, its table included,
  although it reads the bytes as signed characters; a length below 0 reads nothing.\<close>

theorem crc16_value:
  "crc16 buf len =
     (if len \<le> int (length buf) then Ok (fwd_ref CRC16_POLY 0 (take (nat len) buf)) else Err OutOfBounds)"
  by (auto simp: crc16_def crc_tail_val fwd_ref_def crc16_step_val [abs_def])

text \<open>C38: The slices of \<open>crcspeed16little\<close> compute the same as the bits, for a table made by
  \<open>crcspeed16little_init\<close> from a function that agrees with the polynomial on single bytes.\<close>

theorem crcspeed16_value:
  assumes "\<And>n. crcfn 0 [n] = fwd_ref P 0 [n]"
  shows "crcspeed16little (crcspeed16little_init crcfn t) crc p base len =
    (if len \<le> length p then Ok (fwd_ref P crc (take len p)) else Err OutOfBounds)"
proof -
  let ?f = "\<lambda>c b. fwd_byte P (c XOR push_bit 8 (ucast b))" and ?t = "crcspeed16little_init crcfn t"
  have t: "table_ok (fwd_byte P) (\<lambda>b. push_bit 8 (ucast b)) ?t"
    unfolding crcspeed16little_init_def
    by (rule high.table_init) (simp_all add: next_high_def assms fwd_ref_def)
  have "loop_ok ?f p 0 len crc (bind_res (crc_head ?f p base len 0 crc) (\<lambda>(crc, off, len). crc16_words ?t p len off crc))"
    by (rule loop_ok_bind [OF crc_head_ok crc16_words_ok [OF t]])
  from loop_ok_tail [OF this] show ?thesis
    by (simp add: crcspeed16little_def byte_step16_val [OF t] fwd_ref_def bind_res_assoc case_prod_unfold)
qed

theorem crcspeed16_value_witness:
  "crcspeed16little (crcspeed16little_init (fwd_ref CRC16_POLY) (\<lambda>k n. 0)) 0 [0x31] 3 1 = Ok (fwd_ref CRC16_POLY 0 [0x31])"
  using crcspeed16_value [of "fwd_ref CRC16_POLY" CRC16_POLY "\<lambda>k n. 0" 0 "[0x31]" 3 1] by simp

end
