(* ===== verification/Checksum.thy ===== *)
theory Checksum
  imports Le_Words
begin

text \<open>
  The Internet checksum of \<open>include/xdp2/checksum.h\<close>: folding, adding to a partial sum, and the
  sum of a buffer. The reference is the sum of 16-bit words in one's complement.
\<close>

section \<open>The code\<close>

definition xdp2_checksum_fold32 :: "u32 \<Rightarrow> u16" where
  "xdp2_checksum_fold32 val =
     (let val = (val AND 0xffff) + drop_bit 16 val;
          val = val + drop_bit 16 val
      in ucast (val AND 0xffff))"

definition xdp2_checksum_fold64 :: "u64 \<Rightarrow> u16" where
  "xdp2_checksum_fold64 val =
     (let val = (val AND 0xffffffff) + drop_bit 32 val;
          val = val + drop_bit 32 val
      in xdp2_checksum_fold32 (ucast val))"

definition xdp2_checksum_add16 :: "u64 \<Rightarrow> u16 \<Rightarrow> u64" where
  "xdp2_checksum_add16 val1 val2 =
     (let sum = ucast ((val1 AND 0xffff) + ucast val2) :: u32;
          sum = sum + drop_bit 16 sum
      in (val1 AND NOT 0xffff) OR ucast (sum AND 0xffff))"

definition xdp2_checksum_add32 :: "u64 \<Rightarrow> u32 \<Rightarrow> u64" where
  "xdp2_checksum_add32 val1 val2 =
     (let sum = (val1 AND 0xffffffff) + ucast val2;
          sum = sum + drop_bit 32 sum
      in (val1 AND NOT 0xffffffff) OR (sum AND 0xffffffff))"

definition xdp2_checksum_add64 :: "u64 \<Rightarrow> u64 \<Rightarrow> u64" where
  "xdp2_checksum_add64 val1 val2 =
     (let sum = (val1 AND 0xffffffff) + (val2 AND 0xffffffff)
      in sum + (drop_bit 32 val1 + drop_bit 32 val2))"

text \<open>The loop over the 32-bit words, with the number of words that are left.\<close>

primrec sum_words :: "packet \<Rightarrow> nat \<Rightarrow> nat \<Rightarrow> u64 \<Rightarrow> (u64 \<times> nat) res" where
  "sum_words p 0 off acc = Ok (acc, off)"
| "sum_words p (Suc n) off acc = bind_res (rd32 p off) (\<lambda>w. sum_words p n (off + 4) (acc + ucast w))"

definition xdp2_checksum_compute :: "packet \<Rightarrow> u64 \<Rightarrow> u16 res" where
  "xdp2_checksum_compute src len =
     (if \<not> len < push_bit 32 1 then Err AssertFailed
      else bind_res (sum_words src (unat len div 4) 0 0) (\<lambda>(sum, off).
           bind_res (if len AND 2 \<noteq> 0 then map_res (\<lambda>w. (sum + ucast w, off + 2)) (rd16 src off)
                     else Ok (sum, off)) (\<lambda>(sum, off).
           bind_res (if len AND 1 \<noteq> 0 then map_res (\<lambda>b. sum + ucast b) (rd8 src off)
                     else Ok sum) (\<lambda>sum.
           Ok (xdp2_checksum_fold64 sum)))))"

section \<open>Sums in one's complement\<close>

text \<open>
  The sum of 16-bit numbers in one's complement, where the carry comes back in at the bottom:
  it is 0 only when all of them are, and otherwise one of 1 to 65535.
\<close>

definition ones_sum :: "nat \<Rightarrow> nat" where
  "ones_sum s = (if s = 0 then 0 else Suc ((s - 1) mod 65535))"

lemma ones_sum_cong:
  assumes "a mod 65535 = b mod 65535" "a = 0 \<longleftrightarrow> b = 0" shows "ones_sum a = ones_sum b"
proof (cases a)
  case (Suc x)
  then obtain y where "b = Suc y" using assms(2) by (cases b) auto
  moreover from this Suc assms(1) have "(Suc x + 65534) mod 65535 = (Suc y + 65534) mod 65535"
    by (simp only: mod_add_left_eq [of "Suc _", symmetric])
  ultimately show ?thesis using Suc by (simp add: ones_sum_def)
qed (use assms in \<open>simp add: ones_sum_def\<close>)

lemma ones_sum_small [simp]: "r < 65536 \<Longrightarrow> ones_sum r = r"
  by (auto simp: ones_sum_def)

lemma ones_sum_less: "ones_sum s < 65536"
  by (simp add: ones_sum_def)

lemma ones_sum_carry:
  assumes "M mod 65535 = 1" shows "ones_sum (a + M * b) = ones_sum (a + b)"
proof (rule ones_sum_cong)
  show "(a + M * b) mod 65535 = (a + b) mod 65535"
    using assms by (metis mod_add_right_eq mod_mult_left_eq mult_1)
  have "0 < M" using assms by (cases M) auto
  then show "a + M * b = 0 \<longleftrightarrow> a + b = 0" by simp
qed

lemma ones_sum_add: "ones_sum (a + ones_sum b) = ones_sum (a + b)"
proof (rule ones_sum_cong)
  have "ones_sum b mod 65535 = b mod 65535"
    by (cases b) (simp_all add: ones_sum_def mod_Suc)
  then show "(a + ones_sum b) mod 65535 = (a + b) mod 65535" by (metis mod_add_right_eq)
qed (auto simp: ones_sum_def)

lemma ones_sum_end_around:
  "a < 65536 \<Longrightarrow> b < 65536 \<Longrightarrow> ones_sum (a + b) = (if a + b < 65536 then a + b else a + b - 65535)"
  by (auto simp: ones_sum_def mod_if)

text \<open>A fold adds the high half to the low half, and then the carry.\<close>

lemma end_carry:
  fixes w M :: nat
  assumes "w + 2 \<le> 2 * M" shows "(w + w div M) mod M = w mod M + w div M"
proof -
  have "w mod M + w div M < M"
  proof (cases "w < M")
    case False
    then obtain k where k: "w = M + k" by (metis le_iff_add not_less)
    moreover from this assms have "k < M" by linarith
    moreover from this have "(M + k) div M = 1" by (simp add: le_div_geq)
    ultimately show ?thesis using assms by simp
  qed simp
  moreover have "(w + w div M) mod M = (w mod M + w div M) mod M" by (rule mod_add_left_eq [symmetric])
  ultimately show ?thesis by simp
qed

section \<open>Words\<close>

lemma unat_low: "unat (x AND mask n :: 'a::len word) = unat x mod 2 ^ n"
  unfolding take_bit_eq_mask [symmetric] unsigned_take_bit_eq by (rule take_bit_eq_mod)

lemma unat_high: "unat (drop_bit n x :: 'a::len word) = unat x div 2 ^ n"
  unfolding unsigned_drop_bit_eq by (simp add: drop_bit_eq_div take_bit_nat_eq_self [OF unsigned_less])

lemma unat_split: "unat (x :: 'a::len word) = 2 ^ n * unat (drop_bit n x) + unat (x AND mask n)"
  by (simp add: unat_low unat_high)

lemma unat_join:
  "unat ((v AND NOT (mask n)) OR (y AND mask n) :: 'a::len word) = 2 ^ n * (unat v div 2 ^ n) + unat y mod 2 ^ n"
proof -
  let ?r = "(v AND NOT (mask n)) OR (y AND mask n)"
  have "drop_bit n ?r = drop_bit n v" "?r AND mask n = y AND mask n"
    by (auto intro!: bit_word_eqI simp: bit_drop_bit_eq bit_and_iff bit_or_iff bit_not_iff bit_mask_iff
        dest: bit_imp_le_length)
  then show ?thesis using unat_split [of ?r n] by (simp only: unat_low unat_high)
qed

lemma unat_cut: "unat (ucast x :: 'b::len word) = unat (x :: 'a::len word) mod 2 ^ LENGTH('b)"
  by (simp add: unsigned_ucast_eq take_bit_eq_mod)

lemma masks: "(0xffff :: u32) = mask 16" "(0xffff :: u64) = mask 16" "(0xffffffff :: u64) = mask 32"
  by (simp_all add: mask_eq_exp_minus_1)

lemma fold_word:
  fixes val :: "'a::len word"
  assumes "LENGTH('a) = 2 * n" "0 < n"
  defines "w \<equiv> (val AND mask n) + drop_bit n val" and "v \<equiv> unat val" and "M \<equiv> 2 ^ n :: nat"
  shows "unat (w + drop_bit n w) mod M = (v mod M + v div M) mod M + (v mod M + v div M) div M"
proof -
  have size: "2 ^ LENGTH('a) = M * M" by (simp add: assms(1) M_def mult_2 power_add)
  have M: "2 \<le> M" using assms(2) by (cases n) (auto simp: M_def)
  have "v < M * M" using unsigned_less [of val, where 'a = nat] by (simp add: v_def flip: size)
  then have "v div M < M" by (simp add: less_mult_imp_div_less)
  moreover have "v mod M < M" using M by simp
  ultimately have le: "v mod M + v div M + 2 \<le> 2 * M" by linarith
  have "2 * M \<le> M * M" using M by simp
  with le have "v mod M + v div M < M * M" by linarith
  then have w: "unat w = v mod M + v div M"
    unfolding w_def by (simp only: unat_word_ariths unat_low unat_high size v_def [symmetric] M_def [symmetric]) simp
  show ?thesis unfolding unat_word_ariths unat_high w size M_def [symmetric]
    using end_carry [OF le] by (simp add: mod_mod_cancel)
qed

lemma carry_16: "(2 ^ 16 :: nat) mod 65535 = 1" and carry_32: "(2 ^ 32 :: nat) mod 65535 = 1"
  by simp_all

lemma fold_ones:
  assumes "M mod 65535 = 1"
  shows "ones_sum (v mod M + v div M) = ones_sum v"
  using ones_sum_carry [OF assms, of "v mod M" "v div M"] by (simp add: add.commute)

lemma fold32_value: "unat (xdp2_checksum_fold32 val) = ones_sum (unat val)"
proof -
  let ?v = "unat val" and ?M = "2 ^ 16 :: nat"
  let ?w = "?v mod ?M + ?v div ?M"
  let ?x = "(val AND mask 16) + drop_bit 16 val"
  have "unat (xdp2_checksum_fold32 val) = unat (?x + drop_bit 16 ?x) mod ?M"
    by (simp add: xdp2_checksum_fold32_def masks Let_def unat_cut unat_low)
  also have "\<dots> = ?w mod ?M + ?w div ?M" by (rule fold_word) simp_all
  finally have u: "unat (xdp2_checksum_fold32 val) = ?w mod ?M + ?w div ?M" .
  have "ones_sum (?w mod ?M + ?w div ?M) = ones_sum ?v" unfolding fold_ones [OF carry_16] ..
  moreover have "unat (xdp2_checksum_fold32 val) < 65536"
    using unsigned_less [of "xdp2_checksum_fold32 val", where 'a = nat] by simp
  ultimately show ?thesis using ones_sum_small [of "unat (xdp2_checksum_fold32 val)"] by (simp only: u)
qed

lemma fold64_value: "unat (xdp2_checksum_fold64 val) = ones_sum (unat val)"
proof -
  let ?v = "unat val" and ?M = "2 ^ 32 :: nat"
  let ?w = "?v mod ?M + ?v div ?M"
  have "ones_sum (?w mod ?M + ?w div ?M) = ones_sum ?v" unfolding fold_ones [OF carry_32] ..
  then show ?thesis
    using fold_word [of 32 val]
    by (simp add: xdp2_checksum_fold64_def masks Let_def fold32_value unat_cut)
qed

section \<open>Adding to a partial sum\<close>

lemma ones_sum_part:
  assumes "M mod 65535 = 1" "0 < M" "b < M"
  shows "ones_sum (M * (v div M) + (v mod M + b + (v mod M + b) div M) mod M) = ones_sum (v + b)"
proof -
  let ?s = "v mod M + b"
  have "v mod M < M" using assms(2) by simp
  then have "?s + 2 \<le> 2 * M" using assms(3) by linarith
  then have "(?s + ?s div M) mod M = ?s mod M + ?s div M" by (rule end_carry)
  then have "ones_sum (M * (v div M) + (?s + ?s div M) mod M) = ones_sum (v div M + (?s mod M + ?s div M))"
    using ones_sum_carry [OF assms(1), of "?s mod M + ?s div M" "v div M"] by (simp add: ac_simps)
  also have "\<dots> = ones_sum (v div M + ?s)"
    using ones_sum_add [of "v div M" "?s mod M + ?s div M"] ones_sum_add [of "v div M" ?s] fold_ones [OF assms(1), of ?s]
    by simp
  also have "\<dots> = ones_sum (v + b)"
    using ones_sum_carry [OF assms(1), of "v mod M + b" "v div M"] by (simp add: ac_simps)
  finally show ?thesis .
qed

lemma add32_value: "ones_sum (unat (xdp2_checksum_add32 val1 val2)) = ones_sum (unat val1 + unat val2)"
proof -
  let ?v = "unat val1" and ?b = "unat val2" and ?M = "2 ^ 32 :: nat"
  let ?s = "(val1 AND mask 32) + ucast val2"
  have b: "?b < ?M" using unsigned_less [of val2, where 'a = nat] by simp
  moreover have "?v mod ?M < ?M" by simp
  ultimately have s: "unat ?s = ?v mod ?M + ?b" by (simp add: unat_word_ariths unat_low unat_cut)
  have "unat (?s + drop_bit 32 ?s) mod ?M = (?v mod ?M + ?b + (?v mod ?M + ?b) div ?M) mod ?M"
    by (subst unat_word_ariths(1), simp only: unat_high s) (simp add: mod_mod_cancel)
  then have "unat (xdp2_checksum_add32 val1 val2) =
      ?M * (?v div ?M) + (?v mod ?M + ?b + (?v mod ?M + ?b) div ?M) mod ?M"
    unfolding xdp2_checksum_add32_def masks Let_def unat_join by (simp only:)
  then show ?thesis using ones_sum_part [OF carry_32 _ b, of ?v] by (simp only:) simp
qed

lemma add16_value: "ones_sum (unat (xdp2_checksum_add16 val1 val2)) = ones_sum (unat val1 + unat val2)"
proof -
  let ?v = "unat val1" and ?b = "unat val2" and ?M = "2 ^ 16 :: nat"
  let ?s = "ucast ((val1 AND mask 16) + ucast val2) :: u32"
  have b: "?b < ?M" using unsigned_less [of val2, where 'a = nat] by simp
  moreover have "?v mod ?M < ?M" by simp
  ultimately have s: "unat ?s = ?v mod ?M + ?b" by (simp add: unat_word_ariths unat_low unat_cut)
  have "unat (?s + drop_bit 16 ?s) mod ?M = (?v mod ?M + ?b + (?v mod ?M + ?b) div ?M) mod ?M"
    by (simp only: unat_word_ariths unat_high s) (simp add: mod_mod_cancel)
  moreover have "(ucast (x AND mask 16) :: u64) = ucast x AND mask 16" for x :: u32
    by (rule bit_word_eqI) (auto simp: bit_ucast_iff bit_and_iff bit_mask_iff)
  ultimately have "unat (xdp2_checksum_add16 val1 val2) =
      ?M * (?v div ?M) + (?v mod ?M + ?b + (?v mod ?M + ?b) div ?M) mod ?M"
    unfolding xdp2_checksum_add16_def masks Let_def by (simp add: unat_join unat_cut mod_mod_cancel)
  then show ?thesis using ones_sum_part [OF carry_16 _ b, of ?v] by (simp only:) simp
qed

lemma add64_value: "ones_sum (unat (xdp2_checksum_add64 val1 val2)) = ones_sum (unat val1 + unat val2)"
proof -
  let ?v = "unat val1" and ?w = "unat val2" and ?M = "2 ^ 32 :: nat"
  have "?v div ?M < ?M" "?w div ?M < ?M"
    using unsigned_less [of val1, where 'a = nat] unsigned_less [of val2, where 'a = nat]
    by (simp_all add: less_mult_imp_div_less)
  moreover have "?v mod ?M < ?M" "?w mod ?M < ?M" by simp_all
  ultimately have "unat (xdp2_checksum_add64 val1 val2) = (?v mod ?M + ?w mod ?M) + (?v div ?M + ?w div ?M)"
    by (simp add: xdp2_checksum_add64_def masks Let_def unat_word_ariths unat_low unat_high)
  moreover have "?v + ?w = (?v mod ?M + ?w mod ?M) + ?M * (?v div ?M + ?w div ?M)"
    by (simp add: algebra_simps)
  ultimately show ?thesis using ones_sum_carry [OF carry_32] by (simp only:)
qed

section \<open>The sum of a buffer\<close>

text \<open>The 16-bit words of a buffer on a little-endian machine; a last byte alone is a low byte.\<close>

fun sum16 :: "u8 list \<Rightarrow> nat" where
  "sum16 (a # b # bs) = unat a + 256 * unat b + sum16 bs"
| "sum16 [a] = unat a"
| "sum16 [] = 0"

lemma unat_word_of_le:
  "8 * Suc (length bs) \<le> LENGTH('a) \<Longrightarrow>
   unat (word_of_le (b # bs) :: 'a::len word) = unat b + 256 * unat (word_of_le bs :: 'a word)"
proof -
  assume len: "8 * Suc (length bs) \<le> LENGTH('a)"
  let ?r = "word_of_le (b # bs) :: 'a word"
  have [simp]: "(8 + n) div 8 = Suc (n div 8)" for n :: nat by simp
  have "drop_bit 8 ?r = word_of_le bs"
    by (rule bit_word_eqI) (use len in \<open>auto simp: bit_drop_bit_eq bit_word_of_le simp del: word_of_le.simps\<close>)
  moreover have "?r AND mask 8 = ucast b"
    by (rule bit_word_eqI) (use len in \<open>auto simp: bit_and_iff bit_mask_iff bit_or_iff bit_ucast_iff bit_push_bit_iff dest: bit_u8_imp\<close>)
  moreover have "unat (ucast b :: 'a word) = unat b"
    using len unsigned_less [of b, where 'a = nat] power_increasing [of 8 "LENGTH('a)" "2 :: nat"]
    by (simp add: unat_cut)
  ultimately show ?thesis using unat_split [of ?r 8] by (simp del: word_of_le.simps)
qed

lemma sum16_append: "even (length xs) \<Longrightarrow> sum16 (xs @ ys) = sum16 xs + sum16 ys"
  by (induction xs rule: sum16.induct) simp_all

lemma ones_sum_word:
  fixes w :: u32
  assumes "length bs = 4" "w = word_of_le bs"
  shows "ones_sum (x + unat w) = ones_sum (x + sum16 bs)"
proof -
  obtain a b c d where bs: "bs = [a, b, c, d]" using assms(1) by (auto simp: numeral_eq_Suc length_Suc_conv)
  have "unat w = (unat a + 256 * unat b) + 2 ^ 16 * (unat c + 256 * unat d)"
    unfolding assms(2) bs by (simp add: unat_word_of_le del: word_of_le.simps(2))
  then show ?thesis
    using ones_sum_carry [OF carry_16, of "x + (unat a + 256 * unat b)" "unat c + 256 * unat d"]
    by (simp add: bs ac_simps)
qed

lemma sum_words_ok:
  assumes "off + 4 * n \<le> length p" "unat acc + n * 2 ^ 32 < 2 ^ 63"
  shows "\<exists>s. sum_words p n off acc = Ok (s, off + 4 * n) \<and> unat s \<le> unat acc + n * 2 ^ 32 \<and>
    (\<forall>x. ones_sum (x + unat s) = ones_sum (x + unat acc + sum16 (take (4 * n) (drop off p))))"
  using assms
proof (induction n arbitrary: off acc)
  case (Suc n)
  let ?bs = "take 4 (drop off p)"
  let ?w = "word_of_le ?bs :: u32"
  have w: "unat ?w < 2 ^ 32" using unsigned_less [of ?w, where 'a = nat] by simp
  then have acc: "unat (acc + ucast ?w) = unat acc + unat ?w"
    using Suc.prems(2) by (simp add: unat_word_ariths unat_cut)
  have bs: "length ?bs = 4" using Suc.prems by simp
  obtain s where s: "sum_words p n (off + 4) (acc + ucast ?w) = Ok (s, off + 4 + 4 * n)"
    "unat s \<le> unat acc + unat ?w + n * 2 ^ 32"
    "\<And>x. ones_sum (x + unat s) = ones_sum (x + (unat acc + unat ?w) + sum16 (take (4 * n) (drop (off + 4) p)))"
    using Suc.IH [of "off + 4" "acc + ucast ?w"] Suc.prems w acc by auto
  have "even (length ?bs)" unfolding bs by simp
  then have t: "sum16 (take (4 * Suc n) (drop off p)) = sum16 ?bs + sum16 (take (4 * n) (drop (off + 4) p))"
    using take_add [of 4 "4 * n" "drop off p"] sum16_append [of ?bs] by (simp add: add.commute)
  have "ones_sum (x + unat s) = ones_sum (x + unat acc + sum16 (take (4 * Suc n) (drop off p)))" for x
    using s(3) [of x] ones_sum_word [OF bs refl, of "x + unat acc + sum16 (take (4 * n) (drop (off + 4) p))"]
    unfolding t by (simp add: ac_simps)
  moreover have "sum_words p (Suc n) off acc = Ok (s, off + 4 * Suc n)"
    using s(1) Suc.prems by (simp add: rd32_word ac_simps)
  ultimately show ?case using s(2) w by auto
qed simp

lemma sum_words_Err:
  "off \<le> length p \<Longrightarrow> length p < off + 4 * n \<Longrightarrow> sum_words p n off acc = Err OutOfBounds"
proof (induction n arbitrary: off acc)
  case (Suc n)
  show ?case
  proof (cases "off + 4 \<le> length p")
    case True
    then show ?thesis using Suc.IH [of "off + 4"] Suc.prems by (simp add: rd32_word)
  qed (simp add: rd32_Err)
qed simp

text \<open>The two bytes and the byte after the last word of four.\<close>

definition last_bytes :: "packet \<Rightarrow> nat \<Rightarrow> u64 \<Rightarrow> nat \<Rightarrow> u64 res" where
  "last_bytes src r acc off =
     bind_res (if 2 \<le> r then map_res (\<lambda>w. (acc + ucast w, off + 2)) (rd16 src off) else Ok (acc, off))
       (\<lambda>(acc, off). if odd r then map_res (\<lambda>b. acc + ucast b) (rd8 src off) else Ok acc)"

lemma last_bytes_ok:
  assumes "r < 4" "off + r \<le> length p" "unat acc < 2 ^ 63"
  shows "\<exists>s. last_bytes p r acc off = Ok s \<and> unat s = unat acc + sum16 (take r (drop off p))"
proof -
  have add16: "unat (acc + ucast w) = unat acc + unat w" for w :: u16
    using assms(3) unsigned_less [of w, where 'a = nat] by (simp add: unat_word_ariths unat_cut)
  have add8: "unat (x + ucast b) = unat x + unat b" if "unat x < 2 ^ 63 + 2 ^ 16" for x :: u64 and b :: u8
    using that unsigned_less [of b, where 'a = nat] by (simp add: unat_word_ariths unat_cut)
  have two: "take 2 (drop off p) = [p ! off, p ! Suc off]" if "2 \<le> r"
    using assms(2) that by (simp add: numeral_2_eq_2 take_Suc_conv_app_nth)
  have le: "unat (acc + ucast w) < 2 ^ 63 + 2 ^ 16" for w :: u16
    using assms(3) unsigned_less [of w, where 'a = nat] by (simp add: add16)
  consider "r = 0" | "r = 1" | "r = 2" | "r = 3" using assms(1) by linarith
  then show ?thesis
  proof cases
    case 2
    then show ?thesis using assms add8 [of acc]
      by (auto simp: last_bytes_def rd8_word take_Suc_conv_app_nth)
  next
    case 3
    then show ?thesis using assms two
      by (auto simp: last_bytes_def rd16_word add16 unat_word_of_le simp del: word_of_le.simps(2))
  next
    case 4
    then have "take 3 (drop off p) = [p ! off, p ! Suc off] @ [p ! (off + 2)]"
      using assms(2) two take_add [of 2 1 "drop off p"] by (simp add: take_Suc_conv_app_nth)
    then show ?thesis using 4 assms two add8 [OF le]
      by (auto simp: last_bytes_def rd16_word rd8_word add16 unat_word_of_le simp del: word_of_le.simps(2))
  qed (simp add: last_bytes_def)
qed

lemma last_bytes_Err:
  assumes "r < 4" "off \<le> length p" "length p < off + r"
  shows "last_bytes p r acc off = Err OutOfBounds"
  using assms by (auto simp: last_bytes_def rd16_def rd8_def)

lemma compute_parts:
  "xdp2_checksum_compute src len =
     (if \<not> unat len < 2 ^ 32 then Err AssertFailed
      else bind_res (sum_words src (unat len div 4) 0 0) (\<lambda>(acc, off).
           map_res xdp2_checksum_fold64 (last_bytes src (unat len mod 4) acc off)))"
proof -
  have a: "len < push_bit 32 1 \<longleftrightarrow> unat len < 2 ^ 32" by (simp add: word_less_nat_alt)
  have b: "len AND 2 \<noteq> 0 \<longleftrightarrow> 2 \<le> unat len mod 4"
  proof -
    have "len AND 2 \<noteq> 0 \<longleftrightarrow> bit (unat len) 1"
      using and_exp_eq_0_iff_not_bit [of len 1] by (simp add: bit_unsigned_iff)
    moreover have "odd (n div 2) \<longleftrightarrow> 2 \<le> n mod 4" for n :: nat by presburger
    ultimately show ?thesis by (simp add: bit_iff_odd)
  qed
  have c: "len AND 1 \<noteq> 0 \<longleftrightarrow> odd (unat len mod 4)"
  proof -
    have "len AND 1 \<noteq> 0 \<longleftrightarrow> bit (unat len) 0"
      using and_exp_eq_0_iff_not_bit [of len 0] by (simp add: bit_unsigned_iff)
    moreover have "odd n \<longleftrightarrow> odd (n mod 4)" for n :: nat by presburger
    ultimately show ?thesis by (simp add: bit_0)
  qed
  show ?thesis unfolding xdp2_checksum_compute_def last_bytes_def a b c
    by (simp add: map_res_of_bind map_res_bind [symmetric] case_prod_unfold)
qed

lemma compute_inside:
  assumes len: "unat len < 2 ^ 32" "unat len \<le> length src"
  shows "xdp2_checksum_compute src len = Ok (of_nat (ones_sum (sum16 (take (unat len) src))))"
proof -
  let ?n = "unat len" and ?k = "unat len div 4" and ?r = "unat len mod 4"
  let ?rest = "take ?r (drop (4 * ?k) src)"
  have n: "4 * ?k + ?r = ?n" "?r < 4" by simp_all
  have inside: "4 * ?k \<le> length src" using len(2) n(1) by linarith
  moreover have "?k * 2 ^ 32 < 2 ^ 63" using len(1) by simp
  ultimately obtain s where s: "sum_words src ?k 0 0 = Ok (s, 4 * ?k)" "unat s < 2 ^ 63"
      "\<And>x. ones_sum (x + unat s) = ones_sum (x + sum16 (take (4 * ?k) src))"
    using sum_words_ok [of 0 ?k src 0] by auto
  obtain t where t: "last_bytes src ?r s (4 * ?k) = Ok t" "unat t = unat s + sum16 ?rest"
    using last_bytes_ok [of ?r "4 * ?k" src s] n len(2) s(2) by auto
  have "even (length (take (4 * ?k) src))" using inside by (simp add: min_absorb2)
  then have "sum16 (take ?n src) = sum16 (take (4 * ?k) src) + sum16 ?rest"
    using sum16_append [of "take (4 * ?k) src" ?rest] n(1) by (simp only: take_add [symmetric])
  then have "unat (xdp2_checksum_fold64 t) = ones_sum (sum16 (take ?n src))"
    using s(3) [of "sum16 ?rest"] t(2) by (simp add: fold64_value add.commute)
  then have "of_nat (ones_sum (sum16 (take ?n src))) = (of_nat (unat (xdp2_checksum_fold64 t)) :: u16)"
    by (simp only:)
  then have "of_nat (ones_sum (sum16 (take ?n src))) = xdp2_checksum_fold64 t" by simp
  then show ?thesis using s(1) t(1) len(1) by (simp add: compute_parts)
qed

lemma compute_outside:
  assumes len: "unat len < 2 ^ 32" "\<not> unat len \<le> length src"
  shows "xdp2_checksum_compute src len = Err OutOfBounds"
proof (cases "4 * (unat len div 4) \<le> length src")
  case True
  let ?k = "unat len div 4"
  have "?k * 2 ^ 32 < 2 ^ 63" using len(1) by simp
  then obtain s where "sum_words src ?k 0 0 = Ok (s, 4 * ?k)" using sum_words_ok [of 0 ?k src 0] True by auto
  moreover have "last_bytes src (unat len mod 4) s (4 * ?k) = Err OutOfBounds"
    using last_bytes_Err [OF _ True] len(2) by simp
  ultimately show ?thesis using len(1) by (simp add: compute_parts)
next
  case False
  then have "sum_words src (unat len div 4) 0 0 = Err OutOfBounds" by (simp add: sum_words_Err)
  then show ?thesis using len(1) by (simp add: compute_parts)
qed

section \<open>Main results\<close>

text \<open>C17: \<open>xdp2_checksum_compute\<close> is the one's complement sum of the 16-bit words of the buffer, for
  every length below \<open>2^32\<close>, odd lengths included; the assertion stops the others, and a buffer
  shorter than the length is read past its end.\<close>

theorem checksum_compute_value:
  "xdp2_checksum_compute src len =
     (if unat len \<ge> 2 ^ 32 then Err AssertFailed
      else if unat len \<le> length src then Ok (of_nat (ones_sum (sum16 (take (unat len) src))))
      else Err OutOfBounds)"
  by (simp add: compute_inside compute_outside) (simp add: compute_parts)

text \<open>C18: Folding keeps the one's complement sum, and adding a number of 16, 32 or 64 bits to a
  partial sum of 64 bits adds it in one's complement: no carry is lost.\<close>

theorem checksum_partial_sums:
  "unat (xdp2_checksum_fold32 v32) = ones_sum (unat v32) \<and>
   unat (xdp2_checksum_fold64 v) = ones_sum (unat v) \<and>
   unat (xdp2_checksum_fold64 (xdp2_checksum_add16 v x16)) = ones_sum (unat v + unat x16) \<and>
   unat (xdp2_checksum_fold64 (xdp2_checksum_add32 v x32)) = ones_sum (unat v + unat x32) \<and>
   unat (xdp2_checksum_fold64 (xdp2_checksum_add64 v x64)) = ones_sum (unat v + unat x64)"
  by (simp add: fold32_value fold64_value add16_value add32_value add64_value)

end
