(* ===== verification/Spec2Isabelle.thy ===== *)
theory Spec2Isabelle
  imports Parser_Big_Flow Proto_Protobuf Hsiphash Lzf Timer_Api Crc Checksum
begin

text \<open>
  Verification of xdp2, a library for parsing packets (\<open>src/src\<close> of the repository: \<open>lib\<close> and
  \<open>include\<close>). File names below are relative to \<open>src/src\<close>.

  \<^bold>\<open>The program.\<close> An application describes a parser as a graph: protocol definitions (minimum
  length, functions for the header length and the next protocol), parse nodes (a protocol
  definition with callbacks and a table of next nodes) and a parser with its limits. The engine
  walks the graph along the headers of a packet, calls the callbacks, which extract metadata into
  one frame per level of encapsulation, and returns a stop code. Besides the engine there are
  protocol definitions for common protocols, metadata templates, ready-made parsers, and
  supporting libraries, of which the hash functions are used by the parsers.

  \<^bold>\<open>Common conventions\<close> (\<open>Xdp2_Prelude\<close>, \<open>Le_Words\<close>). C integers are words of their width;
  \<open>size_t\<close> and \<open>ssize_t\<close> are the same 64-bit word, read with \<open>unat\<close> or \<open>sint\<close> as the comparison in the
  source demands. Packet memory is a list of bytes and a pointer into it an offset; the
  host is little-endian. Code that can go wrong returns \<open>'a res\<close>: \<open>Ok\<close> of a value or \<open>Err\<close> of a
  fault, which is undefined behaviour (a read or write outside an object, a NULL dereference, a
  wrong cast, an undefined shift), a failed assertion, or \<open>StillRunning\<close> when the fuel of a loop is
  used up. So a theorem that a function returns \<open>Ok\<close> says that it ends and does none of this.
  Function pointers are HOL functions, graph pointers are numbers of nodes. Debug
  output is left out.

  \<^bold>\<open>The engine.\<close>
  \<^item> \<open>Parser_Types\<close>: \<open>include/xdp2/parser_types.h\<close>, the structures.
  \<^item> \<open>Tlvs\<close>, \<open>Flag_Fields\<close>, \<open>Arrays\<close>: the sub-parsers \<open>xdp2_parse_tlvs\<close>, \<open>xdp2_parse_flag_fields\<close> and
    \<open>xdp2_parse_array\<close> of \<open>lib/xdp2/parser.c\<close> with their headers. The locale \<open>tlv_graph\<close> is the contract
    of the TLV nodes.
  \<^item> \<open>Parser\<close>: \<open>__xdp2_parse\<close>, one definition per part of its loop. The locale \<open>parse_graph\<close>
    is the contract between the engine and a graph with its callbacks; inside it
    the engine is shown to end without a fault and to keep the application's invariant.
  \<^item> \<open>Parser_Fast\<close>: \<open>__xdp2_parse_fast\<close> and \<open>xdp2_parse_validate_fast\<close>, whose depth-first search is
    proved equivalent to reachability.
  \<^item> \<open>Parser_Api\<close>: the macros that make nodes and parsers, control data, \<open>xdp2_parse\<close>. The entry
    point of an optimized parser, which the xdp2 compiler generates, is a parameter.

  The number of nodes a parser visits is bounded by \<open>max_nodes\<close>, so its loop is a recursion on
  that number; the TLV loops run on fuel, and \<open>3 * length p + 5\<close> is enough for the library's
  graph, in general a number linear in the packet and in the rank of the nested TLV nodes.

  \<^bold>\<open>Protocols, metadata and parsers.\<close>
  \<^item> \<open>Proto_Base\<close>, \<open>Proto_Link\<close>, \<open>Proto_Ip\<close>, \<open>Proto_Transport\<close>, \<open>Proto_Tunnel\<close>, \<open>Proto_Protobuf\<close>: the
    definitions of \<open>include/xdp2/proto_defs\<close> with their length and next-protocol functions, and
    for each that it reads only the header it was given. \<open>Proto_Protobuf\<close> has the round trip
    of varints.
  \<^item> \<open>Metadata\<close>, \<open>Metadata_Hash\<close>: \<open>include/xdp2/parser_metadata.h\<close>, the frame, the extraction
    templates, the canonical order of the two ends of a flow and the hash of a frame.
  \<^item> \<open>Parser_Big\<close>, \<open>Parser_Big_Flow\<close>: \<open>lib/xdp2/parsers/parser_big.c\<close> and its header. The locale
    \<open>parse_graph\<close> is interpreted on this graph (\<open>big_ether\<close>), for every packet; the second theory
    follows the engine along Ethernet, IPv4 and ports.

  \<^bold>\<open>Hash functions and checks.\<close>
  \<^item> \<open>Siphash\<close> and \<open>Hsiphash\<close> model \<open>lib/siphash/siphash.c\<close> and its header and prove that every entry
    point computes the published function. The locale \<open>digest\<close> of \<open>Digest\<close> is the contract of a
    digest computed in pieces, interpreted on the siphash iterator.
  \<^item> \<open>Crc\<close>: \<open>lib/crc\<close>, that is CRC-64, CRC-32C in software, CRC-16 and the slice-by-eight routines of
    \<open>crcspeed.c\<close> for little-endian machines. The locale \<open>crc_steps\<close> states what slicing relies on (the
    step of a byte is linear and splits into a table entry and a shift); it is interpreted on the
    reflected and on the forward step, and gives the values of the tables and of eight bytes at a
    time. The functions are equal to the division bit by bit.
  \<^item> \<open>Checksum\<close>: \<open>include/xdp2/checksum.h\<close>, against sums in one's complement.

  \<^bold>\<open>Compression.\<close> \<open>Lzf\<close>, on the buffers of \<open>Buffers\<close>, models \<open>lib/lzf\<close>: compression is safe, ends and
  succeeds with enough room, decompression is safe on all octets and inverts it. The loops run on
  fuel; any number above the length of the input is enough.

  \<^bold>\<open>Bitmaps.\<close> \<open>Bitmap_Word\<close> models the operations on one word of \<open>include/xdp2/bitmap_word.h\<close>, with the
  fast and the default versions; \<open>Bitmap\<close> the walk over words of \<open>bitmap_helpers.h\<close> and the operations
  of \<open>bitmap.h\<close> made from it, for words of any size in host or swapped order, forwards and
  backwards. The locale \<open>word_conv\<close> is the contract of a conversion of words, interpreted on
  the host order and on the swapped orders of 16, 32 and 64 bits. The operations are refinements of operations on
  sets of bit numbers.

  \<^bold>\<open>Timers.\<close> \<open>Timer\<close> models the timer wheel of \<open>lib/xdp2/timer.c\<close>: the wheel as a record, its slots as
  lists, its bitmap with the operations of \<open>Bitmap\<close>, and the thread that waits for the next pop.
  \<open>Timer_Run\<close> has the run of the wheel; the locale \<open>timer_callbacks\<close> is the contract of the callbacks,
  which may add and remove timers, interpreted on sequences of calls. \<open>Timer_Api\<close> has the
  refinement to a map from timers to expiry times and the states of a wheel with its thread as
  an inductive relation. A run takes two numbers as fuel: one for the loops over the slots and the
  retries of a slot, for which any number above \<open>num_slots + timer_count\<close> is enough, and one for the
  repetitions that \<open>run_again\<close> asks for, where 1 is enough when the callbacks do not run the wheel
  themselves. The
  thread reads the clock twice in each wake-up. The relation of the reachable states starts with the calls made
  before the thread first gets the mutex, and assumes zeroed memory, a start before the first expiry and less
  than ten seconds between the two readings; the clock stands still during a run.

  \<^bold>\<open>The properties\<close> are the theorems with a number \<open>C\<close>. They stand here or at the end of the
  theory of their component. Those that state a fault or a divergence are proved from the same
  definitions, for all the packets and states that their hypotheses describe; a fault that is shown on one
  concrete packet is a theorem without a number.

  \<^bold>\<open>Not modelled.\<close> The compiler in \<open>tools\<close> is C++ on top of LLVM. The command line, shared memory,
  locks, threads and accelerator code are calls of the operating system. The templates for XDP
  and BPF are input of the compiler. Printing functions have no result. The flow dissector is a
  copy of kernel code used for comparison in tests. The routines of \<open>lib/crc\<close> for big-endian machines
  are never called on the little-endian host of the model. Of the bitmaps, the forms with a position
  for each bitmap, shifts, rotations and ranges are left out. Packet vectors, the object allocator and
  the queues keep tagged or translated pointers in shared memory and are not modelled, nor are the
  lookup tables, which are macros over linker sections, murmur3, variable structures, the
  configuration functions, parselite and the smaller example parser.
\<close>

section \<open>Concrete packets\<close>

text \<open>Ethernet with an IPv4 packet inside an IPv4 packet; six IPv4 headers inside each other;
  a TCP segment whose data offset is zero; a UDP datagram. The control data is that of
  \<open>XDP2_CTRL_RESET_VAR_DATA\<close>.\<close>

definition ctrl0 :: xdp2_ctrl_data where "ctrl0 = \<lparr>var = ctrl_var0, pkt = ctrl_pkt0\<rparr>"

definition no_entry_point :: "frame_mem entry_point" where
  "no_entry_point P p hdr len ctrl us = Ok (XDP2_STOP_FAIL, ctrl, us)"

definition ether_ip :: packet where "ether_ip = replicate 12 0 @ [0x08, 0x00]"

definition ipv4_header :: "u8 \<Rightarrow> packet" where
  "ipv4_header pr = [0x45, 0, 0, 40, 0, 0, 0, 0, 64, pr, 0, 0, 10, 0, 0, 1, 10, 0, 0, 129]"

definition flow_header :: "u8 \<Rightarrow> u8 list \<Rightarrow> u8 list \<Rightarrow> packet" where
  "flow_header pr sa da = [0x45, 0, 0, 40, 0, 0, 0, 0, 64, pr, 0, 0] @ sa @ da"

definition ipip_packet :: packet where "ipip_packet = ether_ip @ ipv4_header 4 @ ipv4_header 17"

definition deep_packet :: packet where
  "deep_packet = ether_ip @ concat (replicate 5 (ipv4_header 4)) @ ipv4_header 17"

definition short_tcp :: packet where "short_tcp = ether_ip @ ipv4_header 6 @ [0, 80, 0, 80] @ replicate 16 0"

definition udp_packet :: packet where
  "udp_packet = ether_ip @ ipv4_header 17 @ [0, 53, 0x12, 0x34, 0, 8, 0, 0]"

section \<open>Shared lemmas\<close>

lemma short_header_stops:
  assumes "nodes P (root_node P) = Some nd" "pn_proto_def nd = Some pd"
    and "len < ucast (pd_min_len pd)" and "fail_node (config P) = None"
  shows "\<exists>ctrl'. parse_result (xdp2_parse_generic fuel P p hdr len ctrl us) = Ok (XDP2_STOP_LENGTH, ctrl', us)"
proof -
  have "parse_step fuel P p (parse_init P hdr len ctrl us) =
      Ok (Out XDP2_STOP_LENGTH (parse_init P hdr len ctrl us
        \<lparr>ps_ctrl := set_last_node (Some (root_node P)) ctrl\<rparr>))"
    using assms by (simp add: parse_step_def parse_init_def deref_def header_length_def)
  then show ?thesis
    using assms(4) by (cases "unat (max_nodes (config P))")
      (auto simp: xdp2_parse_generic_def parse_out_def parse_result_def parse_init_def xdp2_consts XDP2_CODE_IS_OKAY_def)
qed

lemma l3_roots:
  assumes "xdp2_lookup_parser_table l3_parser_table key = Some P"
  shows "parser_type P = XDP2_GENERIC \<and> fail_node (config P) = None \<and>
    (\<exists>nd pd. nodes P (root_node P) = Some nd \<and> pn_proto_def nd = Some pd \<and> 0 < pd_min_len pd)"
  using assms
  by (simp add: l3_parser_table_def split: if_splits) 
   (auto simp: big_default_parser_def XDP2_PARSER_def XDP2_PARSER_CONFIG_DEFAULTS_def big_nodes_def
       proto_simps
       ipv4_check_node_def ipv6_check_node_def e8021AD_node_def e8021Q_node_def mpls_node_def arp_node_def
       rarp_node_def tipc_node_def batman_node_def fcoe_node_def pppoe_node_def
       XDP2_MAKE_PARSE_NODE_def XDP2_MAKE_AUTONEXT_PARSE_NODE_def XDP2_MAKE_LEAF_PARSE_NODE_def
       make_parse_node_common_def)

lemma parse_again_stuck:
  assumes "tlen < tlv_min_len d" "tlv_wildcard_node tn = Some w"
  shows "parse_again fuel nested P p tn (Some d) nid hdr tlen frame ctrl us = Err StillRunning"
  using assms by (induction fuel arbitrary: nid) simp_all

lemma packet_lengths: "length ipip_packet = 54" "length short_tcp = 54" "length udp_packet = 42"
  by (simp_all add: ipip_packet_def short_tcp_def udp_packet_def ether_ip_def ipv4_header_def)

lemma mem0_ok: "mem_ok n (mem0 n)"
  by (simp add: mem_ok_def mem0_def frame0_def frame_ok_def)

lemma ether_table_0: "lookup_node 0 ether_table = None"
  by code_simp

lemma big_tables_closed: "tables_closed xdp2_parser_big_ether"
proof -
  have step: "m \<in> big_ids" if n: "n \<in> big_ids" and m: "m \<in> set (table_succ xdp2_parser_big_ether n)" for n m
  proof -
    obtain nd pd where nd: "nodes xdp2_parser_big_ether n = Some nd"
      "next_ok big_ids (mem_ok sizeof_big_metadata) nd pd"
      using big_ether.parse_node [OF n, where p = "[]"] by (auto simp: parse_node_ok_def)
    show ?thesis
    proof (cases "pn_proto_table nd")
      case None
      then show ?thesis using m nd(1) by (simp add: table_succ_def)
    next
      case (Some t)
      then have "\<exists>k. (k, Some m) \<in> set t"
        using m nd(1) by (auto simp: table_succ_def List.map_filter_def)
      then show ?thesis using nd(2) Some by (auto simp: next_ok_def)
    qed
  qed
  have "n \<in> big_ids" if "table_reach xdp2_parser_big_ether id_ether n" for n
    using that by (induction rule: table_reach.induct) (simp, rule step)
  then show ?thesis
    using big_ether.parse_node by (fastforce simp: tables_closed_def big_config)
qed

section \<open>The generic engine\<close>

text \<open>C1: the big parser of the library is safe on every packet. Whatever the bytes of the
  packet, with control data reset and a metadata object of the size of
  \<open>struct xdp2_parser_big_metadata\<close>, \<open>xdp2_parse\<close> returns; no header is read outside the
  packet, no frame is written outside the object, no NULL pointer is followed. The fuel
  bounds the TLV loops only.\<close>

theorem big_ether_never_faults:
  assumes "unat len \<le> length p" and "mem_ok sizeof_big_metadata mdata" and "3 * length p + 5 \<le> fuel"
  shows "\<exists>ret ctrl' mdata'. xdp2_parse entry_point fuel xdp2_parser_big_ether p 0 len
      (XDP2_CTRL_RESET_VAR_DATA ctrl) mdata = Ok (ret, ctrl', mdata') \<and>
    mem_ok sizeof_big_metadata mdata'"
  using big_ether.wp_xdp2_parse_generic [of 0 len p mdata fuel "XDP2_CTRL_RESET_VAR_DATA ctrl"] assms
  by (auto simp: wp_iff big_ether.data_ok_def big_ether.tlv_fuel_def xdp2_parse_def parse_result_def big_config)

theorem big_ether_never_faults_witness:
  "\<exists>ret ctrl' mdata'. xdp2_parse no_entry_point 200 xdp2_parser_big_ether ipip_packet 0 54
      (XDP2_CTRL_RESET_VAR_DATA ctrl0) (mem0 sizeof_big_metadata) = Ok (ret, ctrl', mdata') \<and>
    mem_ok sizeof_big_metadata mdata'"
  by (rule big_ether_never_faults) (simp_all add: packet_lengths mem0_ok)

text \<open>C2: the engine is safe and ends, when the counter of encapsulations starts at zero, for every
  parse graph that keeps the contract \<open>parse_graph\<close>: the callbacks read only the header they are given and keep the
  application's invariant \<open>I\<close>, table entries point to nodes, and every frame within the limits
  is one the application provides. The final header lies in the packet, and the frame is the
  one of the number of encapsulations, which never passes the two limits of the
  configuration.\<close>

theorem parser_never_faults:
  assumes "parse_graph P p I Fr T M rk N R"
    and "hdr + unat len \<le> length p" and "I us" and "encaps (var ctrl) = 0"
    and "length p + 1 + R * (length p + 2) \<le> fuel"
  shows "\<exists>ret st. xdp2_parse_generic fuel P p hdr len ctrl us = Ok (ret, st) \<and>
    ps_hdr st + unat (ps_len st) \<le> length p \<and> I (ps_us st) \<and>
    ps_frame_num st \<le> unat (max_frames (config P)) \<and> ps_frame_num st \<le> unat (max_encaps (config P)) \<and>
    ps_frame st = unat (metameta_size (config P)) + ps_frame_num st * unat (frame_size (config P))"
proof -
  have t: "tlv_graph P p I Fr T M rk" using assms(1) by (simp add: parse_graph_def)
  show ?thesis
    using parse_graph.wp_xdp2_parse_generic [OF assms(1,2,3) _ assms(4), of fuel] assms(5)
    by (auto simp: wp_iff parse_graph.data_ok_def [OF assms(1)] tlv_graph.tlv_fuel_def [OF t])
qed

theorem parser_never_faults_witness:
  "\<exists>ret st. xdp2_parse_generic 200 xdp2_parser_big_ether ipip_packet 0 54 ctrl0 (mem0 sizeof_big_metadata) = Ok (ret, st) \<and>
    ps_hdr st + unat (ps_len st) \<le> length ipip_packet \<and> mem_ok sizeof_big_metadata (ps_us st) \<and>
    ps_frame_num st \<le> unat (max_frames (config xdp2_parser_big_ether)) \<and>
    ps_frame_num st \<le> unat (max_encaps (config xdp2_parser_big_ether)) \<and>
    ps_frame st = unat (metameta_size (config xdp2_parser_big_ether)) +
      ps_frame_num st * unat (frame_size (config xdp2_parser_big_ether))"
  by (rule parser_never_faults [OF big_ether.parse_graph_axioms])
    (simp_all add: packet_lengths mem0_ok ctrl0_def ctrl_var0_def)

text \<open>C9: the TLV parser returns, does not read outside the packet and restores the control
  data (the nesting level is balanced on every path), for TLV nodes that keep the contract
  \<open>tlv_graph\<close>, with fuel linear in the packet length and in the rank of the nodes.\<close>

theorem tlvs_never_fault:
  assumes "tlv_graph P p I Fr T M rk" and "pn_proto_def nd = Some pd"
    and "pn_super nd = TlvsNode tn" and "pd_super pd = TlvsDef d"
    and "tlvs_def_ok p m d" and "tlvs_node_ok P p T M rk R tn"
    and "m \<le> unat hlen" and "hdr + unat hlen \<le> length p" and "Fr frame" and "I us"
    and "length p + 1 + R * (length p + 2) \<le> fuel"
  shows "\<exists>ret us'. xdp2_parse_tlvs fuel P p nd hdr hlen frame ctrl us = Ok (ret, ctrl, us') \<and> I us'"
  using tlv_graph.wp_xdp2_parse_tlvs [OF assms(1-8) _ assms(9,10), of fuel ctrl] assms(11)
  by (auto simp: wp_iff tlv_graph.tlv_post_def [OF assms(1)] tlv_graph.tlv_fuel_def [OF assms(1)])

theorem tlvs_never_fault_witness:
  "\<exists>ret us'. xdp2_parse_tlvs 200 xdp2_parser_big_ether short_tcp tcp_node 34 20 0 ctrl0 (mem0 sizeof_big_metadata) =
     Ok (ret, ctrl0, us') \<and> mem_ok sizeof_big_metadata us'"
proof -
  obtain tn where tn: "pn_super tcp_node = TlvsNode tn" "tlv_proto_table tn = Some tcp_tlv_table"
    "tlv_wildcard_node tn = None"
    by (simp add: tcp_node_def make_node_simps)
  have d: "pd_super xdp2_parse_tcp_tlvs = TlvsDef tcp_tlvs_def" by (simp add: xdp2_parse_tcp_tlvs_def)
  show ?thesis
    by (rule tlvs_never_fault [OF big_ether.tlv_graph_axioms big_node_protos(28) tn(1) d tcp_tlvs_ok
          big_tcp_options_ok [OF tn(2,3)]])
      (simp_all add: packet_lengths mem0_ok frame_fits_def proto_simps)
qed

text \<open>C24: a protocol's length function that returns a negative code makes the engine return
  \<open>XDP2_STOP_LENGTH\<close>: the code is compared with the remaining length as an unsigned
  number first, so it never reaches the test for negative values.\<close>

theorem negative_length_is_stop_length:
  assumes "op_len (pd_ops pd) = Some f" and "f p hdr len = Ok hlen" and "sint hlen < 0"
    and "unat len < 2 ^ 63"
  shows "header_length pd p hdr len = Ok (Inl XDP2_STOP_LENGTH)"
proof -
  have "2 ^ 63 \<le> unat hlen" using assms(3) by (simp only: sint_negative_iff)
  then have "len < hlen" using assms(4) unfolding word_less_nat_alt by linarith
  then show ?thesis using assms(1,2) by (simp add: header_length_def)
qed

theorem negative_length_is_stop_length_witness:
  "header_length xdp2_parse_ipv4_check (replicate 20 0) 0 20 = Ok (Inl XDP2_STOP_LENGTH)"
  by (rule negative_length_is_stop_length [where f = ipv4_length_check and hlen = "ret_len XDP2_STOP_UNKNOWN_PROTO"])
    (simp_all add: proto_simps xdp2_consts rd8_def sint_ret_len)

text \<open>C25: a TLV that is shorter than its definition asks for, in a TLVs node with a wildcard
  node, makes \<open>xdp2_parse_one_tlv\<close> jump to \<open>parse_again\<close> forever: \<open>proto_tlv_def\<close> is not
  read again for the wildcard node, so the length test fails again. No fuel is enough.\<close>

theorem short_tlv_wildcard_diverges:
  assumes "tlv_nodes P nid = Some nd" and "tlv_def nd = Some d" and "tlen < tlv_min_len d"
    and "tlv_wildcard_node tn = Some w"
  shows "\<forall>fuel. xdp2_parse_one_tlv fuel nested P p tn nid hdr tlen frame ctrl us = Err StillRunning"
  using assms by (simp add: xdp2_parse_one_tlv_def parse_again_stuck)

theorem short_tlv_wildcard_diverges_witness:
  "\<forall>fuel. xdp2_parse_one_tlv fuel (\<lambda>_ _ _ _ _ _. Err NullPointer) xdp2_parser_big_ether [2, 2]
     \<lparr>tlv_proto_table = Some tcp_tlv_table, max_tlvs = 0, max_tlv_len = 0,
      unknown_tlv_type_ret = XDP2_OKAY, tlv_wildcard_node = Some id_opt_timestamp\<rparr>
     id_opt_mss 0 2 0 ctrl0 (mem0 sizeof_big_metadata) = Err StillRunning"
  by (rule short_tlv_wildcard_diverges [where nd = tcp_opt_mss_node and d = xdp2_parse_tcp_option_mss])
    (simp_all add: big_tlv_node big_tlv_nodes_def tcp_opt_mss_node_def make_node_simps proto_simps)

text \<open>C26: in a node with a protocol table, a \<open>next_proto\<close> operation and a wildcard node, a
  protocol that is not in the table is not sent to the wildcard node: the table is looked
  up a second time and the NULL result replaces the wildcard, and the next iteration of
  the loop, if the limit of nodes allows one, follows the NULL pointer. This is for a node that has no
  flags and whose protocol is no encapsulation and has no \<open>next_proto_keyin\<close>, and a type that
  \<open>next_proto\<close> returns without a negative code.\<close>

theorem wildcard_lost_after_failed_lookup:
  assumes "pn_proto_table nd = Some t" and "pn_wildcard_node nd = Some w" and "\<not> pd_encap pd"
    and "op_next_proto_keyin (pd_ops pd) = None" and "op_next_proto (pd_ops pd) = Some f"
    and "f p (ps_hdr st) = Ok ty" and "0 \<le> ty" and "lookup_node ty t = None" and "pn_flags nd = 0"
  shows "\<exists>st'. to_next P p nd pd hlen st = Ok (Continue st') \<and> ps_node st' = None \<and>
    parse_loop nds fuel P p st' = Err NullPointer"
proof -
  have "parse_loop nds fuel P p st' = Err NullPointer" if "ps_node st' = None" for st' :: "'a pstate"
    using that by (cases nds) (simp_all add: parse_step_def)
  then show ?thesis
    using assms by (simp add: to_next_def encap_step_def find_next_def next_type_def wildcard_next_def advance_def)
qed

theorem wildcard_lost_after_failed_lookup_witness:
  "\<exists>st'. to_next xdp2_parser_big_ether (replicate 14 0) (ether_node\<lparr>pn_wildcard_node := Some id_ipv4\<rparr>) xdp2_parse_ether 14
      (parse_init xdp2_parser_big_ether 0 14 ctrl0 (mem0 sizeof_big_metadata)) = Ok (Continue st') \<and> ps_node st' = None \<and>
    parse_loop 7 1 xdp2_parser_big_ether (replicate 14 0) st' = Err NullPointer"
  by (rule wildcard_lost_after_failed_lookup [where t = ether_table and w = id_ipv4 and f = ether_proto and ty = 0])
    (simp_all add: parse_init_def ether_node_def make_node_simps proto_simps rd16_def ether_table_0)

section \<open>The fast engine\<close>

text \<open>C4: \<open>xdp2_parse_validate_fast\<close> decides what it should: its depth-first search with the
  array of 64 visited nodes returns true exactly when \<open>calloc\<close> returned memory, the parser has no exit
  nodes, counters and keys, every node that the protocol tables reach passes the checks, and
  there are at most 64 such nodes.\<close>

theorem validate_fast_iff:
  assumes "tables_closed P"
  shows "xdp2_parse_validate_fast mem P = Ok (mem \<and> fast_compatible P)"
proof -
  obtain ok fns where v: "validate_parse_fast_node (Suc NUM_FAST_NODES) P [] (root_node P) = Ok (ok, fns)"
    "visit_post P [] {root_node P} (ok, fns)"
    using validate_root [OF assms] by (auto simp: wp_iff)
  show ?thesis
    using v(1) visit_root_iff [OF v(2)]
    by (auto simp: xdp2_parse_validate_fast_def fast_compatible_def)
qed

theorem validate_fast_iff_witness:
  "xdp2_parse_validate_fast True xdp2_parser_big_ether = Ok (fast_compatible xdp2_parser_big_ether)"
  using validate_fast_iff [OF big_tables_closed, of True] by simp

text \<open>A parser that passes the validation is not safe in the fast engine. The fast engine
  does not compare the header length with the minimum, so a TCP segment with data offset
  zero makes it parse options of a wrapped-around length and read outside the packet; the
  generic engine returns \<open>XDP2_STOP_LENGTH\<close> on the same packet.\<close>

theorem fast_engine_overreads:
  "xdp2_parse_validate_fast True xdp2_parser_big_ether = Ok True \<and>
   xdp2_parse_fast 10 200 xdp2_parser_big_ether short_tcp 0 54 ctrl0 (mem0 sizeof_big_metadata) = Err OutOfBounds \<and>
   map_res fst (xdp2_parse_generic 200 xdp2_parser_big_ether short_tcp 0 54 ctrl0 (mem0 sizeof_big_metadata)) =
     Ok XDP2_STOP_LENGTH"
proof -
  have "fault_of (xdp2_parse_fast 10 200 xdp2_parser_big_ether short_tcp 0 54 ctrl0 (mem0 sizeof_big_metadata)) =
    Some OutOfBounds" by code_simp
  moreover have "xdp2_parse_validate_fast True xdp2_parser_big_ether = Ok True" by code_simp
  moreover have "map_res fst (xdp2_parse_generic 200 xdp2_parser_big_ether short_tcp 0 54 ctrl0 (mem0 sizeof_big_metadata)) =
     Ok XDP2_STOP_LENGTH" by code_simp
  ultimately show ?thesis by (simp add: fault_of_iff)
qed

section \<open>Flag fields\<close>



text \<open>C23: exactly the GRE headers that are supported are accepted, with exactly their length. A header of
  version zero is accepted when no flag but checksum, key and sequence number is set (a set
  routing or unknown flag stops the parser), one of version one, PPTP, when also the acknowledgment
  flag may be set, the key flag is, and the protocol is PPP; the length counts four octets for the
  header and for each field present and is within the length of the packet.\<close>

theorem gre_header_accepted_iff:
  assumes "rd16 p hdr = Ok flags" and "rd16 p (hdr + 2) = Ok protocol"
  shows "(header_length xdp2_parse_gre_v0 p hdr len = Ok (Inr hlen) \<longleftrightarrow>
      ntohs flags AND 0x4FF8 = 0 \<and>
      unat hlen = 4 + 4 * of_bool (bit (ntohs flags) 15) + 4 * of_bool (bit (ntohs flags) 13) +
        4 * of_bool (bit (ntohs flags) 12) \<and>
      unat hlen \<le> unat len) \<and>
    (header_length xdp2_parse_gre_v1 p hdr len = Ok (Inr hlen) \<longleftrightarrow>
      ntohs flags AND 0x4F78 = 0 \<and> bit (ntohs flags) 13 \<and> ntohs protocol = 0x880b \<and>
      unat hlen = 8 + 4 * of_bool (bit (ntohs flags) 15) + 4 * of_bool (bit (ntohs flags) 12) +
        4 * of_bool (bit (ntohs flags) 7) \<and>
      unat hlen \<le> unat len)"
proof -
  have "ntohs protocol = 0x880b \<longleftrightarrow> protocol = htons 0x880b" by (metis bswap16_involutive htons_def ntohs_def)
  then show ?thesis using gre_v0_accepts [OF assms(1)] gre_v1_accepts [OF assms] by simp
qed

text \<open>Key, sequence number and acknowledgment, for version one and PPP.\<close>

definition pptp_packet :: packet where "pptp_packet = [0x30, 0x81, 0x88, 0x0b] @ replicate 12 0"

theorem gre_header_accepted_iff_witness:
  "header_length xdp2_parse_gre_v1 pptp_packet 0 20 = Ok (Inr 16) \<and>
   header_length xdp2_parse_gre_v1 pptp_packet 0 15 \<noteq> Ok (Inr 16) \<and>
   header_length xdp2_parse_gre_v0 pptp_packet 0 20 \<noteq> Ok (Inr 16)"
proof -
  have r: "rd16 pptp_packet 0 = Ok 0x8130" "rd16 pptp_packet (0 + 2) = Ok 0x0b88" by code_simp+
  have n: "ntohs 0x8130 = 0x3081" "ntohs 0x0b88 = 0x880b" by code_simp+
  show ?thesis
    using gre_header_accepted_iff [OF r, of 20 16] gre_header_accepted_iff [OF r, of 15 16] unfolding n by simp
qed

section \<open>The parsers of the library\<close>

text \<open>C3: the big parser extracts what the packet says. An Ethernet frame with an IPv4 packet
  that is no fragment or the first one, with options or without, and UDP, DCCP or SCTP on top, whose
  headers and four octets of ports are within the length, is
  parsed to the end; the frame then has the Ethernet type and addresses, the IPv4 protocol
  and addresses, and both ports. The offsets of the three headers are relative to \<open>pkt.start\<close> of the control
  data; they are the positions in the packet when that is the start of the packet.\<close>

theorem big_ether_ipv4_ports:
  assumes "rd16 p 12 = Ok (htons 0x0800)" and "ipv4_at p 14 ihl fo" and "p ! 23 \<in> {17, 33, 132}"
    and "14 + ihl + 4 \<le> unat len" and "unat len \<le> length p" and "mem_ok n mdata" and "200 \<le> n"
  shows "\<exists>mdata'. xdp2_parser_big_parse_ether entry_point fuel p len ctrl mdata = Ok (True, mdata') \<and>
    (let f = fm_frames (umeta mdata') 0 in
       md_eth_proto f = htons 0x0800 \<and> md_eth_addrs f = take 12 p \<and>
       md_addr_type f = XDP2_ADDR_TYPE_IPV4 \<and> md_ip_proto f = p ! 23 \<and> take 8 (md_addrs f) = take 8 (drop 26 p) \<and>
       rd16 p (14 + ihl) = Ok (md_src_port f) \<and> rd16 p (14 + ihl + 2) = Ok (md_dst_port f) \<and>
       md_l2_off f = ucast (xdp2_parse_hdr_offset 0 ctrl) \<and> md_l3_off f = ucast (xdp2_parse_hdr_offset 14 ctrl) \<and>
       md_l4_off f = ucast (xdp2_parse_hdr_offset (14 + ihl) ctrl) \<and>
       (start (pkt ctrl) = 0 \<longrightarrow>
          unat (md_l2_off f) = 0 \<and> unat (md_l3_off f) = 14 \<and> unat (md_l4_off f) = 14 + ihl))"
proof -
  have "ihl \<le> 60" using ipv4_len_at(2) [OF assms(2)] .
  then have "unat (ucast (of_nat (14 + ihl) :: size_t) :: u16) = 14 + ihl"
    by (simp add: unsigned_ucast_eq unat_of_nat take_bit_nat_eq_self del: of_nat_add)
  then have "unat (ucast (word_of_int (14 + int ihl) :: size_t) :: u16) = 14 + ihl" by simp
  then show ?thesis
    using ether_ipv4_ports_parse [OF assms, of entry_point fuel ctrl]
    by (auto simp: Let_def l3_fields_def xdp2_parse_hdr_offset_def)
qed

theorem big_ether_ipv4_ports_witness:
  "\<exists>mdata'. xdp2_parser_big_parse_ether no_entry_point 1 udp_packet 42 ctrl0 (mem0 sizeof_big_metadata) = Ok (True, mdata') \<and>
    (let f = fm_frames (umeta mdata') 0 in
       md_eth_proto f = htons 0x0800 \<and> md_ip_proto f = 17 \<and> md_src_port f = 0x3500 \<and> md_dst_port f = 0x3412 \<and>
       unat (md_l2_off f) = 0 \<and> unat (md_l3_off f) = 14 \<and> unat (md_l4_off f) = 34)"
proof -
  have a: "ipv4_at udp_packet 14 20 0" "rd16 udp_packet 12 = Ok (htons 0x0800)" "udp_packet ! 23 = 17"
    "rd16 udp_packet 34 = Ok 0x3500" "rd16 udp_packet 36 = Ok 0x3412"
    by code_simp+
  have "start (pkt ctrl0) = 0" by (simp add: ctrl0_def ctrl_pkt0_def)
  then show ?thesis
    using big_ether_ipv4_ports [OF a(2,1), of 42 sizeof_big_metadata "mem0 sizeof_big_metadata" no_entry_point 1 ctrl0]
    by (auto simp: a packet_lengths mem0_ok Let_def proto_simps)
qed

text \<open>C10: both directions of a flow get the same hash input: exchanging source and destination
  addresses and ports does not change what \<open>XDP2_HASH_CONSISTENTIFY\<close> makes of a frame,
  except for IPv4 addresses whose difference is \<open>2 ^ 31\<close>.\<close>

theorem hash_direction_independent:
  assumes "frame_ok f"
    and "md_addr_type f = XDP2_ADDR_TYPE_IPV4 \<longrightarrow> v4_addr 1 f - v4_addr 0 f \<noteq> 2 ^ 31"
  shows "XDP2_HASH_CONSISTENTIFY (reverse_dir f) = XDP2_HASH_CONSISTENTIFY f"
  using assms consistentify_v4 [OF assms(1)] consistentify_v6 [OF assms(1)] by (simp add: reverse_dir_def)

theorem hash_direction_independent_witness:
  "XDP2_HASH_CONSISTENTIFY (reverse_dir (frame0\<lparr>md_addr_type := XDP2_ADDR_TYPE_IPV6, md_src_port := 7\<rparr>)) =
   XDP2_HASH_CONSISTENTIFY (frame0\<lparr>md_addr_type := XDP2_ADDR_TYPE_IPV6, md_src_port := 7\<rparr>)"
  by (rule hash_direction_independent) (simp_all add: frame0_def frame_ok_def proto_simps)

text \<open>C5: both directions of an IPv4 flow of UDP, DCCP or SCTP get the same hash, end to end, unless the difference of
  the two addresses is \<open>2 ^ 31\<close>. For two packets, one of each direction, that are no fragments or first
  fragments with all headers within the length, whatever their options and payloads,
  \<open>xdp2_parser_big_hash_ether\<close> parses them, and returns one and the same value, which is not the zero
  of a failed parse.\<close>

theorem big_hash_both_directions:
  assumes "ipv4_flow p lp pr sa da sp dp" and "ipv4_flow q lq pr da sa dp sp" and "pr \<in> {17, 33, 132}"
    and "le32 da 0 - le32 sa 0 \<noteq> 2 ^ 31"
  shows "\<exists>h. h \<noteq> 0 \<and> xdp2_parser_big_hash_ether ep fuel key p lp ctrl = Ok h \<and>
    xdp2_parser_big_hash_ether ep fuel key q lq ctrl' = Ok h"
proof -
  have l: "length sa = 4" "length da = 4" using ipv4_flow_addrs [OF assms(1)] by simp_all
  let ?f = "flow_frame pr sa da sp dp"
  have ok: "frame_ok ?f" and t: "md_addr_type ?f = XDP2_ADDR_TYPE_IPV4"
    using l by (simp_all add: flow_frame_def frame_ok_def frame0_def)
  have "v4_addr 0 ?f = le32 sa 0" "v4_addr 1 ?f = le32 da 0"
    using l by (simp_all add: v4_addr_def flow_frame_def le32_def nth_append numeral_2_eq_2)
  then have "XDP2_HASH_CONSISTENTIFY (swap_ends 4 ?f) = XDP2_HASH_CONSISTENTIFY ?f"
    using assms(4) by (intro consistentify_v4 [OF ok t]) simp
  then show ?thesis
    using hash_frame_nonzero [OF ok, of key]
    by (simp add: hash_ether_flow [OF assms(1,3)] hash_ether_flow [OF assms(2,3)]
        flow_frame_reverse [OF l, of pr dp sp] xdp2_parser_big_hash_frame_def)
qed

theorem big_hash_both_directions_witness:
  "\<exists>h. h \<noteq> 0 \<and> xdp2_parser_big_hash_ether no_entry_point 1 test_key
       (ether_ip @ flow_header 17 [10, 0, 0, 1] [10, 0, 0, 2] @ [0, 53, 0x12, 0x34, 0, 8, 0, 0]) 42 ctrl0 = Ok h \<and>
    xdp2_parser_big_hash_ether no_entry_point 1 test_key
       (ether_ip @ flow_header 17 [10, 0, 0, 2] [10, 0, 0, 1] @ [0x12, 0x34, 0, 53]) 38 ctrl0 = Ok h"
proof -
  have a: "ipv4_flow (ether_ip @ flow_header 17 [10, 0, 0, 1] [10, 0, 0, 2] @ [0, 53, 0x12, 0x34, 0, 8, 0, 0]) 42 17
      [10, 0, 0, 1] [10, 0, 0, 2] 0x3500 0x3412"
    unfolding ipv4_flow_def by (rule exI [of _ 20], rule exI [of _ 0], intro conjI; code_simp)
  have b: "ipv4_flow (ether_ip @ flow_header 17 [10, 0, 0, 2] [10, 0, 0, 1] @ [0x12, 0x34, 0, 53]) 38 17
      [10, 0, 0, 2] [10, 0, 0, 1] 0x3412 0x3500"
    unfolding ipv4_flow_def by (rule exI [of _ 20], rule exI [of _ 0], intro conjI; code_simp)
  have c: "le32 [10, 0, 0, 2] 0 - le32 [10, 0, 0, 1] 0 \<noteq> (2 ^ 31 :: u32)" by code_simp
  show ?thesis by (rule big_hash_both_directions [OF a b _ c]) simp
qed

text \<open>For the addresses 10.0.0.1 and 10.0.0.129 the two directions get different hash
  inputs: the 32-bit signed difference is its own negation.\<close>

theorem hash_direction_dependent:
  "let f = frame0\<lparr>md_addr_type := XDP2_ADDR_TYPE_IPV4, md_addrs := [10, 0, 0, 1, 10, 0, 0, 129] @ replicate 24 0\<rparr>
   in XDP2_HASH_CONSISTENTIFY (reverse_dir f) \<noteq> XDP2_HASH_CONSISTENTIFY f"
  by code_simp

text \<open>C29: \<open>xdp2_parser_big_hash_ether\<close> gives the parser an object of one frame, while the
  parser uses up to five: every Ethernet frame with an IPv4 packet in an IPv4 packet, neither of them a later
  fragment, whose headers are within the length, makes it write behind the object (when the counter of
  encapsulations starts below the limit of four).\<close>

theorem big_hash_ether_overflows:
  assumes "rd16 p 12 = Ok (htons 0x0800)" and "ipv4_at p 14 ihl fo" and "p ! 23 = 4"
    and "ipv4_at p (14 + ihl) ihl' fo'" and "14 + ihl + ihl' \<le> unat len" and "unat len \<le> length p"
    and "unat (encaps (var ctrl)) < 4"
  shows "xdp2_parser_big_hash_ether entry_point fuel key p len ctrl = Err OutOfBounds"
proof -
  have "200 \<le> sizeof_big_metadata_one" "sizeof_big_metadata_one < 400"
    by (simp_all add: sizeof_big_metadata_one_def sizeof_metadata_all_def)
  then show ?thesis
    using ether_ipip_overflows [OF assms(1-6) mem0_ok _ _ assms(7), of sizeof_big_metadata_one entry_point fuel]
    by (simp add: xdp2_parser_big_hash_ether_def hash_parsed_def)
qed

theorem big_hash_ether_overflows_witness:
  "xdp2_parser_big_hash_ether no_entry_point 200 test_key ipip_packet 54 ctrl0 = Err OutOfBounds"
proof -
  have "rd16 ipip_packet 12 = Ok (htons 0x0800)" "ipv4_at ipip_packet 14 20 0" "ipip_packet ! 23 = 4"
    "ipv4_at ipip_packet (14 + 20) 20 0" by code_simp+
  then show ?thesis
    by (rule big_hash_ether_overflows) (simp_all add: packet_lengths ctrl0_def ctrl_var0_def)
qed

text \<open>\<open>xdp2_parser_big_parse_ether\<close> does not reset the control data. When the counter of
  encapsulations starts at 255 it wraps around, the limit does not hold, and the sixth of six
  IPv4 headers is written behind the five frames; with the counter reset the
  same packet ends with \<open>XDP2_STOP_ENCAP_DEPTH\<close>.\<close>

theorem big_parse_ether_uninitialised_overflows:
  "xdp2_parser_big_parse_ether entry_point 200 deep_packet 134 (ctrl0\<lparr>var := ctrl_var0\<lparr>encaps := 255\<rparr>\<rparr>)
     (mem0 sizeof_big_metadata) = Err OutOfBounds \<and>
   map_res fst (xdp2_parse_generic 200 xdp2_parser_big_ether deep_packet 0 134 ctrl0 (mem0 sizeof_big_metadata)) =
     Ok XDP2_STOP_ENCAP_DEPTH"
proof -
  have "fault_of (xdp2_parse_generic 200 xdp2_parser_big_ether deep_packet 0 134
      (ctrl0\<lparr>var := ctrl_var0\<lparr>encaps := 255\<rparr>\<rparr>) (mem0 sizeof_big_metadata)) = Some OutOfBounds" by code_simp
  moreover have "map_res fst (xdp2_parse_generic 200 xdp2_parser_big_ether deep_packet 0 134 ctrl0
      (mem0 sizeof_big_metadata)) = Ok XDP2_STOP_ENCAP_DEPTH" by code_simp
  ultimately show ?thesis
    by (simp add: fault_of_iff xdp2_parser_big_parse_ether_def
        parse_is_okay_def xdp2_parse_def big_config parse_result_def)
qed

text \<open>\<open>xdp2_parser_big_hash_ip\<close> parses with the default configuration, which puts the
  first frame 64 bytes into the object of one frame. The addresses of an IPv4 packet are then written
  behind the object; the model, where a write needs the whole frame, faults one node earlier.\<close>

theorem big_hash_ip_overflows:
  "xdp2_parser_big_hash_ip entry_point 200 key (drop 14 udp_packet) 28 ctrl0 = Err OutOfBounds"
proof -
  have "fault_of (xdp2_parse_generic 200 xdp2_parser_big_ip (drop 14 udp_packet) 0 28
      (XDP2_CTRL_RESET_VAR_DATA ctrl0) (mem0 sizeof_big_metadata_one)) = Some OutOfBounds" by code_simp
  then show ?thesis
    by (simp add: fault_of_iff xdp2_parser_big_hash_ip_def xdp2_parser_big_parse_ip_def hash_parsed_def
        parse_is_okay_def xdp2_parse_def xdp2_parser_big_ip_def big_default_parser_def XDP2_PARSER_def parse_result_def)
qed

text \<open>C30: \<open>xdp2_parser_big_parse_l3\<close> fails on every packet, whatever the protocol: the lookup
  function \<open>xdp2_parse_from_table\<close> passes a NULL header of length zero to the parser, not
  the packet.\<close>

theorem big_parse_l3_never_succeeds:
  "\<exists>mdata'. xdp2_parser_big_parse_l3 entry_point fuel p len proto ctrl mdata = Ok (False, mdata')"
proof (cases "xdp2_lookup_parser_table l3_parser_table (uint proto)")
  case None
  then show ?thesis
    by (simp add: xdp2_parser_big_parse_l3_def xdp2_parse_from_table_def parse_is_okay_def xdp2_consts)
next
  case (Some P)
  note root = l3_roots [OF Some]
  then obtain ctrl' where "parse_result (xdp2_parse_generic fuel P [] 0 0 (XDP2_CTRL_RESET_VAR_DATA ctrl) mdata) =
      Ok (XDP2_STOP_LENGTH, ctrl', mdata)"
    using short_header_stops [of P _ _ 0] by (fastforce simp: word_less_nat_alt)
  then show ?thesis
    using root Some
    by (simp add: xdp2_parser_big_parse_l3_def xdp2_parse_from_table_def parse_is_okay_def xdp2_parse_def xdp2_consts)
qed

end
